(* ===== verification/Resolved_Prelude.thy ===== *)
theory Resolved_Prelude
  imports Main "HOL-Library.Word"
begin

text \<open>
  Shared vocabulary of the development: the machine integers of the Rust sources as words,
  Rust's \<open>Result\<close> as a sum type (\<open>Inl\<close> is the error) with the sequencing that the question
  mark operator performs, checked and saturating arithmetic, slice access that fails
  instead of being unspecified, and the big-endian codecs of \<open>u16\<close> and \<open>u32\<close>.
  \<open>usize\<close> is modelled by \<^typ>\<open>nat\<close>; where the source writes \<open>checked_add\<close> on it, the bound
  of a 64-bit machine is written out.
\<close>

unbundle bit_operations_syntax

section \<open>Machine integers and results\<close>

type_synonym u8 = "8 word"
type_synonym u16 = "16 word"
type_synonym u32 = "32 word"
type_synonym u64 = "64 word"
type_synonym bytes = "8 word list"

named_theorems result_simps \<open>decomposition of the question mark operator\<close>
named_theorems slice_simps \<open>slice access and update\<close>
named_theorems be_simps \<open>big-endian codecs\<close>

definition rbind :: "'e + 'a \<Rightarrow> ('a \<Rightarrow> 'e + 'b) \<Rightarrow> 'e + 'b" where
  "rbind r f = (case r of Inl e \<Rightarrow> Inl e | Inr a \<Rightarrow> f a)"

definition ok_or :: "'a option \<Rightarrow> 'e \<Rightarrow> 'e + 'a" where
  "ok_or x e = (case x of None \<Rightarrow> Inl e | Some a \<Rightarrow> Inr a)"

definition guard_err :: "bool \<Rightarrow> 'e \<Rightarrow> 'e + unit" where
  "guard_err b e = (if b then Inl e else Inr ())"

definition map_err :: "('e \<Rightarrow> 'f) \<Rightarrow> 'e + 'a \<Rightarrow> 'f + 'a" where
  "map_err f r = (case r of Inl e \<Rightarrow> Inl (f e) | Inr a \<Rightarrow> Inr a)"

definition is_ok :: "'e + 'a \<Rightarrow> bool" where
  "is_ok r = (case r of Inl _ \<Rightarrow> False | Inr _ \<Rightarrow> True)"

definition result_ok :: "'e + 'a \<Rightarrow> 'a option" where
  "result_ok r = (case r of Inl _ \<Rightarrow> None | Inr a \<Rightarrow> Some a)"

lemma rbind_Inl [simp]: "rbind (Inl e) f = Inl e"
  by (simp add: rbind_def)

lemma rbind_Inr [simp]: "rbind (Inr a) f = f a"
  by (simp add: rbind_def)

lemma rbind_eq_Inr [result_simps]: "rbind r f = Inr b \<longleftrightarrow> (\<exists>a. r = Inr a \<and> f a = Inr b)"
  by (cases r) auto

lemma rbind_eq_Inl [result_simps]:
  "rbind r f = Inl e \<longleftrightarrow> r = Inl e \<or> (\<exists>a. r = Inr a \<and> f a = Inl e)"
  by (cases r) auto

lemma rbind_cong [fundef_cong]:
  "r = r' \<Longrightarrow> (\<And>a. r' = Inr a \<Longrightarrow> f a = f' a) \<Longrightarrow> rbind r f = rbind r' f'"
  by (cases r') auto

lemma rbind_assoc: "rbind (rbind r f) g = rbind r (\<lambda>a. rbind (f a) g)"
  by (cases r) auto

lemma rbindE:
  assumes "rbind r f = Inr b"
  obtains a where "r = Inr a" and "f a = Inr b"
  using assms by (cases r) auto

lemma ok_or_simps [simp]: "ok_or None e = Inl e" "ok_or (Some a) e = Inr a"
  by (simp_all add: ok_or_def)

lemma ok_or_eq_Inr [result_simps]: "ok_or x e = Inr a \<longleftrightarrow> x = Some a"
  by (cases x) auto

lemma ok_or_eq_Inl [result_simps]: "ok_or x e = Inl e' \<longleftrightarrow> x = None \<and> e' = e"
  by (cases x) auto

lemma guard_err_simps [simp]: "guard_err True e = Inl e" "guard_err False e = Inr ()"
  by (simp_all add: guard_err_def)

lemma guard_err_eq_Inr [result_simps]: "guard_err b e = Inr u \<longleftrightarrow> \<not> b"
  by (cases b) auto

lemma guard_err_eq_Inl [result_simps]: "guard_err b e = Inl e' \<longleftrightarrow> b \<and> e' = e"
  by (cases b) auto

lemma map_err_simps [simp]: "map_err f (Inl e) = Inl (f e)" "map_err f (Inr a) = Inr a"
  by (simp_all add: map_err_def)

lemma map_err_eq_Inr [result_simps]: "map_err f r = Inr a \<longleftrightarrow> r = Inr a"
  by (cases r) auto

lemma is_ok_simps [simp]: "\<not> is_ok (Inl e)" "is_ok (Inr a)"
  by (simp_all add: is_ok_def)

lemma is_ok_iff: "is_ok r \<longleftrightarrow> (\<exists>a. r = Inr a)"
  by (cases r) auto

lemma result_ok_simps [simp]: "result_ok (Inl e) = None" "result_ok (Inr a) = Some a"
  by (simp_all add: result_ok_def)

section \<open>Checked and saturating arithmetic\<close>

definition usize_limit :: nat where
  "usize_limit = 2 ^ 64"

definition checked_add_usize :: "nat \<Rightarrow> nat \<Rightarrow> nat option" where
  "checked_add_usize a b = (if a + b < usize_limit then Some (a + b) else None)"

definition checked_add_w :: "'a::len word \<Rightarrow> 'a word \<Rightarrow> 'a word option" where
  "checked_add_w a b = (if unat a + unat b < 2 ^ LENGTH('a) then Some (a + b) else None)"

definition checked_sub_w :: "'a::len word \<Rightarrow> 'a word \<Rightarrow> 'a word option" where
  "checked_sub_w a b = (if b \<le> a then Some (a - b) else None)"

definition saturating_sub_w :: "'a::len word \<Rightarrow> 'a word \<Rightarrow> 'a word" where
  "saturating_sub_w a b = (if b \<le> a then a - b else 0)"

definition saturating_add_w :: "'a::len word \<Rightarrow> 'a word \<Rightarrow> 'a word" where
  "saturating_add_w a b = (if unat a + unat b < 2 ^ LENGTH('a) then a + b else - 1)"

definition try_from_nat :: "nat \<Rightarrow> 'a::len word option" where
  "try_from_nat n = (if n < 2 ^ LENGTH('a) then Some (of_nat n) else None)"

definition exceeds_u16_max :: "nat \<Rightarrow> bool" where
  "exceeds_u16_max n \<longleftrightarrow> n > 65535"

text \<open>The bounds evaluate over binary integers rather than unary naturals.\<close>

lemma checked_add_usize_code [code]:
  "checked_add_usize a b =
     (if int a + int b < 18446744073709551616 then Some (a + b) else None)"
  by (auto simp: checked_add_usize_def usize_limit_def)

lemma try_from_nat_code [code]:
  "(try_from_nat n :: 'a::len word option) =
     (if int n < 2 ^ LENGTH('a) then Some (of_nat n) else None)"
  by (simp add: try_from_nat_def)

lemma unat_sum_less_iff:
  "unat (a :: 'a::len word) + unat b < 2 ^ n \<longleftrightarrow> uint a + uint b < 2 ^ n"
proof -
  have "uint a + uint b = int (unat a + unat b)" by simp
  then show ?thesis by (simp only: of_nat_less_numeral_power_cancel_iff)
qed

lemma checked_add_w_code [code]:
  "checked_add_w (a :: 'a::len word) b = (if uint a + uint b < 2 ^ LENGTH('a) then Some (a + b) else None)"
  by (simp add: checked_add_w_def unat_sum_less_iff)

lemma saturating_add_w_code [code]:
  "saturating_add_w (a :: 'a::len word) b = (if uint a + uint b < 2 ^ LENGTH('a) then a + b else - 1)"
  by (simp add: saturating_add_w_def unat_sum_less_iff)

lemma exceeds_u16_max_code [code]: "exceeds_u16_max n \<longleftrightarrow> int n > 65535"
  by (simp add: exceeds_u16_max_def)

lemma checked_add_usize_Some [simp]:
  "checked_add_usize a b = Some c \<longleftrightarrow> c = a + b \<and> a + b < usize_limit"
  by (auto simp: checked_add_usize_def)

lemma unat_checked_add_w:
  "checked_add_w (a::'a::len word) b = Some c \<Longrightarrow> unat c = unat a + unat b"
  by (auto simp: checked_add_w_def unat_word_ariths split: if_splits)

lemma unat_saturating_sub_w:
  "unat (saturating_sub_w (a::'a::len word) b) = unat a - unat b"
  by (auto simp: saturating_sub_w_def unat_sub word_le_nat_alt)

lemma unat_minus_1_eq: "unat (- 1 :: 'a::len word) = 2 ^ LENGTH('a) - 1"
  by (simp add: unsigned_minus_1_eq_mask mask_eq_exp_minus_1)

lemma unat_saturating_add_w:
  "unat (saturating_add_w (a::'a::len word) b) = min (unat a + unat b) (2 ^ LENGTH('a) - 1)"
  by (auto simp: saturating_add_w_def unat_word_ariths unat_minus_1_eq)

lemma try_from_nat_Some:
  "try_from_nat n = Some (w::'a::len word) \<longleftrightarrow> n < 2 ^ LENGTH('a) \<and> w = of_nat n"
  by (auto simp: try_from_nat_def)

lemma unat_try_from_nat: "try_from_nat n = Some (w::'a::len word) \<Longrightarrow> unat w = n"
  by (auto simp: try_from_nat_Some unat_of_nat)

section \<open>Slices\<close>

definition get_at :: "'a list \<Rightarrow> nat \<Rightarrow> 'a option" where
  "get_at xs i = (if i < length xs then Some (xs ! i) else None)"

definition get_range :: "'a list \<Rightarrow> nat \<Rightarrow> nat \<Rightarrow> 'a list option" where
  "get_range xs a b = (if a \<le> b \<and> b \<le> length xs then Some (take (b - a) (drop a xs)) else None)"

definition put_at :: "'a list \<Rightarrow> nat \<Rightarrow> 'a list \<Rightarrow> 'a list" where
  "put_at xs i ys = take i xs @ ys @ drop (i + length ys) xs"

lemma get_at_Some [slice_simps]: "get_at xs i = Some x \<longleftrightarrow> i < length xs \<and> xs ! i = x"
  by (auto simp: get_at_def)

lemma get_at_None [slice_simps]: "get_at xs i = None \<longleftrightarrow> length xs \<le> i"
  by (auto simp: get_at_def)

lemma get_range_Some [slice_simps]:
  "get_range xs a b = Some ys \<longleftrightarrow> a \<le> b \<and> b \<le> length xs \<and> ys = take (b - a) (drop a xs)"
  by (auto simp: get_range_def)

lemma get_range_None [slice_simps]: "get_range xs a b = None \<longleftrightarrow> \<not> (a \<le> b \<and> b \<le> length xs)"
  by (auto simp: get_range_def)

lemma length_get_range: "get_range xs a b = Some ys \<Longrightarrow> length ys = b - a"
  by (auto simp: get_range_Some)

lemma get_at_append [simp]: "get_at (pre @ x # post) (length pre) = Some x"
  by (simp add: get_at_def)

lemma get_at_append_plus [simp]: "get_at (pre @ xs) (length pre + i) = get_at xs i"
  by (simp add: get_at_def)

lemma get_range_append [simp]:
  "get_range (pre @ xs) (length pre + i) (length pre + j) = get_range xs i j"
  by (simp add: get_range_def)

lemma get_at_prefix: "i < length xs \<Longrightarrow> get_at (xs @ ys) i = get_at xs i"
  by (simp add: get_at_def nth_append)

lemma get_range_prefix: "j \<le> length xs \<Longrightarrow> get_range (xs @ ys) i j = get_range xs i j"
  by (simp add: get_range_def)

lemma length_put_at [simp]: "i + length ys \<le> length xs \<Longrightarrow> length (put_at xs i ys) = length xs"
  by (simp add: put_at_def)

lemma nth_put_at:
  assumes "i + length ys \<le> length xs" and "j < length xs"
  shows "put_at xs i ys ! j = (if i \<le> j \<and> j < i + length ys then ys ! (j - i) else xs ! j)"
  using assms by (auto simp: put_at_def nth_append min_def)

lemma get_at_put_at:
  assumes "i + length ys \<le> length xs"
  shows "get_at (put_at xs i ys) j
    = (if i \<le> j \<and> j < i + length ys then Some (ys ! (j - i)) else get_at xs j)"
  using assms by (auto simp: get_at_def nth_put_at)

lemma list_eqI_get_at: "(\<And>i. get_at xs i = get_at ys i) \<Longrightarrow> xs = ys"
proof (rule nth_equalityI)
  assume eq: "\<And>i. get_at xs i = get_at ys i"
  show len: "length xs = length ys"
    using eq [of "length xs"] eq [of "length ys"] by (auto simp: get_at_def split: if_splits)
  show "xs ! i = ys ! i" if "i < length xs" for i
    using eq [of i] that len by (simp add: get_at_def)
qed

lemma get_range_put_at_disjoint:
  assumes "i + length ys \<le> length xs" and "b \<le> i \<or> i + length ys \<le> a"
  shows "get_range (put_at xs i ys) a b = get_range xs a b"
proof (cases "a \<le> b \<and> b \<le> length xs")
  case True
  have "take (b - a) (drop a (put_at xs i ys)) = take (b - a) (drop a xs)"
    by (rule nth_equalityI) (use assms True in \<open>auto simp: nth_put_at\<close>)
  then show ?thesis using assms(1) by (simp add: get_range_def)
next
  case False
  then show ?thesis using assms(1) by (auto simp: get_range_def)
qed

lemma get_range_put_at_same:
  assumes "i + length ys \<le> length xs"
  shows "get_range (put_at xs i ys) i (i + length ys) = Some ys"
  using assms by (simp add: get_range_def put_at_def)

lemma put_at_get_range:
  "get_range xs i j = Some ys \<Longrightarrow> put_at xs i ys = xs"
  by (auto simp: get_range_Some put_at_def) (metis add.commute append_take_drop_id drop_drop le_add_diff_inverse2)

lemma put_at_put_at:
  assumes "length zs = length ys" and "i + length ys \<le> length xs"
  shows "put_at (put_at xs i ys) i zs = put_at xs i zs"
  using assms by (simp add: put_at_def)

section \<open>Big-endian codecs\<close>

text \<open>\<open>from_be_bytes\<close> and \<open>to_be_bytes\<close> of \<open>u16\<close> and \<open>u32\<close>.\<close>

definition u16_from_be :: "u8 \<Rightarrow> u8 \<Rightarrow> u16" where
  "u16_from_be a b = push_bit 8 (ucast a) OR ucast b"

definition u16_to_be :: "u16 \<Rightarrow> bytes" where
  "u16_to_be v = [ucast (drop_bit 8 v), ucast v]"

definition u32_from_be :: "u8 \<Rightarrow> u8 \<Rightarrow> u8 \<Rightarrow> u8 \<Rightarrow> u32" where
  "u32_from_be a b c d =
     push_bit 24 (ucast a) OR push_bit 16 (ucast b) OR push_bit 8 (ucast c) OR ucast d"

definition u32_to_be :: "u32 \<Rightarrow> bytes" where
  "u32_to_be v = [ucast (drop_bit 24 v), ucast (drop_bit 16 v), ucast (drop_bit 8 v), ucast v]"

definition u16_of_slice :: "bytes \<Rightarrow> u16" where
  "u16_of_slice bs = u16_from_be (bs ! 0) (bs ! 1)"

definition u32_of_slice :: "bytes \<Rightarrow> u32" where
  "u32_of_slice bs = u32_from_be (bs ! 0) (bs ! 1) (bs ! 2) (bs ! 3)"

lemma length_u16_to_be [simp]: "length (u16_to_be v) = 2"
  by (simp add: u16_to_be_def)

lemma length_u32_to_be [simp]: "length (u32_to_be v) = 4"
  by (simp add: u32_to_be_def)

lemma bit_u8_high [simp]: "8 \<le> n \<Longrightarrow> \<not> bit (w::u8) n"
  using bit_imp_le_length [of w n] by auto

lemma u16_from_to_be: "u16_from_be (ucast (drop_bit 8 v)) (ucast v) = v"
  unfolding u16_from_be_def by (auto intro!: bit_word_eqI simp: bit_simps)

lemma u32_from_to_be:
  "u32_from_be (ucast (drop_bit 24 v)) (ucast (drop_bit 16 v)) (ucast (drop_bit 8 v)) (ucast v) = v"
proof (rule bit_word_eqI)
  fix n assume "n < LENGTH(32)"
  then consider "n < 8" | "8 \<le> n \<and> n < 16" | "16 \<le> n \<and> n < 24" | "24 \<le> n \<and> n < 32"
    by fastforce
  then show "bit (u32_from_be (ucast (drop_bit 24 v)) (ucast (drop_bit 16 v))
      (ucast (drop_bit 8 v)) (ucast v)) n = bit v n"
    by cases (auto simp: u32_from_be_def bit_simps)
qed

lemma u16_to_from_be: "u16_to_be (u16_from_be a b) = [a, b]"
  unfolding u16_to_be_def u16_from_be_def
  by (auto intro!: bit_word_eqI simp: bit_simps)

lemma u32_to_from_be: "u32_to_be (u32_from_be a b c d) = [a, b, c, d]"
  unfolding u32_to_be_def u32_from_be_def
  by (auto intro!: bit_word_eqI simp: bit_simps)

lemma u16_of_slice_to_be [be_simps]: "u16_of_slice (u16_to_be v) = v"
  by (simp add: u16_of_slice_def u16_to_be_def u16_from_to_be)

lemma u32_of_slice_to_be [be_simps]: "u32_of_slice (u32_to_be v) = v"
  by (simp add: u32_of_slice_def u32_to_be_def u32_from_to_be)

lemma u16_to_be_of_slice [be_simps]: "length bs = 2 \<Longrightarrow> u16_to_be (u16_of_slice bs) = bs"
  by (auto simp: u16_of_slice_def u16_to_from_be length_Suc_conv numeral_2_eq_2)

lemma u32_to_be_of_slice [be_simps]: "length bs = 4 \<Longrightarrow> u32_to_be (u32_of_slice bs) = bs"
  by (auto simp: u32_of_slice_def u32_to_from_be length_Suc_conv eval_nat_numeral)

text \<open>
  A fixed-width codec: what the readers and the writers of the wire format rely on. It is
  interpreted on both integer widths.
\<close>

locale fixed_codec =
  fixes enc :: "'v \<Rightarrow> bytes" and dec :: "bytes \<Rightarrow> 'v" and width :: nat
  assumes length_enc: "length (enc v) = width"
    and dec_enc: "dec (enc v) = v"
    and enc_dec: "length bs = width \<Longrightarrow> enc (dec bs) = bs"
begin

lemma enc_inject: "enc v = enc w \<longleftrightarrow> v = w"
  using dec_enc by metis

lemma dec_inject: "length bs = width \<Longrightarrow> length cs = width \<Longrightarrow> dec bs = dec cs \<longleftrightarrow> bs = cs"
  using enc_dec by metis

lemma read_back_written:
  "i + width \<le> length xs \<Longrightarrow>
   map_option dec (get_range (put_at xs i (enc v)) i (i + width)) = Some v"
  using get_range_put_at_same [of i "enc v" xs] by (simp add: length_enc dec_enc)

lemma write_back_read:
  "get_range xs i (i + width) = Some bs \<Longrightarrow> put_at xs i (enc (dec bs)) = xs"
  using enc_dec length_get_range put_at_get_range by fastforce

end

interpretation u16_codec: fixed_codec u16_to_be u16_of_slice 2
  by unfold_locales (simp_all add: be_simps)

interpretation u32_codec: fixed_codec u32_to_be u32_of_slice 4
  by unfold_locales (simp_all add: be_simps)

section \<open>Lists without duplicates in insertion order\<close>

text \<open>
  The sources build many vectors with \<open>if !output.contains(x) { output.push(x) }\<close>;
  \<open>push_new\<close> is that statement and \<open>push_all_new\<close> the loop over it.
\<close>

definition push_new :: "'a list \<Rightarrow> 'a \<Rightarrow> 'a list" where
  "push_new acc x = (if x \<in> set acc then acc else acc @ [x])"

fun push_all_new :: "'a list \<Rightarrow> 'a list \<Rightarrow> 'a list" where
  "push_all_new acc [] = acc"
| "push_all_new acc (x # xs) = push_all_new (push_new acc x) xs"

lemma set_push_new [simp]: "set (push_new acc x) = insert x (set acc)"
  by (auto simp: push_new_def)

lemma distinct_push_new [simp]: "distinct (push_new acc x) = distinct acc"
  by (auto simp: push_new_def)

lemma set_push_all_new [simp]: "set (push_all_new acc xs) = set acc \<union> set xs"
  by (induction acc xs rule: push_all_new.induct) auto

lemma distinct_push_all_new [simp]: "distinct (push_all_new acc xs) = distinct acc"
  by (induction acc xs rule: push_all_new.induct) auto

lemma push_all_new_absorb: "set xs \<subseteq> set acc \<Longrightarrow> push_all_new acc xs = acc"
  by (induction acc xs rule: push_all_new.induct) (auto simp: push_new_def)

lemma push_all_new_distinct:
  "distinct xs \<Longrightarrow> set acc \<inter> set xs = {} \<Longrightarrow> push_all_new acc xs = acc @ xs"
  by (induction acc xs rule: push_all_new.induct) (auto simp: push_new_def)

lemma push_all_new_idem: "push_all_new [] (push_all_new [] xs) = push_all_new [] xs"
  by (simp add: push_all_new_distinct)

lemma push_all_new_append: "push_all_new acc (xs @ ys) = push_all_new (push_all_new acc xs) ys"
  by (induction acc xs rule: push_all_new.induct) auto

end
