(* ===== verification/Rust_Strings.thy ===== *)
theory Rust_Strings
  imports Resolved_Prelude
begin

text \<open>
  The string operations of the Rust standard library that the sources use. A Rust
  \<open>String\<close> is modelled by the list of its UTF-8 bytes, written as Isabelle characters, so
  \<open>len()\<close> is \<^const>\<open>length\<close> and the ASCII operations work byte-wise as they do in Rust.
  \<open>trim\<close> and \<open>split_whitespace\<close> work on the UTF-8 encodings of the code points with the
  Unicode property White\_Space.
\<close>

section \<open>Bytes and characters\<close>

definition byte_of_char :: "char \<Rightarrow> u8" where
  "byte_of_char c = of_nat (of_char c)"

definition char_of_byte :: "u8 \<Rightarrow> char" where
  "char_of_byte b = char_of (unat b)"

abbreviation as_bytes :: "string \<Rightarrow> bytes" where
  "as_bytes \<equiv> map byte_of_char"

lemma of_char_less_256 [simp]: "(of_char c :: nat) < 256"
  by (cases c) (simp split: bool.splits)

lemma unat_byte_of_char [simp]: "unat (byte_of_char c) = of_char c"
  by (simp add: byte_of_char_def unat_of_nat)

lemma unat_lt_256 [simp]: "unat (b::u8) < 256"
  using unsigned_less [of b] by simp

lemma char_of_byte_of_char [simp]: "char_of_byte (byte_of_char c) = c"
  by (simp add: char_of_byte_def)

lemma byte_of_char_of_byte [simp]: "byte_of_char (char_of_byte b) = b"
proof -
  have "unat b < 256" using unat_lt_256 .
  then show ?thesis
    by (simp add: byte_of_char_def char_of_byte_def of_char_of)
qed

lemma byte_of_char_inject [simp]: "byte_of_char c = byte_of_char d \<longleftrightarrow> c = d"
  by (metis char_of_byte_of_char)

lemma char_of_byte_inject [simp]: "char_of_byte a = char_of_byte b \<longleftrightarrow> a = b"
  by (metis byte_of_char_of_byte)

lemma as_bytes_inject [simp]: "as_bytes s = as_bytes t \<longleftrightarrow> s = t"
  by (simp add: inj_map_eq_map inj_on_def)

section \<open>ASCII classes and case folding\<close>

definition u8_lower :: "u8 \<Rightarrow> u8" where
  "u8_lower b = (if 65 \<le> b \<and> b \<le> 90 then b + 32 else b)"

definition char_lower :: "char \<Rightarrow> char" where
  "char_lower c = (let n = (of_char c :: nat) in if 65 \<le> n \<and> n \<le> 90 then char_of (n + 32) else c)"

abbreviation to_ascii_lowercase :: "string \<Rightarrow> string" where
  "to_ascii_lowercase \<equiv> map char_lower"

definition eq_ignore_ascii_case :: "string \<Rightarrow> string \<Rightarrow> bool" where
  "eq_ignore_ascii_case s t \<longleftrightarrow> to_ascii_lowercase s = to_ascii_lowercase t"

definition is_ascii :: "string \<Rightarrow> bool" where
  "is_ascii s = list_all (\<lambda>c. (of_char c :: nat) < 128) s"

lemma u8_lower_idem [simp]: "u8_lower (u8_lower b) = u8_lower b"
  unfolding u8_lower_def by (auto simp: word_le_nat_alt unat_word_ariths)

lemma unat_u8_lower: "unat (u8_lower b) = (if 65 \<le> unat b \<and> unat b \<le> 90 then unat b + 32 else unat b)"
  unfolding u8_lower_def by (auto simp: word_le_nat_alt unat_word_ariths)

lemma of_char_lower:
  "(of_char (char_lower c) :: nat)
    = (let n = of_char c in if 65 \<le> n \<and> n \<le> 90 then n + 32 else n)"
  by (simp add: char_lower_def Let_def of_char_of)

lemma byte_of_char_lower: "byte_of_char (char_lower c) = u8_lower (byte_of_char c)"
  by (rule word_unat_eq_iff [THEN iffD2]) (simp add: unat_u8_lower of_char_lower Let_def)

lemma char_lower_idem [simp]: "char_lower (char_lower c) = char_lower c"
  by (metis byte_of_char_lower byte_of_char_inject u8_lower_idem)

lemma as_bytes_lower: "as_bytes (to_ascii_lowercase s) = map u8_lower (as_bytes s)"
  by (simp add: byte_of_char_lower)

lemma char_eq_iff_nat: "c = d \<longleftrightarrow> (of_char c :: nat) = of_char d"
  by simp

lemma lower_dot_iff: "char_lower c = CHR ''.'' \<longleftrightarrow> c = CHR ''.''"
  unfolding char_eq_iff_nat of_char_lower by (auto simp: Let_def)

lemma eq_ignore_ascii_case_refl [simp]: "eq_ignore_ascii_case s s"
  by (simp add: eq_ignore_ascii_case_def)

section \<open>Splitting, joining, trimming\<close>

fun split_on :: "'a \<Rightarrow> 'a list \<Rightarrow> 'a list list" where
  "split_on c [] = [[]]"
| "split_on c (x # xs) =
     (if x = c then [] # split_on c xs
      else (case split_on c xs of [] \<Rightarrow> [[x]] | y # ys \<Rightarrow> (x # y) # ys))"

fun join_with :: "'a list \<Rightarrow> 'a list list \<Rightarrow> 'a list" where
  "join_with sep [] = []"
| "join_with sep [x] = x"
| "join_with sep (x # y # zs) = x @ sep @ join_with sep (y # zs)"

definition trim_end_matches :: "'a \<Rightarrow> 'a list \<Rightarrow> 'a list" where
  "trim_end_matches c s = rev (dropWhile (\<lambda>x. x = c) (rev s))"

definition trim_start_matches :: "'a \<Rightarrow> 'a list \<Rightarrow> 'a list" where
  "trim_start_matches c s = dropWhile (\<lambda>x. x = c) s"

fun strip_prefix :: "'a list \<Rightarrow> 'a list \<Rightarrow> 'a list option" where
  "strip_prefix [] s = Some s"
| "strip_prefix (p # ps) [] = None"
| "strip_prefix (p # ps) (x # xs) = (if p = x then strip_prefix ps xs else None)"

definition strip_suffix :: "'a list \<Rightarrow> 'a list \<Rightarrow> 'a list option" where
  "strip_suffix suf s = map_option rev (strip_prefix (rev suf) (rev s))"

definition ends_with_char :: "'a list \<Rightarrow> 'a \<Rightarrow> bool" where
  "ends_with_char s c \<longleftrightarrow> s \<noteq> [] \<and> last s = c"

fun split_once :: "'a \<Rightarrow> 'a list \<Rightarrow> ('a list \<times> 'a list) option" where
  "split_once c [] = None"
| "split_once c (x # xs) =
     (if x = c then Some ([], xs)
      else (case split_once c xs of None \<Rightarrow> None | Some (a, b) \<Rightarrow> Some (x # a, b)))"

lemma split_on_not_Nil [simp]: "split_on c s \<noteq> []"
  by (induction s) (auto split: list.splits)

lemma join_with_Cons: "xs \<noteq> [] \<Longrightarrow> join_with sep (x # xs) = x @ sep @ join_with sep xs"
  by (cases xs) auto

lemma join_split [simp]: "join_with [c] (split_on c s) = s"
proof (induction s)
  case (Cons x xs)
  obtain y ys where *: "split_on c xs = y # ys"
    by (meson list.exhaust split_on_not_Nil)
  with Cons show ?case by (cases ys) auto
qed simp

lemma split_on_notin: "c \<notin> set s \<Longrightarrow> split_on c s = [s]"
  by (induction s) auto

lemma split_on_append_sep: "c \<notin> set a \<Longrightarrow> split_on c (a @ c # b) = a # split_on c b"
  by (induction a) auto

lemma split_join:
  "parts \<noteq> [] \<Longrightarrow> \<forall>p \<in> set parts. c \<notin> set p \<Longrightarrow> split_on c (join_with [c] parts) = parts"
  by (induction "[c]" parts rule: join_with.induct) (auto simp: split_on_notin split_on_append_sep)

lemma split_on_parts_notin: "p \<in> set (split_on c s) \<Longrightarrow> c \<notin> set p"
proof (induction s arbitrary: p)
  case (Cons x xs)
  obtain y ys where "split_on c xs = y # ys"
    by (meson list.exhaust split_on_not_Nil)
  with Cons show ?case by (auto split: if_splits)
qed simp

lemma split_on_map:
  assumes "\<And>x. f x = f c \<longleftrightarrow> x = c"
  shows "split_on (f c) (map f s) = map (map f) (split_on c s)"
proof (induction s)
  case (Cons x xs)
  then show ?case using assms by (auto split: list.splits)
qed simp

lemma length_split_on: "length (split_on c s) = Suc (count_list s c)"
  by (induction s) (auto split: list.splits)

lemma sum_length_split_on: "sum_list (map length (split_on c s)) + count_list s c = length s"
proof (induction s)
  case (Cons x xs)
  obtain y ys where "split_on c xs = y # ys"
    by (meson list.exhaust split_on_not_Nil)
  with Cons show ?case by auto
qed simp

lemma set_split_on: "p \<in> set (split_on c s) \<Longrightarrow> set p \<subseteq> set s"
proof (induction s arbitrary: p)
  case (Cons x xs)
  obtain y ys where eq: "split_on c xs = y # ys"
    by (meson list.exhaust split_on_not_Nil)
  have sub: "\<And>q. q \<in> set (y # ys) \<Longrightarrow> set q \<subseteq> set xs"
    using Cons.IH eq by simp
  have "p = [] \<or> p \<in> set (y # ys) \<or> p = x # y"
    using Cons.prems eq by (auto split: if_splits)
  then show ?case using sub [of p] sub [of y] by auto
qed simp

lemma trim_end_matches_id: "s = [] \<or> last s \<noteq> c \<Longrightarrow> trim_end_matches c s = s"
  by (cases s rule: rev_cases) (auto simp: trim_end_matches_def)

lemma trim_end_matches_snoc [simp]: "trim_end_matches c (s @ [c]) = trim_end_matches c s"
  by (simp add: trim_end_matches_def)

lemma trim_end_matches_last: "trim_end_matches c s \<noteq> [] \<Longrightarrow> last (trim_end_matches c s) \<noteq> c"
  by (induction s rule: rev_induct) (auto simp: trim_end_matches_def)

lemma trim_end_matches_idem [simp]:
  "trim_end_matches c (trim_end_matches c s) = trim_end_matches c s"
  by (metis trim_end_matches_id trim_end_matches_last)

lemma trim_end_matches_map:
  assumes "\<And>x. f x = c \<longleftrightarrow> x = c"
  shows "trim_end_matches c (map f s) = map f (trim_end_matches c s)"
  by (simp add: trim_end_matches_def rev_map dropWhile_map assms comp_def)

lemma strip_prefix_Some: "strip_prefix p s = Some t \<longleftrightarrow> s = p @ t"
  by (induction p s rule: strip_prefix.induct) auto

lemma strip_suffix_Some: "strip_suffix p s = Some t \<longleftrightarrow> s = t @ p"
proof -
  have "strip_suffix p s = Some t \<longleftrightarrow> strip_prefix (rev p) (rev s) = Some (rev t)"
    by (auto simp: strip_suffix_def map_option_case rev_swap split: option.splits)
  also have "\<dots> \<longleftrightarrow> rev s = rev (t @ p)"
    by (simp add: strip_prefix_Some)
  finally show ?thesis by (simp only: rev_is_rev_conv)
qed

lemma strip_suffix_append [simp]: "strip_suffix p (t @ p) = Some t"
  by (simp add: strip_suffix_Some)

lemma strip_suffix_None: "strip_suffix p s = None \<longleftrightarrow> (\<nexists>t. s = t @ p)"
  using strip_suffix_Some by (metis not_None_eq option.distinct(1))

lemma split_once_append: "c \<notin> set a \<Longrightarrow> split_once c (a @ c # b) = Some (a, b)"
  by (induction a) auto

lemma split_once_SomeD: "split_once c s = Some (a, b) \<Longrightarrow> s = a @ c # b \<and> c \<notin> set a"
  by (induction s arbitrary: a) (fastforce split: if_splits option.splits)+

lemma split_once_None: "split_once c s = None \<longleftrightarrow> c \<notin> set s"
  by (induction s) (auto split: option.splits)

section \<open>White space\<close>

text \<open>The UTF-8 encodings of the code points with the property White\_Space.\<close>

definition whitespace_encodings :: "string list" where
  "whitespace_encodings =
     [[CHR 0x09], [CHR 0x0A], [CHR 0x0B], [CHR 0x0C], [CHR 0x0D], [CHR 0x20], [CHR 0xC2, CHR 0x85],
      [CHR 0xC2, CHR 0xA0], [CHR 0xE1, CHR 0x9A, CHR 0x80], [CHR 0xE2, CHR 0x80, CHR 0x80],
      [CHR 0xE2, CHR 0x80, CHR 0x81], [CHR 0xE2, CHR 0x80, CHR 0x82],
      [CHR 0xE2, CHR 0x80, CHR 0x83], [CHR 0xE2, CHR 0x80, CHR 0x84],
      [CHR 0xE2, CHR 0x80, CHR 0x85], [CHR 0xE2, CHR 0x80, CHR 0x86],
      [CHR 0xE2, CHR 0x80, CHR 0x87], [CHR 0xE2, CHR 0x80, CHR 0x88],
      [CHR 0xE2, CHR 0x80, CHR 0x89], [CHR 0xE2, CHR 0x80, CHR 0x8A],
      [CHR 0xE2, CHR 0x80, CHR 0xA8], [CHR 0xE2, CHR 0x80, CHR 0xA9],
      [CHR 0xE2, CHR 0x80, CHR 0xAF], [CHR 0xE2, CHR 0x81, CHR 0x9F],
      [CHR 0xE3, CHR 0x80, CHR 0x80]]"

fun strip_any :: "string list \<Rightarrow> string \<Rightarrow> string option" where
  "strip_any [] s = None"
| "strip_any (w # ws) s = (case strip_prefix w s of Some t \<Rightarrow> Some t | None \<Rightarrow> strip_any ws s)"

lemma strip_any_Some: "strip_any ws s = Some t \<Longrightarrow> \<exists>w \<in> set ws. s = w @ t"
  by (induction ws) (auto simp: strip_prefix_Some split: option.splits)

lemma strip_any_None: "strip_any ws s = None \<longleftrightarrow> (\<forall>w \<in> set ws. \<nexists>t. s = w @ t)"
  by (induction ws) (auto simp: strip_prefix_Some[symmetric] split: option.splits)

definition strip_whitespace :: "string \<Rightarrow> string option" where
  "strip_whitespace s = strip_any whitespace_encodings s"

definition strip_whitespace_rev :: "string \<Rightarrow> string option" where
  "strip_whitespace_rev s = strip_any (map rev whitespace_encodings) s"

lemma whitespace_nonempty: "w \<in> set whitespace_encodings \<Longrightarrow> w \<noteq> []"
  by (auto simp: whitespace_encodings_def)

lemma strip_any_shorter:
  "strip_any ws s = Some t \<Longrightarrow> \<forall>w \<in> set ws. w \<noteq> [] \<Longrightarrow> length t < length s"
  by (auto dest!: strip_any_Some)

lemma strip_whitespace_shorter:
  "strip_whitespace s = Some t \<Longrightarrow> length t < length s"
  "strip_whitespace_rev s = Some t \<Longrightarrow> length t < length s"
  by (auto simp: strip_whitespace_def strip_whitespace_rev_def dest!: strip_any_shorter whitespace_nonempty)

function trim_start :: "string \<Rightarrow> string" where
  "trim_start s = (case strip_whitespace s of None \<Rightarrow> s | Some t \<Rightarrow> trim_start t)"
  by pat_completeness auto
termination by (relation "measure length") (auto dest: strip_whitespace_shorter)

function trim_rev :: "string \<Rightarrow> string" where
  "trim_rev s = (case strip_whitespace_rev s of None \<Rightarrow> s | Some t \<Rightarrow> trim_rev t)"
  by pat_completeness auto
termination by (relation "measure length") (auto dest: strip_whitespace_shorter)

declare trim_start.simps [simp del] trim_rev.simps [simp del]

definition trim_end :: "string \<Rightarrow> string" where
  "trim_end s = rev (trim_rev (rev s))"

definition trim :: "string \<Rightarrow> string" where
  "trim s = trim_end (trim_start s)"

text \<open>\<open>take_word\<close> splits a string before its first white space.\<close>

fun take_word :: "string \<Rightarrow> string \<times> string" where
  "take_word [] = ([], [])"
| "take_word (c # s) =
     (if strip_whitespace (c # s) \<noteq> None then ([], c # s)
      else (let (w, r) = take_word s in (c # w, r)))"

lemma take_word_append: "take_word s = (w, r) \<Longrightarrow> s = w @ r"
  by (induction s arbitrary: w) (auto split: if_splits prod.splits)

lemma trim_start_stops: "strip_whitespace (trim_start s) = None"
  by (induction s rule: trim_start.induct) (subst trim_start.simps, auto split: option.splits)

lemma trim_start_suffix: "\<exists>p. s = p @ trim_start s"
proof (induction s rule: trim_start.induct)
  case (1 s)
  show ?case
  proof (cases "strip_whitespace s")
    case None
    then show ?thesis by (simp add: trim_start.simps)
  next
    case (Some t)
    then obtain w where "s = w @ t" by (auto simp: strip_whitespace_def dest: strip_any_Some)
    moreover obtain p where "t = p @ trim_start t" using 1[OF Some] by blast
    moreover have "trim_start s = trim_start t" using Some by (simp add: trim_start.simps[of s])
    ultimately have "s = (w @ p) @ trim_start s" by simp
    then show ?thesis by blast
  qed
qed

lemma trim_start_length: "length (trim_start s) \<le> length s"
  using trim_start_suffix[of s] by (metis length_append le_add2)

function split_whitespace :: "string \<Rightarrow> string list" where
  "split_whitespace s =
     (case trim_start s of
        [] \<Rightarrow> []
      | c # t \<Rightarrow> (let (w, r) = take_word (c # t) in w # split_whitespace r))"
  by pat_completeness auto
termination
proof (relation "measure length")
  show "wf (measure length)" by simp
  fix s c t x w r
  assume trim: "trim_start s = c # t" and x: "x = take_word (c # t)" and pair: "(w, r) = x"
  have word: "take_word (c # t) = (w, r)" using x pair by simp
  have "strip_whitespace (c # t) = None" using trim_start_stops[of s] trim by simp
  then have "w \<noteq> []" using word by (auto split: prod.splits)
  moreover have "c # t = w @ r" using word by (rule take_word_append)
  ultimately have "length r < length (c # t)" by (cases w) auto
  then show "(r, s) \<in> measure length" using trim_start_length[of s] trim by simp
qed

declare split_whitespace.simps [simp del]

lemma trim_rev_prefix: "\<exists>p. s = p @ trim_rev s"
proof (induction s rule: trim_rev.induct)
  case (1 s)
  show ?case
  proof (cases "strip_whitespace_rev s")
    case None
    then show ?thesis by (simp add: trim_rev.simps)
  next
    case (Some t)
    then obtain w where "s = w @ t" by (auto simp: strip_whitespace_rev_def dest: strip_any_Some)
    moreover obtain p where "t = p @ trim_rev t" using 1[OF Some] by blast
    moreover have "trim_rev s = trim_rev t" using Some by (simp add: trim_rev.simps[of s])
    ultimately have "s = (w @ p) @ trim_rev s" by simp
    then show ?thesis by blast
  qed
qed

lemma trim_infix: "\<exists>p q. s = p @ trim s @ q"
proof -
  obtain p where "s = p @ trim_start s" using trim_start_suffix by blast
  moreover obtain q where q: "rev (trim_start s) = q @ trim_rev (rev (trim_start s))" using trim_rev_prefix by blast
  have "trim_start s = trim s @ rev q" using arg_cong[OF q, of rev] by (simp add: trim_def trim_end_def)
  ultimately show ?thesis by metis
qed

end
