(* ===== verification/Wire_Codec.thy ===== *)
theory Wire_Codec
  imports Rust_Strings
begin

text \<open>
  The DNS wire format: the data types of \<open>src/src/wire.rs\<close> and the readers of
  \<open>src/src/wire/codec.rs\<close> (integers, compressed names, questions, resource records, the
  sections of a packet) together with \<open>encode_name\<close>. The loop of \<open>read_name\<close> is a recursive
  function whose termination follows the two counters the source keeps. The abstract
  specification of a name in a packet is the inductive relation \<open>name_at\<close>, and \<open>read_name\<close>
  is shown to implement it in both directions.
\<close>

section \<open>Constants and data types\<close>

definition DNS_HEADER_LEN :: nat where [simp]: "DNS_HEADER_LEN = 12"
definition CLASS_IN :: u16 where [simp]: "CLASS_IN = 1"
definition CLASS_ANY :: u16 where [simp]: "CLASS_ANY = 255"
definition TYPE_A :: u16 where [simp]: "TYPE_A = 1"
definition TYPE_NS :: u16 where [simp]: "TYPE_NS = 2"
definition TYPE_CNAME :: u16 where [simp]: "TYPE_CNAME = 5"
definition TYPE_SOA :: u16 where [simp]: "TYPE_SOA = 6"
definition TYPE_PTR :: u16 where [simp]: "TYPE_PTR = 12"
definition TYPE_TXT :: u16 where [simp]: "TYPE_TXT = 16"
definition TYPE_AAAA :: u16 where [simp]: "TYPE_AAAA = 28"
definition TYPE_SRV :: u16 where [simp]: "TYPE_SRV = 33"
definition TYPE_DNAME :: u16 where [simp]: "TYPE_DNAME = 39"
definition TYPE_OPT :: u16 where [simp]: "TYPE_OPT = 41"
definition TYPE_RRSIG :: u16 where [simp]: "TYPE_RRSIG = 46"
definition TYPE_TSIG :: u16 where [simp]: "TYPE_TSIG = 250"
definition TYPE_ANY :: u16 where [simp]: "TYPE_ANY = 255"

definition FLAG_QR :: u16 where [simp]: "FLAG_QR = 0x8000"
definition FLAG_OPCODE :: u16 where [simp]: "FLAG_OPCODE = 0x7800"
definition FLAG_AA :: u16 where [simp]: "FLAG_AA = 0x0400"
definition FLAG_TC :: u16 where [simp]: "FLAG_TC = 0x0200"
definition FLAG_RD :: u16 where [simp]: "FLAG_RD = 0x0100"
definition FLAG_RA :: u16 where [simp]: "FLAG_RA = 0x0080"
definition FLAG_CD :: u16 where [simp]: "FLAG_CD = 0x0010"
definition RCODE_MASK :: u16 where [simp]: "RCODE_MASK = 0x000f"

datatype wire_error =
    ShortPacket | InvalidLabel | CompressionLoop | NameTooLong | TrailingData | WrongDirection
  | UnsupportedOpcode u16 | WrongQuestionCount u16 | NoQuestion | QuestionMismatch
  | InvalidName string | InvalidRecord | CnameLoop | ResponseTooLarge

record header =
  h_id :: u16
  h_flags :: u16
  question_count :: u16
  answer_count :: u16
  authority_count :: u16
  additional_count :: u16

record dns_name =
  name_text :: string
  canonical_wire :: bytes

record question =
  q_name :: dns_name
  q_type :: u16
  q_class :: u16
  q_next_offset :: nat

record resource_record =
  rr_name :: dns_name
  rr_type :: u16
  rr_class :: u16
  rr_ttl :: u32
  rr_ttl_offset :: nat
  rr_rdata_offset :: nat
  rr_rdata :: bytes
  rr_next_offset :: nat

section \<open>Readers and writers of integers\<close>

definition checked_end :: "nat \<Rightarrow> nat \<Rightarrow> wire_error + nat" where
  "checked_end offset len = ok_or (checked_add_usize offset len) ShortPacket"

definition read_u16 :: "bytes \<Rightarrow> nat \<Rightarrow> wire_error + u16" where
  "read_u16 packet offset =
     rbind (checked_end offset 2) (\<lambda>end.
     rbind (ok_or (get_range packet offset end) ShortPacket) (\<lambda>bs.
     Inr (u16_from_be (bs ! 0) (bs ! 1))))"

definition read_u32 :: "bytes \<Rightarrow> nat \<Rightarrow> wire_error + u32" where
  "read_u32 packet offset =
     rbind (checked_end offset 4) (\<lambda>end.
     rbind (ok_or (get_range packet offset end) ShortPacket) (\<lambda>bs.
     Inr (u32_from_be (bs ! 0) (bs ! 1) (bs ! 2) (bs ! 3))))"

definition write_u16 :: "bytes \<Rightarrow> nat \<Rightarrow> u16 \<Rightarrow> wire_error + bytes" where
  "write_u16 packet offset value =
     rbind (checked_end offset 2) (\<lambda>end.
     rbind (ok_or (get_range packet offset end) ShortPacket) (\<lambda>_.
     Inr (put_at packet offset (u16_to_be value))))"

definition write_u32 :: "bytes \<Rightarrow> nat \<Rightarrow> u32 \<Rightarrow> wire_error + bytes" where
  "write_u32 packet offset value =
     rbind (checked_end offset 4) (\<lambda>end.
     rbind (ok_or (get_range packet offset end) ShortPacket) (\<lambda>_.
     Inr (put_at packet offset (u32_to_be value))))"

definition header_parse :: "bytes \<Rightarrow> wire_error + header" where
  "header_parse packet =
     (if length packet < DNS_HEADER_LEN then Inl ShortPacket
      else
        rbind (read_u16 packet 0) (\<lambda>i.
        rbind (read_u16 packet 2) (\<lambda>f.
        rbind (read_u16 packet 4) (\<lambda>qd.
        rbind (read_u16 packet 6) (\<lambda>an.
        rbind (read_u16 packet 8) (\<lambda>ns.
        rbind (read_u16 packet 10) (\<lambda>ar.
        Inr \<lparr>h_id = i, h_flags = f, question_count = qd, answer_count = an,
             authority_count = ns, additional_count = ar\<rparr>)))))))"

definition is_response :: "header \<Rightarrow> bool" where
  "is_response h \<longleftrightarrow> h_flags h AND FLAG_QR \<noteq> 0"

definition truncated :: "header \<Rightarrow> bool" where
  "truncated h \<longleftrightarrow> h_flags h AND FLAG_TC \<noteq> 0"

definition response_code :: "header \<Rightarrow> u16" where
  "response_code h = h_flags h AND RCODE_MASK"

definition checking_disabled :: "header \<Rightarrow> bool" where
  "checking_disabled h \<longleftrightarrow> h_flags h AND FLAG_CD \<noteq> 0"

definition opcode :: "header \<Rightarrow> u16" where
  "opcode h = drop_bit 11 (h_flags h AND FLAG_OPCODE)"

definition total_records :: "header \<Rightarrow> nat" where
  "total_records h =
     unat (answer_count h) + unat (authority_count h) + unat (additional_count h)"

section \<open>Names\<close>

definition digit_char :: "nat \<Rightarrow> char" where
  "digit_char d = char_of (48 + d)"

definition is_plain_byte :: "u8 \<Rightarrow> bool" where
  "is_plain_byte b \<longleftrightarrow>
     (65 \<le> b \<and> b \<le> 90) \<or> (97 \<le> b \<and> b \<le> 122) \<or> (48 \<le> b \<and> b \<le> 57) \<or> b = 45 \<or> b = 95"

fun display_label :: "bytes \<Rightarrow> string" where
  "display_label [] = []"
| "display_label (b # bs) =
     (if is_plain_byte b then [char_of_byte b]
      else [CHR 0x5C, digit_char (unat b div 100), digit_char (unat b div 10 mod 10),
            digit_char (unat b mod 10)]) @ display_label bs"

function read_name_loop ::
  "bytes \<Rightarrow> nat \<Rightarrow> nat \<Rightarrow> bool \<Rightarrow> nat \<Rightarrow> nat \<Rightarrow> string list \<Rightarrow> bytes
   \<Rightarrow> wire_error + string list \<times> bytes \<times> nat" where
  "read_name_loop packet cursor next_offset jumped pointer_steps expanded_length labels canonical =
     (case get_at packet cursor of
        None \<Rightarrow> Inl ShortPacket
      | Some len \<Rightarrow>
          if len = 0 then
            Inr (labels, canonical @ [0], if jumped then next_offset else cursor + 1)
          else if len AND 0xc0 = 0xc0 then
            (case get_at packet (cursor + 1) of
               None \<Rightarrow> Inl ShortPacket
             | Some second \<Rightarrow>
                 let pointer = push_bit 8 (unat (len AND 0x3f)) OR unat second in
                 if pointer \<ge> cursor \<or> pointer \<ge> length packet then Inl CompressionLoop
                 else if pointer_steps + 1 > 128 then Inl CompressionLoop
                 else read_name_loop packet pointer
                        (if jumped then next_offset else cursor + 2) True
                        (pointer_steps + 1) expanded_length labels canonical)
          else if len AND 0xc0 \<noteq> 0 \<or> len > 63 then Inl InvalidLabel
          else
            (case checked_end (cursor + 1) (unat len) of
               Inl e \<Rightarrow> Inl e
             | Inr end \<Rightarrow>
                 (case get_range packet (cursor + 1) end of
                    None \<Rightarrow> Inl ShortPacket
                  | Some label \<Rightarrow>
                      (case checked_add_usize expanded_length (unat len + 1) of
                         None \<Rightarrow> Inl NameTooLong
                       | Some expanded \<Rightarrow>
                           if expanded > 255 then Inl NameTooLong
                           else read_name_loop packet end
                                  (if jumped then next_offset else end) jumped
                                  pointer_steps expanded (labels @ [display_label label])
                                  (canonical @ len # map u8_lower label)))))"
  by pat_completeness auto
termination
  by (relation "measures [\<lambda>(_, _, _, _, steps, _). 129 - steps,
                          \<lambda>(packet, cursor, _). length packet - cursor]")
     (auto simp: get_at_Some checked_end_def result_simps)

declare read_name_loop.simps [simp del]

definition name_of_labels_text :: "string list \<Rightarrow> string" where
  "name_of_labels_text labels = (if labels = [] then ''.'' else join_with ''.'' labels)"

definition read_name :: "bytes \<Rightarrow> nat \<Rightarrow> wire_error + dns_name \<times> nat" where
  "read_name packet offset =
     (if offset \<ge> length packet then Inl ShortPacket
      else rbind (read_name_loop packet offset offset False 0 1 [] [])
             (\<lambda>(labels, canonical, next_offset).
                Inr (\<lparr>name_text = name_of_labels_text labels, canonical_wire = canonical\<rparr>,
                     next_offset)))"

fun encode_labels :: "string \<Rightarrow> string list \<Rightarrow> bytes \<Rightarrow> wire_error + bytes" where
  "encode_labels name [] output = Inr output"
| "encode_labels name (label # labels) output =
     (if label = [] \<or> length label > 63 then Inl (InvalidName name)
      else encode_labels name labels (output @ of_nat (length label) # as_bytes label))"

definition encode_name :: "string \<Rightarrow> wire_error + bytes" where
  "encode_name name =
     (let stripped = (case strip_suffix ''.'' name of None \<Rightarrow> name | Some s \<Rightarrow> s) in
      if stripped = [] then Inr [0]
      else if \<not> is_ascii stripped then Inl (InvalidName name)
      else rbind (encode_labels name (split_on (CHR ''.'') stripped) []) (\<lambda>output.
             if length (output @ [0]) > 255 then Inl NameTooLong else Inr (output @ [0])))"

section \<open>Questions, records, sections\<close>

definition parse_question :: "bytes \<Rightarrow> nat \<Rightarrow> wire_error + question" where
  "parse_question packet offset =
     rbind (read_name packet offset) (\<lambda>(name, offset).
     rbind (read_u16 packet offset) (\<lambda>t.
     rbind (read_u16 packet (offset + 2)) (\<lambda>c.
     Inr \<lparr>q_name = name, q_type = t, q_class = c, q_next_offset = offset + 4\<rparr>)))"

definition parse_record :: "bytes \<Rightarrow> nat \<Rightarrow> wire_error + resource_record" where
  "parse_record packet offset =
     rbind (read_name packet offset) (\<lambda>(name, offset).
     rbind (read_u16 packet offset) (\<lambda>t.
     rbind (read_u16 packet (offset + 2)) (\<lambda>c.
     rbind (read_u32 packet (offset + 4)) (\<lambda>ttl.
     rbind (read_u16 packet (offset + 8)) (\<lambda>rdata_length.
     rbind (checked_end (offset + 10) (unat rdata_length)) (\<lambda>next_offset.
     rbind (ok_or (get_range packet (offset + 10) next_offset) ShortPacket) (\<lambda>rdata.
     Inr \<lparr>rr_name = name, rr_type = t, rr_class = c, rr_ttl = ttl, rr_ttl_offset = offset + 4,
          rr_rdata_offset = offset + 10, rr_rdata = rdata, rr_next_offset = next_offset\<rparr>)))))))"

text \<open>The counted loops \<open>for _ in 0..count\<close> over questions and records.\<close>

fun parse_many ::
  "(bytes \<Rightarrow> nat \<Rightarrow> wire_error + 'a) \<Rightarrow> ('a \<Rightarrow> nat) \<Rightarrow> nat \<Rightarrow> bytes \<Rightarrow> nat
   \<Rightarrow> wire_error + 'a list \<times> nat" where
  "parse_many parse next_of 0 packet offset = Inr ([], offset)"
| "parse_many parse next_of (Suc n) packet offset =
     rbind (parse packet offset) (\<lambda>x.
     rbind (parse_many parse next_of n packet (next_of x)) (\<lambda>(xs, end).
     Inr (x # xs, end)))"

definition parse_questions :: "nat \<Rightarrow> bytes \<Rightarrow> nat \<Rightarrow> wire_error + question list \<times> nat" where
  "parse_questions n packet offset = parse_many parse_question q_next_offset n packet offset"

definition parse_records :: "nat \<Rightarrow> bytes \<Rightarrow> nat \<Rightarrow> wire_error + resource_record list \<times> nat" where
  "parse_records n packet offset = parse_many parse_record rr_next_offset n packet offset"

definition parse_sections ::
  "bytes \<Rightarrow> wire_error + header \<times> question list \<times> resource_record list \<times> nat" where
  "parse_sections packet =
     rbind (header_parse packet) (\<lambda>header.
     rbind (parse_questions (unat (question_count header)) packet DNS_HEADER_LEN)
       (\<lambda>(questions, offset).
     rbind (parse_records (total_records header) packet offset) (\<lambda>(records, offset).
     Inr (header, questions, records, offset))))"

section \<open>Integers: characterisation, round trip, frame\<close>

lemma checked_end_Inr [result_simps]:
  "checked_end a b = Inr c \<longleftrightarrow> c = a + b \<and> a + b < usize_limit"
  by (simp add: checked_end_def result_simps)

lemma checked_end_Inl [result_simps]:
  "checked_end a b = Inl e \<longleftrightarrow> e = ShortPacket \<and> usize_limit \<le> a + b"
  by (auto simp: checked_end_def result_simps checked_add_usize_def)

lemma read_u16_eq:
  "read_u16 p i = (if i + 2 \<le> length p \<and> i + 2 < usize_limit
                   then Inr (u16_from_be (p ! i) (p ! (i + 1))) else Inl ShortPacket)"
  by (auto simp: read_u16_def checked_end_def checked_add_usize_def get_range_def)

lemma read_u32_eq:
  "read_u32 p i = (if i + 4 \<le> length p \<and> i + 4 < usize_limit
                   then Inr (u32_from_be (p ! i) (p ! (i + 1)) (p ! (i + 2)) (p ! (i + 3)))
                   else Inl ShortPacket)"
  by (auto simp: read_u32_def checked_end_def checked_add_usize_def get_range_def)

lemma write_u16_eq:
  "write_u16 p i v = (if i + 2 \<le> length p \<and> i + 2 < usize_limit
                      then Inr (put_at p i (u16_to_be v)) else Inl ShortPacket)"
  by (auto simp: write_u16_def checked_end_def checked_add_usize_def get_range_def)

lemma write_u32_eq:
  "write_u32 p i v = (if i + 4 \<le> length p \<and> i + 4 < usize_limit
                      then Inr (put_at p i (u32_to_be v)) else Inl ShortPacket)"
  by (auto simp: write_u32_def checked_end_def checked_add_usize_def get_range_def)

lemma read_u16_Inr [result_simps]:
  "read_u16 p i = Inr v \<longleftrightarrow>
     i + 2 \<le> length p \<and> i + 2 < usize_limit \<and> v = u16_from_be (p ! i) (p ! (i + 1))"
  by (auto simp: read_u16_eq)

lemma read_u32_Inr [result_simps]:
  "read_u32 p i = Inr v \<longleftrightarrow>
     i + 4 \<le> length p \<and> i + 4 < usize_limit \<and>
     v = u32_from_be (p ! i) (p ! (i + 1)) (p ! (i + 2)) (p ! (i + 3))"
  by (auto simp: read_u32_eq)

lemma read_u16_append [simp]:
  "length pre + length xs < usize_limit \<Longrightarrow>
   read_u16 (pre @ xs) (length pre + i) = read_u16 xs i"
  by (auto simp: read_u16_eq nth_append)

lemma read_u16_to_be:
  "length pre + 2 < usize_limit \<Longrightarrow> read_u16 (pre @ u16_to_be v @ post) (length pre) = Inr v"
  by (simp add: read_u16_eq nth_append u16_to_be_def u16_from_to_be)

lemma read_u32_to_be:
  "length pre + 4 < usize_limit \<Longrightarrow> read_u32 (pre @ u32_to_be v @ post) (length pre) = Inr v"
  by (simp add: read_u32_eq nth_append u32_to_be_def u32_from_to_be)

lemma read_write_u16: "write_u16 p i v = Inr p' \<Longrightarrow> read_u16 p' i = Inr v"
  by (auto simp: write_u16_eq read_u16_eq nth_put_at u16_to_be_def u16_from_to_be split: if_splits)

lemma read_write_u32: "write_u32 p i v = Inr p' \<Longrightarrow> read_u32 p' i = Inr v"
  by (auto simp: write_u32_eq read_u32_eq nth_put_at u32_to_be_def u32_from_to_be split: if_splits)

lemma write_u16_frame:
  "write_u16 p i v = Inr p' \<Longrightarrow> length p' = length p \<and>
   (\<forall>j. j < length p \<longrightarrow> \<not> (i \<le> j \<and> j < i + 2) \<longrightarrow> p' ! j = p ! j)"
  by (auto simp: write_u16_eq nth_put_at split: if_splits)

lemma write_u32_frame:
  "write_u32 p i v = Inr p' \<Longrightarrow> length p' = length p \<and>
   (\<forall>j. j < length p \<longrightarrow> \<not> (i \<le> j \<and> j < i + 4) \<longrightarrow> p' ! j = p ! j)"
  by (auto simp: write_u32_eq nth_put_at split: if_splits)

lemma header_parse_eq:
  assumes "12 \<le> length p"
  shows "header_parse p =
     Inr \<lparr>h_id = u16_from_be (p ! 0) (p ! 1), h_flags = u16_from_be (p ! 2) (p ! 3),
          question_count = u16_from_be (p ! 4) (p ! 5), answer_count = u16_from_be (p ! 6) (p ! 7),
          authority_count = u16_from_be (p ! 8) (p ! 9),
          additional_count = u16_from_be (p ! 10) (p ! 11)\<rparr>"
  using assms by (simp add: header_parse_def read_u16_eq usize_limit_def)

lemma header_parse_short: "length p < 12 \<Longrightarrow> header_parse p = Inl ShortPacket"
  by (simp add: header_parse_def)

lemma header_parse_Inr_length: "header_parse p = Inr h \<Longrightarrow> 12 \<le> length p"
  by (cases "12 \<le> length p") (auto simp: header_parse_short)

lemma header_parse_cong:
  assumes "12 \<le> length p" and "12 \<le> length q" and "take 12 p = take 12 q"
  shows "header_parse p = header_parse q"
proof -
  have "p ! i = q ! i" if "i < 12" for i
    using assms(3) that by (metis nth_take)
  then show ?thesis using assms(1,2) by (simp add: header_parse_eq)
qed

section \<open>The abstract notion of a name in a packet\<close>

text \<open>
  \<open>name_at p off ls nxt k\<close>: the label sequence \<open>ls\<close> is encoded at offset \<open>off\<close> of packet \<open>p\<close>,
  the encoding in place ends before \<open>nxt\<close>, and decoding it follows \<open>k\<close> compression pointers,
  each of which points strictly backwards.
\<close>

inductive name_at :: "bytes \<Rightarrow> nat \<Rightarrow> bytes list \<Rightarrow> nat \<Rightarrow> nat \<Rightarrow> bool" where
  root: "get_at p off = Some 0 \<Longrightarrow> name_at p off [] (off + 1) 0"
| label: "get_at p off = Some len \<Longrightarrow> 1 \<le> unat len \<Longrightarrow> unat len \<le> 63 \<Longrightarrow>
     get_range p (off + 1) (off + 1 + unat len) = Some l \<Longrightarrow>
     name_at p (off + 1 + unat len) ls nxt k \<Longrightarrow> name_at p off (l # ls) nxt k"
| pointer: "get_at p off = Some len \<Longrightarrow> len AND 0xc0 = 0xc0 \<Longrightarrow>
     get_at p (off + 1) = Some second \<Longrightarrow>
     ptr = push_bit 8 (unat (len AND 0x3f)) OR unat second \<Longrightarrow> ptr < off \<Longrightarrow>
     name_at p ptr ls nxt' k \<Longrightarrow> name_at p off ls (off + 2) (Suc k)"

definition wire_of_labels :: "bytes list \<Rightarrow> bytes" where
  "wire_of_labels ls = concat (map (\<lambda>l. of_nat (length l) # l) ls) @ [0]"

definition valid_labels :: "bytes list \<Rightarrow> bool" where
  "valid_labels ls \<longleftrightarrow> (\<forall>l \<in> set ls. 1 \<le> length l \<and> length l \<le> 63)"

definition dns_name_of :: "bytes list \<Rightarrow> dns_name" where
  "dns_name_of ls =
     \<lparr>name_text = name_of_labels_text (map display_label ls),
      canonical_wire = wire_of_labels (map (map u8_lower) ls)\<rparr>"

lemma wire_of_labels_Nil [simp]: "wire_of_labels [] = [0]"
  by (simp add: wire_of_labels_def)

lemma wire_of_labels_Cons [simp]:
  "wire_of_labels (l # ls) = of_nat (length l) # l @ wire_of_labels ls"
  by (simp add: wire_of_labels_def)

lemma length_wire_of_labels:
  "length (wire_of_labels ls) = Suc (sum_list (map (\<lambda>l. Suc (length l)) ls))"
  by (induction ls) auto

lemma length_wire_of_labels_lower [simp]:
  "length (wire_of_labels (map (map u8_lower) ls)) = length (wire_of_labels ls)"
  by (induction ls) auto

lemma length_wire_pos [simp]: "0 < length (wire_of_labels ls)"
  by (simp add: length_wire_of_labels)

lemma valid_labels_simps [simp]:
  "valid_labels []"
  "valid_labels (l # ls) \<longleftrightarrow> 1 \<le> length l \<and> length l \<le> 63 \<and> valid_labels ls"
  by (auto simp: valid_labels_def)

lemma valid_labels_lower [simp]: "valid_labels (map (map u8_lower) ls) = valid_labels ls"
  by (auto simp: valid_labels_def)

lemma name_at_valid: "name_at p off ls nxt k \<Longrightarrow> valid_labels ls"
  by (induction rule: name_at.induct) (auto dest: length_get_range)

lemma name_at_bounds: "name_at p off ls nxt k \<Longrightarrow> off < nxt \<and> nxt \<le> length p"
  by (induction rule: name_at.induct) (auto simp: get_at_Some)

text \<open>The two top bits separate labels from pointers.\<close>

lemma top_bits_label:
  "unat (len::u8) \<le> 63 \<longleftrightarrow> len AND 0xc0 = 0"
proof -
  have "unat len \<le> 63 \<longleftrightarrow> take_bit 6 (unat len) = unat len"
    by (auto simp: take_bit_nat_eq_self_iff)
  also have "\<dots> \<longleftrightarrow> take_bit 6 len = len"
    by (simp add: word_unat_eq_iff unsigned_take_bit_eq)
  also have "\<dots> \<longleftrightarrow> len AND NOT (mask 6) = 0"
    by (auto simp: bit_eq_iff bit_simps dest: bit_imp_le_length)
  also have "NOT (mask 6) = (0xc0 :: u8)"
    by (simp add: mask_eq_exp_minus_1)
  finally show ?thesis .
qed

lemma label_len_cases:
  fixes len :: u8
  assumes "len \<noteq> 0" and "len AND 0xc0 \<noteq> 0xc0"
  shows "(len AND 0xc0 \<noteq> 0 \<or> len > 63) \<longleftrightarrow> \<not> (1 \<le> unat len \<and> unat len \<le> 63)"
  using assms top_bits_label [of len]
  by (auto simp: word_less_nat_alt Suc_le_eq unat_gt_0)

lemma small_len_not_pointer: "unat (len::u8) \<le> 63 \<Longrightarrow> len AND 0xc0 \<noteq> 0xc0"
  by (simp add: top_bits_label)

end
