(* ===== verification/Wire_Names.thy ===== *)
theory Wire_Names
  imports Wire_Codec
begin

text \<open>
  Correctness of the name reader of \<open>src/src/wire/codec.rs\<close>: \<open>read_name\<close> implements the
  abstract relation \<open>name_at\<close> in both directions, its results are in bounds, and encoding
  followed by reading is the identity up to ASCII case.
\<close>

lemma name_at_off: "name_at p off ls nxt k \<Longrightarrow> off < length p"
  using name_at_bounds by fastforce

text \<open>Soundness of the loop: a result is the decoding of some label sequence.\<close>

lemma read_name_loop_sound:
  assumes "read_name_loop p cur nx j st ex labels canon = Inr (labels', canon', nx')"
    and "ex \<le> 255" and "st \<le> 128"
  shows "\<exists>ls nxt k. name_at p cur ls nxt k \<and> labels' = labels @ map display_label ls \<and>
    canon' = canon @ wire_of_labels (map (map u8_lower) ls) \<and>
    ex + length (wire_of_labels ls) \<le> 256 \<and> st + k \<le> 128 \<and> nx' = (if j then nx else nxt)"
  using assms
proof (induction p cur nx j st ex labels canon rule: read_name_loop.induct)
  case (1 p cur nx j st ex labels canon)
  from "1.prems"(1) obtain len where len: "get_at p cur = Some len"
    by (subst (asm) read_name_loop.simps) (auto split: option.splits)
  consider (root) "len = 0" | (ptr) "len \<noteq> 0" "len AND 0xc0 = 0xc0"
    | (lab) "len \<noteq> 0" "len AND 0xc0 \<noteq> 0xc0"
    by blast
  then show ?case
  proof cases
    case root
    with "1.prems" len have "labels' = labels" "canon' = canon @ [0]"
      "nx' = (if j then nx else cur + 1)"
      by (subst (asm) read_name_loop.simps; simp)+
    moreover from len root have "name_at p cur [] (cur + 1) 0"
      by (simp add: name_at.root del: One_nat_def)
    ultimately show ?thesis
      using "1.prems"(2,3) by (intro exI [of _ "[]"] exI [of _ "cur + 1"] exI [of _ 0]) simp
  next
    case ptr
    define pt where "pt snd' = (push_bit 8 (unat (len AND 0x3f)) OR unat snd' :: nat)" for snd' :: u8
    from "1.prems"(1) len ptr obtain snd' where snd': "get_at p (cur + 1) = Some snd'"
      and less: "pt snd' < cur" "pt snd' < length p" and st: "st + 1 \<le> 128"
      and rec: "read_name_loop p (pt snd') (if j then nx else cur + 2) True (st + 1) ex labels canon
        = Inr (labels', canon', nx')"
      by (subst (asm) read_name_loop.simps)
        (auto simp: Let_def pt_def split: option.splits if_splits)
    have "\<exists>ls nxt k. name_at p (pt snd') ls nxt k \<and> labels' = labels @ map display_label ls \<and>
        canon' = canon @ wire_of_labels (map (map u8_lower) ls) \<and>
        ex + length (wire_of_labels ls) \<le> 256 \<and> st + 1 + k \<le> 128 \<and>
        nx' = (if True then (if j then nx else cur + 2) else nxt)"
      by (rule "1.IH"(1) [OF len ptr snd' pt_def [of snd']])
        (use less st rec "1.prems"(2) in linarith | fact rec)+
    then obtain ls nxt k where *: "name_at p (pt snd') ls nxt k"
      "labels' = labels @ map display_label ls"
      "canon' = canon @ wire_of_labels (map (map u8_lower) ls)"
      "ex + length (wire_of_labels ls) \<le> 256" "st + Suc k \<le> 128"
      "nx' = (if j then nx else cur + 2)" by auto
    have "name_at p cur ls (cur + 2) (Suc k)"
      by (rule name_at.pointer [OF len ptr(2) snd' pt_def less(1) *(1)])
    with * show ?thesis by blast
  next
    case lab
    from "1.prems"(1) len lab have rng: "1 \<le> unat len \<and> unat len \<le> 63"
      using label_len_cases [OF lab]
      by (subst (asm) read_name_loop.simps) (auto split: if_splits)
    from lab rng have nbad: "\<not> (len AND 0xc0 \<noteq> 0 \<or> len > 63)"
      using label_len_cases by blast
    from "1.prems"(1) len lab nbad obtain l where
        ce: "checked_end (cur + 1) (unat len) = Inr (cur + 1 + unat len)"
      and l: "get_range p (cur + 1) (cur + 1 + unat len) = Some l"
      and ca: "checked_add_usize ex (unat len + 1) = Some (ex + (unat len + 1))"
      and ex: "ex + (unat len + 1) \<le> 255"
      and rec: "read_name_loop p (cur + 1 + unat len) (if j then nx else cur + 1 + unat len) j st
        (ex + (unat len + 1)) (labels @ [display_label l]) (canon @ len # map u8_lower l)
        = Inr (labels', canon', nx')"
      by (subst (asm) read_name_loop.simps)
        (auto simp: checked_end_Inr split: option.splits sum.splits if_splits)
    have "\<exists>ls nxt k. name_at p (cur + 1 + unat len) ls nxt k \<and>
        labels' = (labels @ [display_label l]) @ map display_label ls \<and>
        canon' = (canon @ len # map u8_lower l) @ wire_of_labels (map (map u8_lower) ls) \<and>
        ex + (unat len + 1) + length (wire_of_labels ls) \<le> 256 \<and> st + k \<le> 128 \<and>
        nx' = (if j then if j then nx else cur + 1 + unat len else nxt)"
      by (rule "1.IH"(2) [OF len lab nbad ce l ca _ rec]) (use ex "1.prems"(3) in auto)
    then obtain ls nxt k where *: "name_at p (cur + 1 + unat len) ls nxt k"
      "labels' = labels @ map display_label (l # ls)"
      "canon' = canon @ len # map u8_lower l @ wire_of_labels (map (map u8_lower) ls)"
      "ex + (unat len + 1) + length (wire_of_labels ls) \<le> 256" "st + k \<le> 128"
      "nx' = (if j then nx else nxt)" by auto
    have ll: "length l = unat len" using length_get_range [OF l] by simp
    have "name_at p cur (l # ls) nxt k"
      using name_at.label [OF len _ _ l *(1)] rng by blast
    with * ll show ?thesis
      by (intro exI [of _ "l # ls"] exI [of _ nxt] exI [of _ k]) auto
  qed
qed

text \<open>Completeness: every name within the limits of the loop is read.\<close>

lemma read_name_loop_complete:
  assumes "name_at p cur ls nxt k" and "st + k \<le> 128"
    and "ex + length (wire_of_labels ls) \<le> 256" and "length p < usize_limit"
  shows "read_name_loop p cur nx j st ex labels canon =
    Inr (labels @ map display_label ls, canon @ wire_of_labels (map (map u8_lower) ls),
         if j then nx else nxt)"
  using assms
proof (induction arbitrary: nx j st ex labels canon rule: name_at.induct)
  case (root p off)
  then show ?case by (subst read_name_loop.simps) simp
next
  case (label p off len l ls nxt k)
  have ne: "len \<noteq> 0" using label.hyps(2) by auto
  have np: "len AND 0xc0 \<noteq> 0xc0" using small_len_not_pointer label.hyps(3) by blast
  have nbad: "\<not> (len AND 0xc0 \<noteq> 0 \<or> len > 63)"
    using label_len_cases [OF ne np] label.hyps(2,3) by blast
  have ll: "length l = unat len" using length_get_range [OF label.hyps(4)] by simp
  have le: "off + 1 + unat len \<le> length p" using label.hyps(4) by (simp add: get_range_Some)
  have ex: "ex + (unat len + 1) + length (wire_of_labels ls) \<le> 256"
    using label.prems(2) ll by simp
  have ex': "ex + (unat len + 1) \<le> 255"
    using ex length_wire_pos [of ls] by linarith
  then have lim: "ex + (unat len + 1) < usize_limit"
    by (simp add: usize_limit_def)
  have off: "off + 1 + unat len < usize_limit"
    using le label.prems(3) by simp
  show ?case
    using label.IH [OF label.prems(1) ex label.prems(3)] ne np nbad ll off lim ex'
    by (subst read_name_loop.simps)
      (simp add: label.hyps checked_end_def checked_add_usize_def del: One_nat_def)
next
  case (pointer p off len second ptr ls nxt' k)
  have ne: "len \<noteq> 0" using pointer.hyps(2) by auto
  have "ptr < length p" using name_at_off [OF pointer.hyps(6)] .
  then show ?case
    using pointer.IH [of "st + 1" ex] pointer.prems pointer.hyps ne
    by (subst read_name_loop.simps) (simp add: Let_def)
qed

lemma read_name_iff:
  assumes "length p < usize_limit"
  shows "read_name p off = Inr (n, nxt) \<longleftrightarrow>
    (\<exists>ls k. name_at p off ls nxt k \<and> k \<le> 128 \<and> length (wire_of_labels ls) \<le> 255 \<and>
            n = dns_name_of ls)"
proof
  assume "read_name p off = Inr (n, nxt)"
  then obtain labels canon where loop:
      "read_name_loop p off off False 0 1 [] [] = Inr (labels, canon, nxt)"
    and n: "n = \<lparr>name_text = name_of_labels_text labels, canonical_wire = canon\<rparr>"
    by (auto simp: read_name_def result_simps split: if_splits)
  from read_name_loop_sound [OF loop] n
  show "\<exists>ls k. name_at p off ls nxt k \<and> k \<le> 128 \<and> length (wire_of_labels ls) \<le> 255 \<and>
      n = dns_name_of ls"
    by (auto simp: dns_name_of_def)
next
  assume "\<exists>ls k. name_at p off ls nxt k \<and> k \<le> 128 \<and> length (wire_of_labels ls) \<le> 255 \<and>
      n = dns_name_of ls"
  then obtain ls k where *: "name_at p off ls nxt k" "k \<le> 128"
    "length (wire_of_labels ls) \<le> 255" "n = dns_name_of ls" by blast
  then have "read_name_loop p off off False 0 1 [] [] =
      Inr (map display_label ls, wire_of_labels (map (map u8_lower) ls), nxt)"
    using read_name_loop_complete [OF *(1), of 0 1 off False "[]" "[]"] assms by simp
  with *(4) name_at_off [OF *(1)] show "read_name p off = Inr (n, nxt)"
    by (simp add: read_name_def dns_name_of_def)
qed

text \<open>The soundness half needs no bound on the packet.\<close>

lemma read_name_sound:
  assumes "read_name p off = Inr (n, nxt)"
  obtains ls k where "name_at p off ls nxt k" and "k \<le> 128"
    and "length (wire_of_labels ls) \<le> 255" and "n = dns_name_of ls" and "valid_labels ls"
proof -
  from assms obtain labels canon where loop:
      "read_name_loop p off off False 0 1 [] [] = Inr (labels, canon, nxt)"
    and n: "n = \<lparr>name_text = name_of_labels_text labels, canonical_wire = canon\<rparr>"
    by (auto simp: read_name_def result_simps split: if_splits)
  from read_name_loop_sound [OF loop] n that show ?thesis
    by (auto simp: dns_name_of_def intro: name_at_valid)
qed

lemma read_name_bounds:
  "read_name p off = Inr (n, nxt) \<Longrightarrow> off < nxt \<and> nxt \<le> length p"
  by (metis name_at_bounds read_name_sound)

lemma length_canonical_wire:
  "read_name p off = Inr (n, nxt) \<Longrightarrow> length (canonical_wire n) \<le> 255"
  by (erule read_name_sound) (simp add: dns_name_of_def)

section \<open>Names as written by the encoder\<close>

lemma unat_label_length: "length l \<le> 63 \<Longrightarrow> unat (of_nat (length l) :: u8) = length l"
  by (simp add: unat_of_nat)

lemma name_at_wire_of_labels:
  assumes "valid_labels ls"
  shows "name_at (pre @ wire_of_labels ls @ post) (length pre) ls
    (length pre + length (wire_of_labels ls)) 0"
  using assms
proof (induction ls arbitrary: pre)
  case Nil
  have "name_at (pre @ 0 # post) (length pre) [] (length pre + 1) 0"
    by (rule name_at.root) simp
  then show ?case by simp
next
  case (Cons l ls)
  let ?p = "pre @ wire_of_labels (l # ls) @ post"
  let ?len = "of_nat (length l) :: u8"
  have len: "unat ?len = length l" using Cons.prems by (simp add: unat_label_length)
  have "name_at ((pre @ ?len # l) @ wire_of_labels ls @ post) (length (pre @ ?len # l)) ls
      (length (pre @ ?len # l) + length (wire_of_labels ls)) 0"
    using Cons.prems by (intro Cons.IH) simp
  then have rest: "name_at ?p (length pre + 1 + unat ?len) ls
      (length pre + length (wire_of_labels (l # ls))) 0"
    by (simp add: len add.assoc)
  show ?case
  proof (rule name_at.label [OF _ _ _ _ rest])
    show "get_at ?p (length pre) = Some ?len" by simp
    show "1 \<le> unat ?len" and "unat ?len \<le> 63" using Cons.prems len by auto
    show "get_range ?p (length pre + 1) (length pre + 1 + unat ?len) = Some l"
      by (simp add: get_range_def len)
  qed
qed

lemma read_name_wire_of_labels:
  assumes "valid_labels ls" and "length (wire_of_labels ls) \<le> 255"
    and "length (pre @ wire_of_labels ls @ post) < usize_limit"
  shows "read_name (pre @ wire_of_labels ls @ post) (length pre) =
    Inr (dns_name_of ls, length pre + length (wire_of_labels ls))"
  using read_name_iff [OF assms(3)] name_at_wire_of_labels [OF assms(1)] assms(2) by blast

lemma encode_labels_eq:
  "encode_labels name labels out =
    (if \<exists>l \<in> set labels. l = [] \<or> length l > 63 then Inl (InvalidName name)
     else Inr (out @ butlast (wire_of_labels (map as_bytes labels))))"
  by (induction labels arbitrary: out) (auto simp: wire_of_labels_def butlast_append)

definition presentation_labels :: "string \<Rightarrow> bytes list" where
  "presentation_labels name =
     (let stripped = (case strip_suffix ''.'' name of None \<Rightarrow> name | Some s \<Rightarrow> s) in
      if stripped = [] then [] else map as_bytes (split_on (CHR ''.'') stripped))"

lemma encode_name_Inr:
  assumes "encode_name name = Inr w"
  shows "w = wire_of_labels (presentation_labels name)"
    and "valid_labels (presentation_labels name)" and "length w \<le> 255"
proof -
  let ?s = "case strip_suffix ''.'' name of None \<Rightarrow> name | Some s \<Rightarrow> s"
  have "w = wire_of_labels (presentation_labels name) \<and> valid_labels (presentation_labels name) \<and>
      length w \<le> 255"
  proof (cases "?s = []")
    case True
    with assms show ?thesis
      by (auto simp: encode_name_def presentation_labels_def Let_def)
  next
    case False
    let ?ls = "split_on (CHR ''.'') ?s"
    from assms False have ok: "\<not> (\<exists>l \<in> set ?ls. l = [] \<or> length l > 63)"
      and w: "w = butlast (wire_of_labels (map as_bytes ?ls)) @ [0]" "length w \<le> 255"
      by (auto simp: encode_name_def Let_def encode_labels_eq result_simps split: if_splits)
    moreover have "butlast (wire_of_labels ls) @ [0] = wire_of_labels ls" for ls
      by (simp add: wire_of_labels_def)
    ultimately show ?thesis
      using False by (auto simp: presentation_labels_def Let_def valid_labels_def Suc_le_eq)
  qed
  then show "w = wire_of_labels (presentation_labels name)"
    and "valid_labels (presentation_labels name)" and "length w \<le> 255" by blast+
qed

lemma read_encoded_name:
  assumes "encode_name name = Inr w" and "length (pre @ w @ post) < usize_limit"
  shows "read_name (pre @ w @ post) (length pre) =
    Inr (dns_name_of (presentation_labels name), length pre + length w)"
  using read_name_wire_of_labels [of "presentation_labels name" pre post]
    encode_name_Inr [OF assms(1)] assms(2) by simp

text \<open>On the presentation side: a name of plain characters reads back as it was written.\<close>

lemma display_label_plain:
  "list_all (\<lambda>c. is_plain_byte (byte_of_char c)) l \<Longrightarrow> display_label (as_bytes l) = l"
  by (induction l) auto

lemma name_text_presentation:
  assumes "stripped \<noteq> []" and "strip_suffix ''.'' stripped = None"
    and "list_all (\<lambda>c. c = CHR ''.'' \<or> is_plain_byte (byte_of_char c)) stripped"
  shows "name_text (dns_name_of (presentation_labels stripped)) = stripped"
proof -
  let ?ls = "split_on (CHR ''.'') stripped"
  have plain: "display_label (as_bytes l) = l" if "l \<in> set ?ls" for l
  proof (rule display_label_plain)
    have "set l \<subseteq> set stripped" and "CHR ''.'' \<notin> set l"
      using that set_split_on split_on_parts_notin by fastforce+
    then show "list_all (\<lambda>c. is_plain_byte (byte_of_char c)) l"
      using assms(3) unfolding list_all_iff by fastforce
  qed
  then have "map display_label (map as_bytes ?ls) = ?ls"
    by (simp add: map_idI)
  with assms(1,2) show ?thesis
    by (simp add: dns_name_of_def presentation_labels_def name_of_labels_text_def del: map_map)
qed

section \<open>Appending bytes keeps what was readable\<close>

lemma name_at_append: "name_at p off ls nxt k \<Longrightarrow> name_at (p @ q) off ls nxt k"
proof (induction rule: name_at.induct)
  case (root p off)
  then show ?case by (intro name_at.root) (simp add: get_at_Some get_at_prefix)
next
  case (label p off len l ls nxt k)
  then show ?case
    by (intro name_at.label [where len = len]) (auto simp: get_at_Some get_range_Some nth_append)
next
  case (pointer p off len second ptr ls nxt' k)
  then show ?case
    by (intro name_at.pointer [where len = len and second = second])
      (auto simp: get_at_Some nth_append)
qed

lemma read_name_append:
  assumes "read_name p off = Inr (n, nxt)" and "length (p @ q) < usize_limit"
  shows "read_name (p @ q) off = Inr (n, nxt)"
  using assms read_name_iff [OF assms(2)] read_name_sound name_at_append by metis

lemma read_u16_append_right:
  "read_u16 p i = Inr v \<Longrightarrow> read_u16 (p @ q) i = Inr v"
  by (auto simp: read_u16_Inr nth_append)

lemma read_u32_append_right:
  "read_u32 p i = Inr v \<Longrightarrow> read_u32 (p @ q) i = Inr v"
  by (auto simp: read_u32_Inr nth_append)

lemma parse_question_append:
  "parse_question p off = Inr x \<Longrightarrow> length (p @ q) < usize_limit \<Longrightarrow>
   parse_question (p @ q) off = Inr x"
  by (auto simp: parse_question_def rbind_eq_Inr read_name_append read_u16_append_right)

lemma parse_record_append:
  "parse_record p off = Inr x \<Longrightarrow> length (p @ q) < usize_limit \<Longrightarrow>
   parse_record (p @ q) off = Inr x"
  by (auto simp: parse_record_def rbind_eq_Inr ok_or_eq_Inr get_range_Some
      read_name_append read_u16_append_right read_u32_append_right)

section \<open>Questions and records stay inside the packet\<close>

lemma parse_question_bounds:
  "parse_question p off = Inr x \<Longrightarrow> off + 5 \<le> q_next_offset x \<and> q_next_offset x \<le> length p"
  by (auto simp: parse_question_def result_simps dest!: read_name_bounds)

lemma parse_record_bounds:
  assumes "parse_record p off = Inr x"
  shows "off + 11 \<le> rr_next_offset x \<and> rr_next_offset x \<le> length p \<and>
    off < rr_ttl_offset x \<and> rr_ttl_offset x + 6 = rr_rdata_offset x \<and>
    rr_rdata_offset x + length (rr_rdata x) = rr_next_offset x \<and>
    get_range p (rr_rdata_offset x) (rr_next_offset x) = Some (rr_rdata x)"
  using assms
  by (auto simp: parse_record_def result_simps get_range_Some dest!: read_name_bounds)

lemma parse_record_ttl:
  "parse_record p off = Inr x \<Longrightarrow> read_u32 p (rr_ttl_offset x) = Inr (rr_ttl x)"
  by (auto simp: parse_record_def rbind_eq_Inr)

text \<open>
  The interface between the item parsers and the counted loops over them: a successful
  parse moves forward and stays inside the packet.
\<close>

locale item_parser =
  fixes parse :: "bytes \<Rightarrow> nat \<Rightarrow> wire_error + 'a" and next_of :: "'a \<Rightarrow> nat" and min_size :: nat
  assumes progress: "parse p off = Inr x \<Longrightarrow> off + min_size \<le> next_of x"
    and in_bounds: "parse p off = Inr x \<Longrightarrow> next_of x \<le> length p"
    and extend: "parse p off = Inr x \<Longrightarrow> length (p @ q) < usize_limit \<Longrightarrow> parse (p @ q) off = Inr x"
begin

lemma parse_many_length: "parse_many parse next_of n p off = Inr (xs, end) \<Longrightarrow> length xs = n"
  by (induction n arbitrary: off xs) (auto simp: result_simps)

lemma parse_many_progress:
  "parse_many parse next_of n p off = Inr (xs, end) \<Longrightarrow> off + n * min_size \<le> end"
  by (induction n arbitrary: off xs) (fastforce simp: result_simps dest: progress)+

lemma parse_many_in_bounds:
  "parse_many parse next_of n p off = Inr (xs, end) \<Longrightarrow> off \<le> length p \<Longrightarrow> end \<le> length p"
  by (induction n arbitrary: off xs) (auto simp: result_simps dest: in_bounds)

lemma parse_many_count_bound:
  "parse_many parse next_of n p off = Inr (xs, end) \<Longrightarrow> off \<le> length p \<Longrightarrow>
   length xs * min_size \<le> length p - off"
  using parse_many_length parse_many_progress parse_many_in_bounds by fastforce

lemma parse_many_extend:
  "parse_many parse next_of n p off = Inr (xs, end) \<Longrightarrow> length (p @ q) < usize_limit \<Longrightarrow>
   parse_many parse next_of n (p @ q) off = Inr (xs, end)"
  by (induction n arbitrary: off xs) (auto simp: result_simps intro!: extend)

lemma parse_many_add:
  "parse_many parse next_of m p off = Inr (xs, mid) \<Longrightarrow>
   parse_many parse next_of (m + n) p off =
     rbind (parse_many parse next_of n p mid) (\<lambda>(ys, end). Inr (xs @ ys, end))"
proof (induction m arbitrary: off xs)
  case 0
  then show ?case by (cases "parse_many parse next_of n p mid") auto
next
  case (Suc m)
  from Suc.prems obtain x ys where x: "parse p off = Inr x"
    and ys: "parse_many parse next_of m p (next_of x) = Inr (ys, mid)" "xs = x # ys"
    by (auto simp: result_simps)
  show ?case
    using x ys Suc.IH [OF ys(1)] by (cases "parse_many parse next_of n p mid") auto
qed

lemma parse_many_items:
  "parse_many parse next_of n p off = Inr (xs, end) \<Longrightarrow> x \<in> set xs \<Longrightarrow>
   \<exists>o'. off \<le> o' \<and> parse p o' = Inr x \<and> next_of x \<le> end"
proof (induction n arbitrary: off xs)
  case 0
  then show ?case by simp
next
  case (Suc n)
  from Suc.prems(1) obtain y ys where y: "parse p off = Inr y"
    and ys: "parse_many parse next_of n p (next_of y) = Inr (ys, end)" "xs = y # ys"
    by (auto simp: result_simps)
  show ?case
  proof (cases "x = y")
    case True
    with y ys parse_many_progress [OF ys(1)] show ?thesis by force
  next
    case False
    with Suc.prems(2) ys have "x \<in> set ys" by simp
    with Suc.IH [OF ys(1)] obtain o' where "next_of y \<le> o'" "parse p o' = Inr x" "next_of x \<le> end"
      by blast
    with progress [OF y] show ?thesis by (intro exI [of _ o']) auto
  qed
qed

end

interpretation questions: item_parser parse_question q_next_offset 5
  using parse_question_bounds parse_question_append by unfold_locales blast+

interpretation records: item_parser parse_record rr_next_offset 11
  using parse_record_bounds parse_record_append by unfold_locales blast+

section \<open>Properties of the name codec\<close>

text \<open>
  C1: \<open>read_name\<close> implements the abstract notion of a name in a packet, in both directions. It
  returns a name exactly when some label sequence is encoded at the offset with at most 128
  pointers, all of them backwards, and at most 255 octets; the result is that sequence's
  text and lower-case canonical wire form, and the offset after the encoding in place. In
  particular the loop ends on every packet, however its pointers are arranged.
\<close>

theorem read_name_refines_name_at:
  assumes "length p < usize_limit"
  shows "read_name p off = Inr (n, nxt) \<longleftrightarrow>
    (\<exists>ls k. name_at p off ls nxt k \<and> k \<le> 128 \<and> length (wire_of_labels ls) \<le> 255 \<and>
            n = dns_name_of ls)"
  using assms by (rule read_name_iff)

theorem read_name_refines_name_at_witness:
  "\<exists>ls k. name_at [1, 65, 0, 0xc0, 0] 3 ls 5 k \<and> k \<le> 128 \<and> canonical_wire (dns_name_of ls) = [1, 97, 0]"
proof -
  have "case read_name [1, 65, 0, 0xc0, 0] 3 of
      Inr (n, nxt) \<Rightarrow> nxt = 5 \<and> canonical_wire n = [1, 97, 0] | _ \<Rightarrow> False"
    by code_simp
  then obtain n where "read_name [1, 65, 0, 0xc0, 0] 3 = Inr (n, 5)" "canonical_wire n = [1, 97, 0]"
    by (auto split: sum.splits)
  with read_name_refines_name_at [of "[1, 65, 0, 0xc0, 0]" 3 n 5] show ?thesis
    by (auto simp: usize_limit_def)
qed

text \<open>
  C2: decoding inverts encoding. Wherever an encoded name is placed in a packet, \<open>read_name\<close>
  returns its labels and the offset right after it; for a name made of letters, digits,
  hyphens and underscores the text read back is the text that was encoded, without the
  trailing dot.
\<close>

theorem read_name_encode_name:
  assumes "encode_name name = Inr w" and "length (pre @ w @ post) < usize_limit"
  shows "\<exists>n. read_name (pre @ w @ post) (length pre) = Inr (n, length pre + length w) \<and>
    n = dns_name_of (presentation_labels name) \<and>
    (name \<noteq> [] \<and> strip_suffix ''.'' name = None \<and>
     list_all (\<lambda>c. c = CHR ''.'' \<or> is_plain_byte (byte_of_char c)) name \<longrightarrow> name_text n = name)"
  using read_encoded_name [OF assms] name_text_presentation [of name] by simp

theorem read_name_encode_name_witness:
  "\<exists>w n. encode_name ''a-1.bc'' = Inr w \<and> read_name ([9, 9] @ w @ [7]) 2 = Inr (n, 2 + length w) \<and>
     name_text n = ''a-1.bc''"
proof -
  have "case encode_name ''a-1.bc'' of Inr w \<Rightarrow> length w = 8 | _ \<Rightarrow> False" by code_simp
  then obtain w where w: "encode_name ''a-1.bc'' = Inr w" "length w = 8"
    by (auto split: sum.splits)
  have "strip_suffix ''.'' ''a-1.bc'' = None" by code_simp
  moreover have "list_all (\<lambda>c. c = CHR ''.'' \<or> is_plain_byte (byte_of_char c)) ''a-1.bc''" by code_simp
  moreover have two: "length [9 :: u8, 9] = 2" by simp
  ultimately show ?thesis
    using read_name_encode_name [OF w(1), of "[9, 9]" "[7]", unfolded two] w
    by (auto simp: usize_limit_def)
qed

end
