(* ===== verification/Net_Types.thy ===== *)
theory Net_Types
  imports Resolved_Prelude
begin

text \<open>
  The address types of \<open>std::net\<close> that the sources use: an IPv4 address is a 32-bit word, an
  IPv6 address a 128-bit word, both read big-endian by \<open>octets\<close>, and a socket address carries
  port, flow label and scope as in Rust.
\<close>

type_synonym ipv4 = "32 word"
type_synonym ipv6 = "128 word"

datatype ip_addr = V4 ipv4 | V6 ipv6

datatype socket_addr = SocketV4 ipv4 u16 | SocketV6 ipv6 u16 u32 u32

fun sock_ip :: "socket_addr \<Rightarrow> ip_addr" where
  "sock_ip (SocketV4 a p) = V4 a"
| "sock_ip (SocketV6 a p f s) = V6 a"

fun sock_port :: "socket_addr \<Rightarrow> u16" where
  "sock_port (SocketV4 a p) = p"
| "sock_port (SocketV6 a p f s) = p"

definition socket_new :: "ip_addr \<Rightarrow> u16 \<Rightarrow> socket_addr" where
  "socket_new ip port = (case ip of V4 a \<Rightarrow> SocketV4 a port | V6 a \<Rightarrow> SocketV6 a port 0 0)"

definition ipv4_new :: "u8 \<Rightarrow> u8 \<Rightarrow> u8 \<Rightarrow> u8 \<Rightarrow> ipv4" where
  "ipv4_new a b c d = u32_from_be a b c d"

definition v4_octets :: "ipv4 \<Rightarrow> bytes" where
  "v4_octets a = u32_to_be a"

definition v6_octets :: "ipv6 \<Rightarrow> bytes" where
  "v6_octets a = map (\<lambda>i. ucast (drop_bit (8 * (15 - i)) a)) [0..<16]"

definition v6_from_octets :: "bytes \<Rightarrow> ipv6" where
  "v6_from_octets bs = fold (\<lambda>b acc. push_bit 8 acc OR ucast b) bs 0"

definition v6_segment0 :: "ipv6 \<Rightarrow> u16" where
  "v6_segment0 a = ucast (drop_bit 112 a)"

definition V4_LOCALHOST :: ipv4 where
  "V4_LOCALHOST = ipv4_new 127 0 0 1"

definition V6_LOCALHOST :: ipv6 where
  "V6_LOCALHOST = 1"

definition ip_is_loopback :: "ip_addr \<Rightarrow> bool" where
  "ip_is_loopback ip = (case ip of V4 a \<Rightarrow> v4_octets a ! 0 = 127 | V6 a \<Rightarrow> a = 1)"

lemma length_v4_octets [simp]: "length (v4_octets a) = 4"
  by (simp add: v4_octets_def)

lemma length_v6_octets [simp]: "length (v6_octets a) = 16"
  by (simp add: v6_octets_def)

lemma v4_octets_new [simp]: "v4_octets (ipv4_new a b c d) = [a, b, c, d]"
  by (simp add: v4_octets_def ipv4_new_def u32_to_from_be)

lemma v4_octets_inject [simp]: "v4_octets a = v4_octets b \<longleftrightarrow> a = b"
  by (simp add: v4_octets_def u32_codec.enc_inject)

lemma ipv4_new_octets: "v4_octets a = [w, x, y, z] \<Longrightarrow> ipv4_new w x y z = a"
  by (metis v4_octets_new v4_octets_inject)

lemma sock_ip_new [simp]: "sock_ip (socket_new ip port) = ip"
  by (cases ip) (simp_all add: socket_new_def)

lemma sock_port_new [simp]: "sock_port (socket_new ip port) = port"
  by (cases ip) (simp_all add: socket_new_def)

text \<open>The sixteen octets determine the address and conversely.\<close>

lemma bit_fold_octets:
  "bit (fold (\<lambda>b acc. push_bit 8 acc OR ucast b) (bs :: bytes) (acc :: ipv6)) n \<longleftrightarrow> n < 128 \<and>
    (if n < 8 * length bs then bit (bs ! (length bs - 1 - n div 8)) (n mod 8)
     else bit acc (n - 8 * length bs))"
proof (induction bs arbitrary: acc)
  case Nil
  then show ?case using bit_imp_le_length [of acc n] by auto
next
  case (Cons b bs)
  show ?case
  proof (cases "n < 128")
    case n: True
    consider "n < 8 * length bs" | "8 * length bs \<le> n" "n < 8 * length bs + 8"
      | "8 * length bs + 8 \<le> n" by linarith
    then show ?thesis
    proof cases
      case 1
      then have "n div 8 < length bs" by auto
      with 1 n show ?thesis by (simp add: Cons.IH nth_Cons')
    next
      case 2
      then obtain m where m: "n = 8 * length bs + m" "m < 8"
        by (metis add_less_cancel_left le_Suc_ex)
      then have "n div 8 = length bs" "n mod 8 = m" "n - 8 * length bs = m" "m < 128"
        by auto
      with 2 n m(2) show ?thesis
        by (simp add: Cons.IH bit_or_iff bit_push_bit_iff bit_unsigned_iff)
    next
      case 3
      then have "8 \<le> n - 8 * length bs" by simp
      then have "\<not> bit b (n - 8 * length bs)" by simp
      moreover from 3 n have "n - 8 * length bs < 128" by linarith
      ultimately show ?thesis
        using n 3 by (simp add: Cons.IH bit_or_iff bit_push_bit_iff bit_unsigned_iff
          le_diff_conv2 add.commute)
    qed
  qed (simp add: Cons.IH)
qed

lemma bit_v6_octets:
  "i < 16 \<Longrightarrow> bit (v6_octets a ! i) n \<longleftrightarrow> n < 8 \<and> bit a (8 * (15 - i) + n)"
  by (cases "n < 8") (simp_all add: v6_octets_def bit_simps)

lemma v6_from_octets_octets [simp]: "v6_from_octets (v6_octets a) = a"
proof (rule bit_word_eqI)
  fix n assume "n < LENGTH(128)"
  then have n: "n < 128" "n div 8 < 16" by auto
  have "8 * (15 - (15 - n div 8)) + n mod 8 = n"
    using n by simp
  with n show "bit (v6_from_octets (v6_octets a)) n = bit a n"
    by (simp add: v6_from_octets_def bit_fold_octets bit_v6_octets)
qed

lemma v6_octets_from_octets [simp]:
  assumes "length bs = 16"
  shows "v6_octets (v6_from_octets bs) = bs"
proof (rule nth_equalityI)
  show "length (v6_octets (v6_from_octets bs)) = length bs" using assms by simp
  fix i assume "i < length (v6_octets (v6_from_octets bs))"
  then have i: "i < 16" by simp
  show "v6_octets (v6_from_octets bs) ! i = bs ! i"
  proof (rule bit_word_eqI)
    fix n assume "n < LENGTH(8)"
    then have n: "n < 8" by simp
    have "(8 * (15 - i) + n) div 8 = 15 - i" and "(8 * (15 - i) + n) mod 8 = n"
      using n by auto
    with i n assms show "bit (v6_octets (v6_from_octets bs) ! i) n = bit (bs ! i) n"
      by (simp add: bit_v6_octets v6_from_octets_def bit_fold_octets)
  qed
qed

interpretation v6_codec: fixed_codec v6_octets v6_from_octets 16
  by unfold_locales simp_all

interpretation v4_codec: fixed_codec v4_octets u32_of_slice 4
  by unfold_locales (simp_all add: v4_octets_def be_simps)

lemmas v6_octets_inject [simp] = v6_codec.enc_inject

instantiation ip_addr :: linorder
begin

fun less_eq_ip_addr :: "ip_addr \<Rightarrow> ip_addr \<Rightarrow> bool" where
  "less_eq_ip_addr (V4 a) (V4 b) = (a \<le> b)"
| "less_eq_ip_addr (V4 a) (V6 b) = True"
| "less_eq_ip_addr (V6 a) (V4 b) = False"
| "less_eq_ip_addr (V6 a) (V6 b) = (a \<le> b)"

definition less_ip_addr :: "ip_addr \<Rightarrow> ip_addr \<Rightarrow> bool" where
  "less_ip_addr a b \<longleftrightarrow> a \<le> b \<and> \<not> b \<le> (a :: ip_addr)"

instance
proof
  fix x y z :: ip_addr
  show "x < y \<longleftrightarrow> x \<le> y \<and> \<not> y \<le> x" by (simp add: less_ip_addr_def)
  show "x \<le> x" by (cases x) simp_all
  show "x \<le> y \<Longrightarrow> y \<le> z \<Longrightarrow> x \<le> z" by (cases x; cases y; cases z) simp_all
  show "x \<le> y \<Longrightarrow> y \<le> x \<Longrightarrow> x = y" by (cases x; cases y) simp_all
  show "x \<le> y \<or> y \<le> x" by (cases x; cases y) auto
qed

end

end
