(* ===== verification/Wire_Packet.thy ===== *)
theory Wire_Packet
  imports Wire_Names Net_Types
begin

text \<open>
  Whole packets: \<open>src/src/wire/packet.rs\<close> and \<open>src/src/wire/error_response.rs\<close>. Queries are
  built and validated, local answers and error responses are derived from a query, and the
  cache's two needs are served: the lifetime of a response and the ageing of its TTLs.
  Mutation of a packet in place is a function that returns the new packet.
\<close>

section \<open>Definitions\<close>

definition validate :: "bytes \<Rightarrow> bool \<Rightarrow> wire_error + unit" where
  "validate packet expect_response =
     rbind (parse_sections packet) (\<lambda>(header, questions, _, end).
       if is_response header \<noteq> expect_response then Inl WrongDirection
       else if opcode header \<noteq> 0 then Inl (UnsupportedOpcode (opcode header))
       else if questions = [] then Inl NoQuestion
       else if \<not> expect_response \<and> question_count header \<noteq> 1
         then Inl (WrongQuestionCount (question_count header))
       else if end \<noteq> length packet then Inl TrailingData
       else Inr ())"

definition first_question :: "bytes \<Rightarrow> wire_error + question" where
  "first_question packet =
     rbind (header_parse packet) (\<lambda>header.
       if question_count header = 0 then Inl NoQuestion
       else parse_question packet DNS_HEADER_LEN)"

fun skip_questions :: "nat \<Rightarrow> bytes \<Rightarrow> nat \<Rightarrow> wire_error + nat" where
  "skip_questions 0 packet offset = Inr offset"
| "skip_questions (Suc n) packet offset =
     rbind (parse_question packet offset) (\<lambda>q. skip_questions n packet (q_next_offset q))"

definition question_end :: "bytes \<Rightarrow> wire_error + nat" where
  "question_end packet =
     rbind (header_parse packet) (\<lambda>header.
       if question_count header = 0 then Inl NoQuestion
       else skip_questions (unat (question_count header)) packet DNS_HEADER_LEN)"

definition response_matches :: "bytes \<Rightarrow> bytes \<Rightarrow> wire_error + unit" where
  "response_matches query response =
     rbind (validate query False) (\<lambda>_.
     rbind (validate response True) (\<lambda>_.
     rbind (header_parse query) (\<lambda>qh.
     rbind (header_parse response) (\<lambda>rh.
       if h_id qh \<noteq> h_id rh then Inl QuestionMismatch
       else
         rbind (first_question query) (\<lambda>qq.
         rbind (first_question response) (\<lambda>rq.
           if canonical_wire (q_name qq) \<noteq> canonical_wire (q_name rq)
              \<or> q_type qq \<noteq> q_type rq \<or> q_class qq \<noteq> q_class rq
           then Inl QuestionMismatch else Inr ()))))))"

definition make_query_with_class :: "string \<Rightarrow> u16 \<Rightarrow> u16 \<Rightarrow> u16 \<Rightarrow> wire_error + bytes" where
  "make_query_with_class name qtype qclass qid =
     rbind (encode_name name) (\<lambda>encoded_name.
       Inr (u16_to_be qid @ u16_to_be FLAG_RD @ u16_to_be 1 @ replicate 6 0 @
            encoded_name @ u16_to_be qtype @ u16_to_be qclass))"

definition make_query :: "string \<Rightarrow> u16 \<Rightarrow> u16 \<Rightarrow> wire_error + bytes" where
  "make_query name qtype qid = make_query_with_class name qtype CLASS_IN qid"

definition rewrite_id :: "bytes \<Rightarrow> u16 \<Rightarrow> wire_error + bytes" where
  "rewrite_id packet qid = write_u16 packet 0 qid"

definition servfail_for :: "bytes \<Rightarrow> wire_error + bytes" where
  "servfail_for query =
     rbind (validate query False) (\<lambda>_.
     rbind (question_end query) (\<lambda>end.
     let response = take end query in
     rbind (read_u16 response 2) (\<lambda>flags.
     let flags = flags OR (FLAG_QR OR FLAG_RA);
         flags = flags AND NOT (FLAG_AA OR FLAG_TC OR RCODE_MASK);
         flags = flags OR 2 in
     rbind (write_u16 response 2 flags) (\<lambda>response.
     Inr (put_at response 6 (replicate 6 0))))))"

definition refused_for :: "bytes \<Rightarrow> wire_error + bytes" where
  "refused_for query =
     rbind (validate query False) (\<lambda>_.
     rbind (question_end query) (\<lambda>end.
     let response = take end query in
     rbind (read_u16 response 2) (\<lambda>flags.
     let flags = flags OR (FLAG_QR OR FLAG_RA);
         flags = flags AND NOT (FLAG_AA OR FLAG_TC OR RCODE_MASK);
         flags = flags OR 5 in
     rbind (write_u16 response 2 flags) (\<lambda>response.
     Inr (put_at response 6 (replicate 6 0))))))"

datatype local_record = LocalA ipv4 | LocalAaaa ipv6 | LocalPtr string

fun local_rr_type :: "local_record \<Rightarrow> u16" where
  "local_rr_type (LocalA _) = TYPE_A"
| "local_rr_type (LocalAaaa _) = TYPE_AAAA"
| "local_rr_type (LocalPtr _) = TYPE_PTR"

fun local_rdata :: "local_record \<Rightarrow> wire_error + bytes" where
  "local_rdata (LocalA address) = Inr (v4_octets address)"
| "local_rdata (LocalAaaa address) = Inr (v6_octets address)"
| "local_rdata (LocalPtr name) = encode_name name"

fun append_local_records ::
  "u16 \<Rightarrow> u32 \<Rightarrow> local_record list \<Rightarrow> bytes \<Rightarrow> wire_error + bytes" where
  "append_local_records qtype ttl [] response = Inr response"
| "append_local_records qtype ttl (r # rs) response =
     (if local_rr_type r \<noteq> qtype \<and> qtype \<noteq> 255
      then append_local_records qtype ttl rs response
      else
        rbind (local_rdata r) (\<lambda>rdata.
        rbind (ok_or (try_from_nat (length rdata)) ResponseTooLarge) (\<lambda>len.
        let response = response @ [0xc0, 0x0c] @ u16_to_be (local_rr_type r) @
              u16_to_be CLASS_IN @ u32_to_be ttl @ u16_to_be len @ rdata in
        if exceeds_u16_max (length response) then Inl ResponseTooLarge
        else append_local_records qtype ttl rs response)))"

function count_records_after_question :: "bytes \<Rightarrow> nat \<Rightarrow> u16 \<Rightarrow> wire_error + u16" where
  "count_records_after_question packet offset count =
     (if offset < length packet then
        rbind (parse_record packet offset) (\<lambda>r.
        rbind (ok_or (checked_add_w count 1) ResponseTooLarge) (\<lambda>count.
        count_records_after_question packet (rr_next_offset r) count))
      else Inr count)"
  by pat_completeness auto
termination
  by (relation "measure (\<lambda>(packet, offset, _). length packet - offset)")
     (auto dest!: parse_record_bounds)

declare count_records_after_question.simps [simp del]

definition local_response :: "bytes \<Rightarrow> local_record list \<Rightarrow> u32 \<Rightarrow> wire_error + bytes" where
  "local_response query records ttl =
     rbind (validate query False) (\<lambda>_.
     rbind (first_question query) (\<lambda>question.
     rbind (question_end query) (\<lambda>end.
     let response = take end query in
     rbind (read_u16 response 2) (\<lambda>flags.
     let flags = flags OR (FLAG_QR OR FLAG_RA);
         flags = flags AND NOT (FLAG_AA OR FLAG_TC OR RCODE_MASK) in
     rbind (write_u16 response 2 flags) (\<lambda>response.
     rbind (ok_or (try_from_nat (length records)) ResponseTooLarge) (\<lambda>n.
     rbind (write_u16 response 6 n) (\<lambda>response.
     let response = put_at response 8 (replicate 4 0) in
     rbind (append_local_records (q_type question) ttl records response) (\<lambda>response.
     rbind (count_records_after_question response end 0) (\<lambda>actual_answers.
     write_u16 response 6 actual_answers)))))))))"

definition soa_minimum :: "bytes \<Rightarrow> resource_record \<Rightarrow> wire_error + u32" where
  "soa_minimum packet record =
     rbind (read_name packet (rr_rdata_offset record)) (\<lambda>(_, first_end).
     rbind (read_name packet first_end) (\<lambda>(_, second_end).
     rbind (checked_end second_end 20) (\<lambda>fixed_end.
       if fixed_end \<noteq> rr_next_offset record then Inl InvalidRecord
       else read_u32 packet (second_end + 16))))"

text \<open>\<open>Iterator::min\<close>, and \<open>.get(a..b).unwrap_or_default()\<close>.\<close>

fun iter_min :: "'a::linorder list \<Rightarrow> 'a option" where
  "iter_min [] = None"
| "iter_min (x # xs) = (case iter_min xs of None \<Rightarrow> Some x | Some y \<Rightarrow> Some (min x y))"

definition get_range_or_default :: "'a list \<Rightarrow> nat \<Rightarrow> nat \<Rightarrow> 'a list" where
  "get_range_or_default xs a b = (case get_range xs a b of None \<Rightarrow> [] | Some ys \<Rightarrow> ys)"

definition cache_lifetime :: "bytes \<Rightarrow> wire_error + u32 option" where
  "cache_lifetime packet =
     rbind (parse_sections packet) (\<lambda>(header, _, records, _).
       if \<not> is_response header then Inl WrongDirection
       else if \<exists>r \<in> set records. rr_type r = TYPE_TSIG then Inr None
       else
         let answer_end = unat (answer_count header) in
         if response_code header = 3 \<or> answer_count header = 0 then
           let authority_end = answer_end + unat (authority_count header) in
           Inr (iter_min (List.map_filter
             (\<lambda>r. map_option (min (rr_ttl r)) (result_ok (soa_minimum packet r)))
             (filter (\<lambda>r. rr_type r = TYPE_SOA)
               (get_range_or_default records answer_end authority_end))))
         else
           Inr (iter_min (map rr_ttl
             (filter (\<lambda>r. rr_type r \<noteq> TYPE_OPT \<and> rr_type r \<noteq> TYPE_TSIG)
               (get_range_or_default records 0 answer_end)))))"

fun write_ttls :: "u32 \<Rightarrow> bool \<Rightarrow> (nat \<times> u32 \<times> u16) list \<Rightarrow> bytes \<Rightarrow> wire_error + bytes" where
  "write_ttls elapsed stale [] packet = Inr packet"
| "write_ttls elapsed stale ((offset, ttl, t) # rest) packet =
     (if t = TYPE_OPT then write_ttls elapsed stale rest packet
      else
        let aged = (if stale then 0 else saturating_sub_w ttl elapsed) in
        rbind (write_u32 packet offset aged) (write_ttls elapsed stale rest))"

definition age_ttls :: "bytes \<Rightarrow> u32 \<Rightarrow> bool \<Rightarrow> wire_error + bytes" where
  "age_ttls packet elapsed_seconds stale =
     rbind (parse_sections packet) (\<lambda>(_, _, records, _).
       write_ttls elapsed_seconds stale
         (map (\<lambda>r. (rr_ttl_offset r, rr_ttl r, rr_type r)) records) packet)"


section \<open>Queries are well formed and read back\<close>

lemma skip_questions_eq:
  "skip_questions n p off = rbind (parse_questions n p off) (\<lambda>(_, end). Inr end)"
  by (induction n arbitrary: off)
     (auto simp: parse_questions_def rbind_assoc intro!: rbind_cong)

lemma length_12_cases:
  assumes "length hb = 12"
  obtains i f qd an ns ar where
    "hb = u16_to_be i @ u16_to_be f @ u16_to_be qd @ u16_to_be an @ u16_to_be ns @ u16_to_be ar"
proof -
  obtain a0 a1 a2 a3 a4 a5 a6 a7 a8 a9 a10 a11 where
    "hb = [a0, a1, a2, a3, a4, a5, a6, a7, a8, a9, a10, a11]"
    using assms by (auto simp: length_Suc_conv eval_nat_numeral)
  then show thesis
    by (intro that [of "u16_from_be a0 a1" "u16_from_be a2 a3" "u16_from_be a4 a5"
          "u16_from_be a6 a7" "u16_from_be a8 a9" "u16_from_be a10 a11"])
       (simp add: u16_to_from_be)
qed

definition header_bytes :: "header \<Rightarrow> bytes" where
  "header_bytes h = u16_to_be (h_id h) @ u16_to_be (h_flags h) @ u16_to_be (question_count h) @
     u16_to_be (answer_count h) @ u16_to_be (authority_count h) @ u16_to_be (additional_count h)"

lemma length_header_bytes [simp]: "length (header_bytes h) = 12"
  by (simp add: header_bytes_def)

lemma header_parse_header_bytes [simp]: "header_parse (header_bytes h @ rest) = Inr h"
  by (subst header_parse_eq) (simp_all add: header_bytes_def u16_to_be_def u16_from_to_be)

lemma header_bytes_cases:
  assumes "length hb = 12"
  obtains h where "hb = header_bytes h"
proof -
  from length_12_cases [OF assms] obtain i f qd an ns ar where
    "hb = u16_to_be i @ u16_to_be f @ u16_to_be qd @ u16_to_be an @ u16_to_be ns @ u16_to_be ar" .
  then have "hb = header_bytes \<lparr>h_id = i, h_flags = f, question_count = qd, answer_count = an,
      authority_count = ns, additional_count = ar\<rparr>"
    by (simp add: header_bytes_def)
  then show thesis by (rule that)
qed

lemma header_parse_Inr_split:
  assumes "header_parse p = Inr h"
  shows "p = header_bytes h @ drop 12 p"
proof -
  have "12 \<le> length p" using assms by (rule header_parse_Inr_length)
  then obtain h' where h': "take 12 p = header_bytes h'"
    using header_bytes_cases [of "take 12 p"] by auto
  then have "p = header_bytes h' @ drop 12 p" by (metis append_take_drop_id)
  with assms show ?thesis by (metis header_parse_header_bytes sum.inject(2))
qed

text \<open>A question whose name is written without compression.\<close>

definition question_bytes :: "bytes list \<Rightarrow> u16 \<Rightarrow> u16 \<Rightarrow> bytes" where
  "question_bytes ls t c = wire_of_labels ls @ u16_to_be t @ u16_to_be c"

lemma length_question_bytes [simp]:
  "length (question_bytes ls t c) = length (wire_of_labels ls) + 4"
  by (simp add: question_bytes_def)

lemma read_u16_at:
  "i = length pre \<Longrightarrow> length pre + 2 < usize_limit \<Longrightarrow>
   read_u16 (pre @ u16_to_be v @ post) i = Inr v"
  by (simp add: read_u16_to_be)

lemma read_u32_at:
  "i = length pre \<Longrightarrow> length pre + 4 < usize_limit \<Longrightarrow>
   read_u32 (pre @ u32_to_be v @ post) i = Inr v"
  by (simp add: read_u32_to_be)

lemma parse_question_bytes:
  assumes "valid_labels ls" and "length (wire_of_labels ls) \<le> 255"
    and "length (pre @ question_bytes ls t c @ post) < usize_limit"
  shows "parse_question (pre @ question_bytes ls t c @ post) (length pre) =
    Inr \<lparr>q_name = dns_name_of ls, q_type = t, q_class = c,
         q_next_offset = length pre + length (question_bytes ls t c)\<rparr>"
proof -
  let ?p = "pre @ question_bytes ls t c @ post" and ?n = "length pre + length (wire_of_labels ls)"
  have "read_name ?p (length pre) = Inr (dns_name_of ls, ?n)"
    using read_name_wire_of_labels [of ls pre "u16_to_be t @ u16_to_be c @ post"] assms
    by (simp add: question_bytes_def)
  moreover have "read_u16 ?p ?n = Inr t"
    using read_u16_at [of ?n "pre @ wire_of_labels ls" t "u16_to_be c @ post"] assms(3)
    by (simp add: question_bytes_def)
  moreover have "read_u16 ?p (?n + 2) = Inr c"
    using read_u16_at [of "?n + 2" "pre @ wire_of_labels ls @ u16_to_be t" c post] assms(3)
    by (simp add: question_bytes_def)
  ultimately show ?thesis by (simp add: parse_question_def)
qed

text \<open>The same for a complete packet with one such question and no record.\<close>

lemma parse_question_header:
  assumes "valid_labels ls" and "length (wire_of_labels ls) \<le> 255"
    and "length (header_bytes h @ question_bytes ls t c @ post) < usize_limit"
  shows "parse_question (header_bytes h @ question_bytes ls t c @ post) 12 =
    Inr \<lparr>q_name = dns_name_of ls, q_type = t, q_class = c,
         q_next_offset = 16 + length (wire_of_labels ls)\<rparr>"
  using parse_question_bytes [of ls "header_bytes h" t c post] assms by simp

lemma first_question_bytes:
  assumes "valid_labels ls" and "length (wire_of_labels ls) \<le> 255" and "question_count h \<noteq> 0"
    and "length (header_bytes h @ question_bytes ls t c @ post) < usize_limit"
  shows "first_question (header_bytes h @ question_bytes ls t c @ post) =
    Inr \<lparr>q_name = dns_name_of ls, q_type = t, q_class = c,
         q_next_offset = 16 + length (wire_of_labels ls)\<rparr>"
  using assms parse_question_header [of ls h t c post] by (simp add: first_question_def)

lemma parse_sections_single:
  assumes "valid_labels ls" and "length (wire_of_labels ls) \<le> 255" and "question_count h = 1"
    and "total_records h = 0" 
  shows "parse_sections (header_bytes h @ question_bytes ls t c) =
    Inr (h, [\<lparr>q_name = dns_name_of ls, q_type = t, q_class = c,
              q_next_offset = 16 + length (wire_of_labels ls)\<rparr>], [],
         16 + length (wire_of_labels ls))"
  using assms parse_question_header [of ls h t c "[]"] header_parse_header_bytes [of h]
  by (simp add: parse_sections_def parse_questions_def parse_records_def usize_limit_def)

lemma validate_single:
  assumes "valid_labels ls" and "length (wire_of_labels ls) \<le> 255" and "question_count h = 1"
    and "total_records h = 0" and "opcode h = 0"
  shows "validate (header_bytes h @ question_bytes ls t c) (is_response h) = Inr ()"
  using assms parse_sections_single [of ls h t c] by (simp add: validate_def)

definition query_header :: "u16 \<Rightarrow> header" where
  "query_header i = \<lparr>h_id = i, h_flags = FLAG_RD, question_count = 1, answer_count = 0,
     authority_count = 0, additional_count = 0\<rparr>"

lemma make_query_with_class_shape:
  assumes "make_query_with_class name t c i = Inr p"
  shows "p = header_bytes (query_header i) @ question_bytes (presentation_labels name) t c"
    and "valid_labels (presentation_labels name)"
    and "length (wire_of_labels (presentation_labels name)) \<le> 255"
proof -
  from assms obtain w where w: "encode_name name = Inr w"
    and p: "p = u16_to_be i @ u16_to_be FLAG_RD @ u16_to_be 1 @ replicate 6 0 @ w @
            u16_to_be t @ u16_to_be c"
    by (auto simp: make_query_with_class_def rbind_eq_Inr)
  note enc = encode_name_Inr [OF w]
  have "replicate 6 (0::u8) = u16_to_be 0 @ u16_to_be 0 @ u16_to_be 0"
    by (simp add: u16_to_be_def eval_nat_numeral)
  with p enc(1) show "p = header_bytes (query_header i) @ question_bytes (presentation_labels name) t c"
    by (simp add: header_bytes_def query_header_def question_bytes_def)
  show "valid_labels (presentation_labels name)" by (rule enc(2))
  show "length (wire_of_labels (presentation_labels name)) \<le> 255" using enc by simp
qed

lemma query_header_simps [simp]:
  "is_response (query_header i) \<longleftrightarrow> False" "opcode (query_header i) = 0"
  "total_records (query_header i) = 0" "question_count (query_header i) = 1"
  "h_id (query_header i) = i" "checking_disabled (query_header i) \<longleftrightarrow> False"
  by (simp_all add: query_header_def is_response_def opcode_def total_records_def
      checking_disabled_def)

section \<open>Responses derived from a query\<close>

text \<open>The flag arithmetic shared by \<open>servfail_for\<close>, \<open>refused_for\<close> and \<open>local_response\<close>.\<close>

definition reply_flags :: "u16 \<Rightarrow> u16 \<Rightarrow> u16" where
  "reply_flags f rcode =
     ((f OR (FLAG_QR OR FLAG_RA)) AND NOT (FLAG_AA OR FLAG_TC OR RCODE_MASK)) OR rcode"

lemma reply_flags_and:
  "reply_flags f rcode AND m =
     (f AND (NOT (FLAG_AA OR FLAG_TC OR RCODE_MASK) AND m))
     OR (((FLAG_QR OR FLAG_RA) AND NOT (FLAG_AA OR FLAG_TC OR RCODE_MASK)) AND m) OR (rcode AND m)"
  unfolding reply_flags_def by (simp only: bit.conj_disj_distrib2 and.assoc or.assoc)

definition reply_header :: "header \<Rightarrow> u16 \<Rightarrow> u16 \<Rightarrow> header" where
  "reply_header h rcode answers = h\<lparr>h_flags := reply_flags (h_flags h) rcode,
     answer_count := answers, authority_count := 0, additional_count := 0\<rparr>"

lemma reply_header_simps [simp]:
  "h_id (reply_header h rcode n) = h_id h"
  "question_count (reply_header h rcode n) = question_count h"
  "answer_count (reply_header h rcode n) = n"
  "total_records (reply_header h rcode n) = unat n"
  by (simp_all add: reply_header_def total_records_def)

lemma reply_header_answers [simp]:
  "(reply_header h rcode n)\<lparr>answer_count := m\<rparr> = reply_header h rcode m"
  by (simp add: reply_header_def)

lemma reply_header_flags:
  assumes "rcode AND NOT RCODE_MASK = 0"
  shows "is_response (reply_header h rcode n)" and "opcode (reply_header h rcode n) = opcode h"
    and "response_code (reply_header h rcode n) = rcode" and "\<not> truncated (reply_header h rcode n)"
proof -
  have sub: "rcode AND m = 0" if "m AND RCODE_MASK = 0" for m
    using assms that by (auto simp: bit_eq_iff bit_simps)
  have "rcode AND FLAG_QR = 0" "rcode AND FLAG_OPCODE = 0" "rcode AND FLAG_TC = 0"
    by (rule sub; simp)+
  moreover have "rcode AND RCODE_MASK = rcode"
    using assms by (auto simp: bit_eq_iff bit_simps)
  ultimately show "is_response (reply_header h rcode n)" "opcode (reply_header h rcode n) = opcode h"
    "response_code (reply_header h rcode n) = rcode" "\<not> truncated (reply_header h rcode n)"
    by (simp_all add: reply_header_def is_response_def opcode_def response_code_def truncated_def
        reply_flags_and)
qed

lemma put_at_header_flags:
  "put_at (header_bytes h @ rest) 2 (u16_to_be f) = header_bytes (h\<lparr>h_flags := f\<rparr>) @ rest"
  by (simp add: put_at_def header_bytes_def u16_to_be_def)

lemma put_at_header_answers:
  "put_at (header_bytes h @ rest) 6 (u16_to_be n) = header_bytes (h\<lparr>answer_count := n\<rparr>) @ rest"
  by (simp add: put_at_def header_bytes_def u16_to_be_def)

lemma put_at_header_counts:
  "put_at (header_bytes h @ rest) 6 (replicate 6 0) =
   header_bytes (h\<lparr>answer_count := 0, authority_count := 0, additional_count := 0\<rparr>) @ rest"
  by (simp add: put_at_def header_bytes_def u16_to_be_def eval_nat_numeral)

lemma put_at_header_counts_tail:
  "put_at (header_bytes h @ rest) 8 (replicate 4 0) =
   header_bytes (h\<lparr>authority_count := 0, additional_count := 0\<rparr>) @ rest"
  by (simp add: put_at_def header_bytes_def u16_to_be_def eval_nat_numeral)

lemma read_header_flags: "read_u16 (header_bytes h @ rest) 2 = Inr (h_flags h)"
  by (simp add: read_u16_eq header_bytes_def u16_to_be_def u16_from_to_be usize_limit_def)

lemma write_header_flags:
  "write_u16 (header_bytes h @ rest) 2 f = Inr (header_bytes (h\<lparr>h_flags := f\<rparr>) @ rest)"
  by (simp add: write_u16_eq put_at_header_flags usize_limit_def)

lemma write_header_answers:
  "write_u16 (header_bytes h @ rest) 6 n = Inr (header_bytes (h\<lparr>answer_count := n\<rparr>) @ rest)"
  by (simp add: write_u16_eq put_at_header_answers usize_limit_def)

lemmas header_edit_simps =
  put_at_header_counts put_at_header_counts_tail read_header_flags write_header_flags
  write_header_answers

lemma validate_query_header:
  "validate (header_bytes h @ rest) False = Inr () \<Longrightarrow>
   question_count h = 1 \<and> opcode h = 0 \<and> \<not> is_response h"
  by (auto simp: validate_def parse_sections_def result_simps split: if_splits)

text \<open>A query whose question is written without compression, as every encoder writes it.\<close>

definition plain_query :: "header \<Rightarrow> bytes list \<Rightarrow> u16 \<Rightarrow> u16 \<Rightarrow> bytes \<Rightarrow> bytes" where
  "plain_query h ls t c rest = header_bytes h @ question_bytes ls t c @ rest"

lemma header_parse_plain: "header_parse (plain_query h ls t c rest) = Inr h"
  by (simp add: plain_query_def)

lemma question_end_plain:
  assumes "valid_labels ls" and "length (wire_of_labels ls) \<le> 255" and "question_count h = 1"
    and "length (plain_query h ls t c rest) < usize_limit"
  shows "question_end (plain_query h ls t c rest) = Inr (16 + length (wire_of_labels ls))"
  using assms parse_question_header [of ls h t c rest]
  by (simp add: question_end_def plain_query_def)

lemma take_question_end:
  "take (16 + length (wire_of_labels ls)) (plain_query h ls t c rest) =
   header_bytes h @ question_bytes ls t c"
  by (simp add: plain_query_def)

lemma servfail_for_plain:
  assumes "valid_labels ls" and "length (wire_of_labels ls) \<le> 255"
    and "length (plain_query h ls t c rest) < usize_limit"
    and "validate (plain_query h ls t c rest) False = Inr ()"
  shows "servfail_for (plain_query h ls t c rest) =
    Inr (header_bytes (reply_header h 2 0) @ question_bytes ls t c)"
  using assms validate_query_header [of h "question_bytes ls t c @ rest"]
    question_end_plain [of ls h t c rest]
  by (simp add: servfail_for_def take_question_end header_edit_simps reply_header_def
      reply_flags_def plain_query_def [symmetric])

lemma refused_for_plain:
  assumes "valid_labels ls" and "length (wire_of_labels ls) \<le> 255"
    and "length (plain_query h ls t c rest) < usize_limit"
    and "validate (plain_query h ls t c rest) False = Inr ()"
  shows "refused_for (plain_query h ls t c rest) =
    Inr (header_bytes (reply_header h 5 0) @ question_bytes ls t c)"
  using assms validate_query_header [of h "question_bytes ls t c @ rest"]
    question_end_plain [of ls h t c rest]
  by (simp add: refused_for_def take_question_end header_edit_simps reply_header_def
      reply_flags_def plain_query_def [symmetric])

lemma first_question_plain:
  assumes "valid_labels ls" and "length (wire_of_labels ls) \<le> 255" and "question_count h = 1"
    and "length (plain_query h ls t c rest) < usize_limit"
  shows "first_question (plain_query h ls t c rest) =
    Inr \<lparr>q_name = dns_name_of ls, q_type = t, q_class = c,
         q_next_offset = 16 + length (wire_of_labels ls)\<rparr>"
  using assms first_question_bytes [of ls h t c rest] by (simp add: plain_query_def)

lemma response_matches_plain:
  assumes "valid_labels ls" and "length (wire_of_labels ls) \<le> 255"
    and "length (plain_query h ls t c rest) < usize_limit"
    and "length (plain_query h' ls t c rest') < usize_limit"
    and "validate (plain_query h ls t c rest) False = Inr ()"
    and "validate (plain_query h' ls t c rest') True = Inr ()"
    and "h_id h' = h_id h" and "question_count h' = question_count h"
  shows "response_matches (plain_query h ls t c rest) (plain_query h' ls t c rest') = Inr ()"
proof -
  have "question_count h = 1"
    using assms(5) validate_query_header [of h] by (simp add: plain_query_def)
  with assms show ?thesis
    by (simp add: response_matches_def first_question_plain header_parse_plain)
qed

lemma error_reply_matches:
  assumes "valid_labels ls" and "length (wire_of_labels ls) \<le> 255"
    and "length (plain_query h ls t c rest) < usize_limit"
    and "validate (plain_query h ls t c rest) False = Inr ()"
    and "rcode AND NOT RCODE_MASK = 0"
  shows "response_matches (plain_query h ls t c rest)
    (header_bytes (reply_header h rcode 0) @ question_bytes ls t c) = Inr ()"
proof -
  have h: "question_count h = 1" "opcode h = 0"
    using assms(4) validate_query_header [of h] by (simp_all add: plain_query_def)
  have "validate (header_bytes (reply_header h rcode 0) @ question_bytes ls t c) True = Inr ()"
    using validate_single [of ls "reply_header h rcode 0" t c] assms h
    by (simp add: reply_header_flags)
  then show ?thesis
    using response_matches_plain [of ls h t c rest "reply_header h rcode 0" "[]"] assms
    by (simp add: plain_query_def usize_limit_def)
qed

section \<open>Local answers\<close>

definition local_record_bytes :: "u32 \<Rightarrow> local_record \<Rightarrow> bytes \<Rightarrow> bytes" where
  "local_record_bytes ttl r rdata = [0xc0, 0x0c] @ u16_to_be (local_rr_type r) @
     u16_to_be CLASS_IN @ u32_to_be ttl @ u16_to_be (of_nat (length rdata)) @ rdata"

lemma length_local_record_bytes [simp]: "length (local_record_bytes ttl r rd) = 12 + length rd"
  by (simp add: local_record_bytes_def)

definition local_selected :: "u16 \<Rightarrow> local_record list \<Rightarrow> local_record list" where
  "local_selected qtype rs = filter (\<lambda>r. local_rr_type r = qtype \<or> qtype = 255) rs"

lemma append_local_records_Inr:
  assumes "append_local_records qtype ttl rs out = Inr out'"
  shows "\<exists>rds. list_all2 (\<lambda>r rd. local_rdata r = Inr rd \<and> length rd < 65536)
                 (local_selected qtype rs) rds \<and>
    out' = out @ concat (map2 (local_record_bytes ttl) (local_selected qtype rs) rds) \<and>
    (out' = out \<or> length out' \<le> 65535)"
  using assms
proof (induction qtype ttl rs out rule: append_local_records.induct)
  case (1 qtype ttl response)
  then show ?case by (auto simp: local_selected_def)
next
  case (2 qtype ttl r rs response)
  show ?case
  proof (cases "local_rr_type r \<noteq> qtype \<and> qtype \<noteq> 255")
    case True
    with 2 show ?thesis by (auto simp: local_selected_def)
  next
    case False
    from 2(3) False obtain rd n where rd: "local_rdata r = Inr rd"
      "(try_from_nat (length rd) :: u16 option) = Some n"
      by (auto simp: result_simps Let_def split: if_splits)
    then have n: "n = of_nat (length rd)" "length rd < 65536" by (auto simp: try_from_nat_Some)
    let ?out = "response @ local_record_bytes ttl r rd"
    from 2(3) False rd n have step: "length ?out \<le> 65535"
      "append_local_records qtype ttl rs ?out = Inr out'"
      by (auto simp: local_record_bytes_def Let_def exceeds_u16_max_def split: if_splits)
    from 2(2) [OF False rd(1) _ _ _, of n ?out] rd n step obtain rds where
      rds: "list_all2 (\<lambda>r rd. local_rdata r = Inr rd \<and> length rd < 65536)
              (local_selected qtype rs) rds"
      "out' = ?out @ concat (map2 (local_record_bytes ttl) (local_selected qtype rs) rds)"
      "out' = ?out \<or> length out' \<le> 65535"
      by (auto simp: local_record_bytes_def exceeds_u16_max_def)
    from rds(3) step(1) have "length out' \<le> 65535" by auto
    moreover from False have "local_selected qtype (r # rs) = r # local_selected qtype rs"
      by (auto simp: local_selected_def)
    ultimately show ?thesis
      using rd n rds(1,2) by (intro exI [of _ "rd # rds"]) simp
  qed
qed

text \<open>Each appended record parses back: its owner is a pointer to the question name.\<close>

definition local_rr :: "bytes list \<Rightarrow> u32 \<Rightarrow> nat \<Rightarrow> local_record \<Rightarrow> bytes \<Rightarrow> resource_record" where
  "local_rr ls ttl off r rd = \<lparr>rr_name = dns_name_of ls, rr_type = local_rr_type r, rr_class = CLASS_IN,
     rr_ttl = ttl, rr_ttl_offset = off + 6, rr_rdata_offset = off + 12, rr_rdata = rd,
     rr_next_offset = off + 12 + length rd\<rparr>"

lemma read_name_pointer_12:
  assumes "name_at (pre @ [0xc0, 0x0c] @ post) 12 ls nxt 0" and "12 < length pre"
    and "length (wire_of_labels ls) \<le> 255" and "length (pre @ [0xc0, 0x0c] @ post) < usize_limit"
  shows "read_name (pre @ [0xc0, 0x0c] @ post) (length pre) = Inr (dns_name_of ls, length pre + 2)"
proof -
  have "name_at (pre @ [0xc0, 0x0c] @ post) (length pre) ls (length pre + 2) (Suc 0)"
    by (rule name_at.pointer [where len = "0xc0" and second = "0x0c"])
       (use assms in \<open>simp_all add: get_at_def nth_append\<close>)
  then have "\<exists>ls' k. name_at (pre @ [0xc0, 0x0c] @ post) (length pre) ls' (length pre + 2) k \<and>
      k \<le> 128 \<and> length (wire_of_labels ls') \<le> 255 \<and> dns_name_of ls = dns_name_of ls'"
    using assms(3) by (intro exI [of _ ls] exI [of _ "Suc 0"]) simp
  with assms(4) show ?thesis by (simp only: read_name_iff)
qed

text \<open>The fixed part of a record after its owner name.\<close>

definition record_tail :: "u16 \<Rightarrow> u16 \<Rightarrow> u32 \<Rightarrow> bytes \<Rightarrow> bytes" where
  "record_tail t c ttl rd =
     u16_to_be t @ u16_to_be c @ u32_to_be ttl @ u16_to_be (of_nat (length rd)) @ rd"

lemma length_record_tail [simp]: "length (record_tail t c ttl rd) = 10 + length rd"
  by (simp add: record_tail_def)

lemma parse_record_fields:
  assumes name: "read_name p off = Inr (name, length pre)"
    and p: "p = pre @ record_tail t c ttl rd @ post"
    and bound: "length p < usize_limit" and rd: "length rd < 65536"
  shows "parse_record p off = Inr \<lparr>rr_name = name, rr_type = t, rr_class = c, rr_ttl = ttl,
     rr_ttl_offset = length pre + 4, rr_rdata_offset = length pre + 10, rr_rdata = rd,
     rr_next_offset = length pre + 10 + length rd\<rparr>"
proof -
  let ?n = "length pre"
  have t: "read_u16 p ?n = Inr t"
    using read_u16_at [of ?n pre] bound by (simp add: p record_tail_def)
  have c: "read_u16 p (?n + 2) = Inr c"
    using read_u16_at [of "?n + 2" "pre @ u16_to_be t"] bound by (simp add: p record_tail_def)
  have ttl: "read_u32 p (?n + 4) = Inr ttl"
    using read_u32_at [of "?n + 4" "pre @ u16_to_be t @ u16_to_be c"] bound
    by (simp add: p record_tail_def)
  have len: "read_u16 p (?n + 8) = Inr (of_nat (length rd))"
    using read_u16_at [of "?n + 8" "pre @ u16_to_be t @ u16_to_be c @ u32_to_be ttl"] bound
    by (simp add: p record_tail_def)
  have "get_range (pre' @ rd @ post) (length pre') (length pre' + length rd) = Some rd" for pre'
    by (simp add: get_range_def)
  from this [of "pre @ u16_to_be t @ u16_to_be c @ u32_to_be ttl @ u16_to_be (of_nat (length rd))"]
  have "get_range p (?n + 10) (?n + 10 + length rd) = Some rd"
    by (simp add: p record_tail_def ac_simps)
  moreover have "unat (of_nat (length rd) :: u16) = length rd"
    using rd by (simp add: unat_of_nat)
  moreover have "checked_end (?n + 10) (length rd) = Inr (?n + 10 + length rd)"
    using bound by (simp add: checked_end_Inr p)
  ultimately show ?thesis
    using name t c ttl len by (simp add: parse_record_def)
qed

lemma parse_local_record:
  assumes p: "p = pre @ local_record_bytes ttl r rd @ post"
    and "name_at p 12 ls nxt 0" and "12 < length pre"
    and "length (wire_of_labels ls) \<le> 255" and "length p < usize_limit" and "length rd < 65536"
  shows "parse_record p (length pre) = Inr (local_rr ls ttl (length pre) r rd)"
proof -
  have "read_name p (length pre) = Inr (dns_name_of ls, length (pre @ [0xc0, 0x0c]))"
    using read_name_pointer_12 [of pre _ ls nxt] assms by (simp add: local_record_bytes_def)
  then show ?thesis
    using assms
    by (subst parse_record_fields [where pre = "pre @ [0xc0, 0x0c]" and rd = rd])
       (simp_all add: local_record_bytes_def record_tail_def local_rr_def)
qed

fun local_rrs :: "bytes list \<Rightarrow> u32 \<Rightarrow> nat \<Rightarrow> local_record list \<Rightarrow> bytes list \<Rightarrow> resource_record list" where
  "local_rrs ls ttl off (r # rs) (rd # rds) =
     local_rr ls ttl off r rd # local_rrs ls ttl (off + 12 + length rd) rs rds"
| "local_rrs ls ttl off _ _ = []"

lemma parse_local_records:
  assumes "list_all2 (\<lambda>r rd. local_rdata r = Inr rd \<and> length rd < 65536) rs rds"
    and "p = pre @ concat (map2 (local_record_bytes ttl) rs rds)"
    and "name_at p 12 ls nxt 0" and "12 < length pre"
    and "length (wire_of_labels ls) \<le> 255" and "length p < usize_limit"
  shows "parse_many parse_record rr_next_offset (length rs) p (length pre) =
    Inr (local_rrs ls ttl (length pre) rs rds, length p)"
  using assms
proof (induction rs rds arbitrary: pre rule: list_all2_induct)
  case Nil
  then show ?case by simp
next
  case (Cons r rs rd rds)
  have "parse_record p (length pre) = Inr (local_rr ls ttl (length pre) r rd)"
    by (rule parse_local_record [where post = "concat (map2 (local_record_bytes ttl) rs rds)"])
       (use Cons in simp_all)
  moreover have "parse_many parse_record rr_next_offset (length rs) p
      (length (pre @ local_record_bytes ttl r rd)) =
    Inr (local_rrs ls ttl (length (pre @ local_record_bytes ttl r rd)) rs rds, length p)"
    by (rule Cons(3)) (use Cons.prems in auto)
  ultimately show ?case by (simp add: local_rr_def add.assoc)
qed

lemma count_records_parse_many:
  assumes "parse_many parse_record rr_next_offset n p off = Inr (xs, length p)"
    and "unat cnt + n < 65536"
  shows "count_records_after_question p off cnt = Inr (cnt + of_nat n)"
  using assms
proof (induction n arbitrary: off cnt xs)
  case 0
  then show ?case by (simp add: count_records_after_question.simps)
next
  case (Suc n)
  then obtain r ys where r: "parse_record p off = Inr r"
    and ys: "parse_many parse_record rr_next_offset n p (rr_next_offset r) = Inr (ys, length p)"
    by (auto simp: result_simps)
  have "off < length p" using parse_record_bounds [OF r] by simp
  moreover have "checked_add_w cnt 1 = Some (cnt + 1)" "unat (cnt + 1) = unat cnt + 1"
    using Suc.prems(2) by (simp_all add: checked_add_w_def unat_word_ariths)
  moreover from this have "count_records_after_question p (rr_next_offset r) (cnt + 1) =
      Inr (cnt + 1 + of_nat n)"
    using Suc.prems(2) by (intro Suc.IH [OF ys]) simp
  ultimately show ?case
    using r by (subst count_records_after_question.simps) (simp add: add.assoc)
qed

lemma name_at_question:
  "valid_labels ls \<Longrightarrow>
   name_at (plain_query h ls t c rest) 12 ls (12 + length (wire_of_labels ls)) 0"
  using name_at_wire_of_labels [of ls "header_bytes h" "u16_to_be t @ u16_to_be c @ rest"]
  by (simp add: plain_query_def question_bytes_def)

lemma length_plain_query [simp]:
  "length (plain_query h ls t c rest) = 16 + length (wire_of_labels ls) + length rest"
  by (simp add: plain_query_def)

lemma parse_sections_plain:
  assumes "valid_labels ls" and "length (wire_of_labels ls) \<le> 255" and "question_count h = 1"
    and "length (plain_query h ls t c rest) < usize_limit"
    and "parse_many parse_record rr_next_offset (total_records h) (plain_query h ls t c rest)
           (16 + length (wire_of_labels ls)) = Inr (recs, end)"
  shows "parse_sections (plain_query h ls t c rest) =
    Inr (h, [\<lparr>q_name = dns_name_of ls, q_type = t, q_class = c,
              q_next_offset = 16 + length (wire_of_labels ls)\<rparr>], recs, end)"
  using assms parse_question_header [of ls h t c rest] header_parse_plain [of h ls t c rest]
  by (simp add: parse_sections_def parse_questions_def parse_records_def)
     (simp add: plain_query_def)

text \<open>The answer section of a local response: owner, type, class, TTL and data of every record.\<close>

definition rr_content :: "resource_record \<Rightarrow> dns_name \<times> u16 \<times> u16 \<times> u32 \<times> bytes" where
  "rr_content r = (rr_name r, rr_type r, rr_class r, rr_ttl r, rr_rdata r)"

lemma rr_content_local_rrs:
  "length rs = length rds \<Longrightarrow> map rr_content (local_rrs ls ttl off rs rds) =
   map2 (\<lambda>r rd. (dns_name_of ls, local_rr_type r, CLASS_IN, ttl, rd)) rs rds"
  by (induction rs rds arbitrary: off rule: list_induct2) (simp_all add: rr_content_def local_rr_def)

lemma local_response_steps:
  assumes q: "q = plain_query h ls t c rest"
    and v: "valid_labels ls" "length (wire_of_labels ls) \<le> 255" "length q < usize_limit"
    and ok: "local_response q rs ttl = Inr r"
  obtains n out cnt where
    "append_local_records t ttl rs (plain_query (reply_header h 0 n) ls t c []) = Inr out"
    and "count_records_after_question out (16 + length (wire_of_labels ls)) 0 = Inr cnt"
    and "write_u16 out 6 cnt = Inr r" and "length rs < 65536"
    and "validate q False = Inr ()"
proof -
  have val: "validate q False = Inr ()"
    using ok by (auto simp: local_response_def rbind_eq_Inr)
  then have qd: "question_count h = 1"
    using validate_query_header [of h] by (simp add: q plain_query_def)
  have "q_type \<lparr>q_name = dns_name_of ls, q_type = t, q_class = c,
      q_next_offset = 16 + length (wire_of_labels ls)\<rparr> = t" by simp
  with ok val show thesis
    using question_end_plain [OF v(1,2) qd, of t c rest] first_question_plain [OF v(1,2) qd, of t c rest] v(3)
    by (auto simp: local_response_def q take_question_end header_edit_simps rbind_eq_Inr ok_or_eq_Inr
        try_from_nat_Some reply_header_def reply_flags_def Let_def plain_query_def
        intro!: that)
qed

lemma local_response_plain:
  assumes q: "q = plain_query h ls t c rest"
    and v: "valid_labels ls" "length (wire_of_labels ls) \<le> 255" "length q < usize_limit"
    and ok: "local_response q rs ttl = Inr r"
  obtains rds where
    "list_all2 (\<lambda>r rd. local_rdata r = Inr rd \<and> length rd < 65536) (local_selected t rs) rds"
    and "r = plain_query (reply_header h 0 (of_nat (length (local_selected t rs)))) ls t c
           (concat (map2 (local_record_bytes ttl) (local_selected t rs) rds))"
    and "parse_sections r =
      Inr (reply_header h 0 (of_nat (length (local_selected t rs))),
           [\<lparr>q_name = dns_name_of ls, q_type = t, q_class = c,
             q_next_offset = 16 + length (wire_of_labels ls)\<rparr>],
           local_rrs ls ttl (16 + length (wire_of_labels ls)) (local_selected t rs) rds, length r)"
    and "length r < usize_limit" and "validate q False = Inr ()"
proof -
  obtain n out cnt where
    app: "append_local_records t ttl rs (plain_query (reply_header h 0 n) ls t c []) = Inr out"
    and cnt: "count_records_after_question out (16 + length (wire_of_labels ls)) 0 = Inr cnt"
    and r: "write_u16 out 6 cnt = Inr r" and n: "length rs < 65536"
    and val: "validate q False = Inr ()"
    using local_response_steps [OF q v ok] .
  let ?sel = "local_selected t rs"
  from append_local_records_Inr [OF app] obtain rds where
    rds: "list_all2 (\<lambda>r rd. local_rdata r = Inr rd \<and> length rd < 65536) ?sel rds"
    and out: "out = plain_query (reply_header h 0 n) ls t c [] @
                    concat (map2 (local_record_bytes ttl) ?sel rds)"
    and len: "out = plain_query (reply_header h 0 n) ls t c [] \<or> length out \<le> 65535" by blast
  let ?body = "concat (map2 (local_record_bytes ttl) ?sel rds)"
  have qd: "question_count h = 1"
    using val validate_query_header [of h] by (simp add: q plain_query_def)
  from len v(2) have "length out \<le> 65535" by auto
  then have bound: "length (plain_query h' ls t c ?body) < usize_limit" for h'
    by (simp add: out usize_limit_def)
  have sel: "length ?sel < 65536"
    using n le_less_trans [OF length_filter_le] by (auto simp: local_selected_def)
  have parse: "parse_many parse_record rr_next_offset (length ?sel) (plain_query h' ls t c ?body)
      (16 + length (wire_of_labels ls)) =
      Inr (local_rrs ls ttl (16 + length (wire_of_labels ls)) ?sel rds,
           length (plain_query h' ls t c ?body))" for h'
    using parse_local_records [OF rds _ name_at_question [OF v(1), of h' t c ?body] _ v(2) bound,
        where pre = "plain_query h' ls t c []"]
    by (simp add: plain_query_def)
  have out': "out = plain_query (reply_header h 0 n) ls t c ?body"
    using out by (simp add: plain_query_def)
  have "cnt = of_nat (length ?sel)"
    using count_records_parse_many [OF parse [of "reply_header h 0 n"], of 0] cnt sel
    by (simp add: out')
  with r have r': "r = plain_query (reply_header h 0 (of_nat (length ?sel))) ls t c ?body"
    by (simp add: out' plain_query_def write_header_answers reply_header_answers)
  show thesis
  proof (rule that [OF rds r'])
    show "parse_sections r = Inr (reply_header h 0 (of_nat (length ?sel)),
        [\<lparr>q_name = dns_name_of ls, q_type = t, q_class = c,
          q_next_offset = 16 + length (wire_of_labels ls)\<rparr>],
        local_rrs ls ttl (16 + length (wire_of_labels ls)) ?sel rds, length r)"
      unfolding r' using sel qd
      by (intro parse_sections_plain v bound)
         (simp_all add: parse unat_of_nat del: length_plain_query)
  qed (use bound r' val in auto)
qed

section \<open>Ageing of TTLs and the lifetime of a response\<close>

text \<open>The records of a packet follow each other, so their TTL fields are disjoint.\<close>

lemma parse_many_ttl_offsets:
  assumes "parse_many parse_record rr_next_offset n p off = Inr (rs, end)"
  shows "sorted_wrt (\<lambda>a b. rr_ttl_offset a + 4 \<le> rr_ttl_offset b) rs"
  using assms
proof (induction n arbitrary: off rs)
  case 0
  then show ?case by simp
next
  case (Suc n)
  then obtain r ys where r: "parse_record p off = Inr r" "rs = r # ys"
    and ys: "parse_many parse_record rr_next_offset n p (rr_next_offset r) = Inr (ys, end)"
    by (auto simp: result_simps)
  have "rr_ttl_offset r + 4 \<le> rr_ttl_offset y" if "y \<in> set ys" for y
    using records.parse_many_items [OF ys that] parse_record_bounds [OF r(1)]
    by (auto dest!: parse_record_bounds)
  with Suc.IH [OF ys] r(2) show ?case by auto
qed

definition aged_ttl :: "u32 \<Rightarrow> bool \<Rightarrow> resource_record \<Rightarrow> u32" where
  "aged_ttl elapsed stale r =
     (if rr_type r = TYPE_OPT then rr_ttl r else if stale then 0 else saturating_sub_w (rr_ttl r) elapsed)"

abbreviation ttl_triples :: "resource_record list \<Rightarrow> (nat \<times> u32 \<times> u16) list" where
  "ttl_triples rs \<equiv> map (\<lambda>r. (rr_ttl_offset r, rr_ttl r, rr_type r)) rs"

lemma write_u32_Inr: "i + 4 \<le> length p \<Longrightarrow> i + 4 < usize_limit \<Longrightarrow>
  write_u32 p i v = Inr (put_at p i (u32_to_be v))"
  by (simp add: write_u32_eq)

lemma read_u32_put_at_other:
  assumes "i + 4 \<le> length p" and "j + 4 \<le> i \<or> i + 4 \<le> j"
  shows "read_u32 (put_at p i (u32_to_be v)) j = read_u32 p j"
  using assms by (auto simp: read_u32_eq nth_put_at)

lemma write_ttls_correct:
  assumes "sorted_wrt (\<lambda>a b. rr_ttl_offset a + 4 \<le> rr_ttl_offset b) rs"
    and "\<forall>r \<in> set rs. read_u32 p (rr_ttl_offset r) = Inr (rr_ttl r)"
  shows "\<exists>p'. write_ttls el st (ttl_triples rs) p = Inr p' \<and> length p' = length p \<and>
    (\<forall>r \<in> set rs. read_u32 p' (rr_ttl_offset r) = Inr (aged_ttl el st r)) \<and>
    (\<forall>j < length p. (\<forall>r \<in> set rs. \<not> (rr_ttl_offset r \<le> j \<and> j < rr_ttl_offset r + 4)) \<longrightarrow>
       p' ! j = p ! j)"
  using assms
proof (induction rs arbitrary: p)
  case Nil
  then show ?case by simp
next
  case (Cons r rs)
  let ?o = "rr_ttl_offset r"
  have o: "?o + 4 \<le> length p" "?o + 4 < usize_limit"
    using Cons.prems(2) by (simp_all add: read_u32_Inr)
  define q where "q = (if rr_type r = TYPE_OPT then p else put_at p ?o (u32_to_be (aged_ttl el st r)))"
  have step: "write_ttls el st (ttl_triples (r # rs)) p = write_ttls el st (ttl_triples rs) q"
    using o by (simp add: q_def write_u32_Inr aged_ttl_def Let_def)
  have len: "length q = length p" using o by (simp add: q_def)
  have later: "?o + 4 \<le> rr_ttl_offset x" if "x \<in> set rs" for x
    using Cons.prems(1) that by simp
  have keep: "\<forall>x \<in> set rs. read_u32 q (rr_ttl_offset x) = Inr (rr_ttl x)"
    using Cons.prems(2) later o by (simp add: q_def read_u32_put_at_other)
  from Cons.IH [of q] Cons.prems(1) keep obtain p' where
    p': "write_ttls el st (ttl_triples rs) q = Inr p'" "length p' = length q"
      "\<forall>x \<in> set rs. read_u32 p' (rr_ttl_offset x) = Inr (aged_ttl el st x)"
    and frame: "\<forall>j < length q. (\<forall>x \<in> set rs. \<not> (rr_ttl_offset x \<le> j \<and> j < rr_ttl_offset x + 4)) \<longrightarrow>
       p' ! j = q ! j" by auto
  have q_at: "read_u32 q ?o = Inr (aged_ttl el st r)"
    using Cons.prems(2) o
    by (simp add: q_def read_write_u32 [OF write_u32_Inr] aged_ttl_def [of el st r])
  have "p' ! j = q ! j" if "?o \<le> j" "j < ?o + 4" for j
  proof -
    have "\<not> (rr_ttl_offset x \<le> j \<and> j < rr_ttl_offset x + 4)" if "x \<in> set rs" for x
      using later [OF that] \<open>j < ?o + 4\<close> by simp
    with frame that o len show ?thesis by simp
  qed
  then have "read_u32 p' ?o = read_u32 q ?o" using p'(2) by (simp add: read_u32_eq)
  moreover have "q ! j = p ! j" if "j < length p" "\<not> (?o \<le> j \<and> j < ?o + 4)" for j
    using that o by (auto simp: q_def nth_put_at)
  ultimately show ?case
    using step p' q_at frame len by auto
qed

lemma parse_sections_records:
  assumes "parse_sections p = Inr (h, qs, rs, end)"
  obtains off where "parse_many parse_record rr_next_offset (total_records h) p off = Inr (rs, end)"
    and "12 \<le> off" and "header_parse p = Inr h"
    and "parse_many parse_question q_next_offset (unat (question_count h)) p 12 = Inr (qs, off)"
  using assms questions.parse_many_progress
  by (fastforce simp: parse_sections_def parse_records_def parse_questions_def rbind_eq_Inr)

lemma parse_sections_length:
  assumes "parse_sections p = Inr (h, qs, rs, end)"
  shows "length rs = total_records h" and "length qs = unat (question_count h)"
  using assms records.parse_many_length questions.parse_many_length
  by (auto elim!: parse_sections_records)

lemma iter_min_None [simp]: "iter_min xs = None \<longleftrightarrow> xs = []"
  by (cases xs) (auto split: option.splits)

lemma iter_min_Some:
  "iter_min xs = Some m \<longleftrightarrow> m \<in> set xs \<and> (\<forall>x \<in> set xs. m \<le> x)"
proof (induction xs arbitrary: m)
  case Nil
  then show ?case by simp
next
  case (Cons x xs)
  show ?case
  proof (cases "iter_min xs")
    case None
    then show ?thesis by auto
  next
    case (Some y)
    with Cons.IH [of y] have "y \<in> set xs" "\<forall>z \<in> set xs. y \<le> z" by auto
    with Some show ?thesis by (auto simp: min_def intro: order.antisym)
  qed
qed

section \<open>Properties of the component\<close>

text \<open>A concrete response, on which several statements are evaluated: \<open>a. A 1.2.3.4\<close>, TTL 60.\<close>

definition sample_response :: bytes where
  "sample_response = [0, 7, 0x81, 0x80, 0, 1, 0, 1, 0, 0, 0, 0, 1, 97, 0, 0, 1, 0, 1,
     0xc0, 12, 0, 1, 0, 1, 0, 0, 0, 60, 0, 4, 1, 2, 3, 4]"

text \<open>
  C3: when the sections of a packet parse, the numbers of questions and records are those of
  the header, all lie inside the packet (so the counts are bounded by its size), and the data
  of every record is the slice of the packet at the offset the record states.
\<close>

theorem parse_sections_within_packet:
  assumes "parse_sections p = Inr (h, qs, rs, end)"
  shows "length qs = unat (question_count h) \<and> length rs = total_records h \<and>
    12 + 5 * length qs + 11 * length rs \<le> end \<and> end \<le> length p \<and>
    (\<forall>r \<in> set rs. get_range p (rr_rdata_offset r) (rr_next_offset r) = Some (rr_rdata r))"
proof -
  obtain off where rs: "parse_many parse_record rr_next_offset (total_records h) p off = Inr (rs, end)"
    and hp: "header_parse p = Inr h"
    and qs: "parse_many parse_question q_next_offset (unat (question_count h)) p 12 = Inr (qs, off)"
    using assms by (rule parse_sections_records)
  note len = parse_sections_length [OF assms]
  have "12 + 5 * length qs + 11 * length rs \<le> end"
    using questions.parse_many_progress [OF qs] records.parse_many_progress [OF rs] len by simp
  moreover have "end \<le> length p"
    using header_parse_Inr_length [OF hp] questions.parse_many_in_bounds [OF qs]
      records.parse_many_in_bounds [OF rs] by simp
  moreover have "get_range p (rr_rdata_offset r) (rr_next_offset r) = Some (rr_rdata r)"
    if "r \<in> set rs" for r
    using records.parse_many_items [OF rs that] parse_record_bounds by blast
  ultimately show ?thesis using len by blast
qed

theorem parse_sections_within_packet_witness:
  "\<exists>h qs rs end. parse_sections sample_response = Inr (h, qs, rs, end) \<and>
     12 + 5 * length qs + 11 * length rs \<le> end \<and> end \<le> length sample_response"
proof -
  have "is_ok (parse_sections sample_response)" by code_simp
  then obtain h qs rs "end" where p: "parse_sections sample_response = Inr (h, qs, rs, end)"
    by (auto simp: is_ok_iff)
  from parse_sections_within_packet [OF p] p show ?thesis by blast
qed

text \<open>
  C4: a query that \<open>make_query_with_class\<close> builds validates as a query and reads back: its
  header carries the given id with recursion desired, and its first and only question is the
  encoded name with the given type and class.
\<close>

theorem make_query_reads_back:
  assumes "make_query_with_class name t c i = Inr p"
  shows "validate p False = Inr () \<and> header_parse p = Inr (query_header i) \<and>
    (\<exists>q. first_question p = Inr q \<and> q_name q = dns_name_of (presentation_labels name) \<and>
         q_type q = t \<and> q_class q = c \<and> q_next_offset q = length p)"
proof -
  note shape = make_query_with_class_shape [OF assms]
  have "validate p False = Inr ()"
    using validate_single [OF shape(2,3), of "query_header i" t c] by (simp add: shape(1))
  moreover have "first_question p = Inr \<lparr>q_name = dns_name_of (presentation_labels name), q_type = t,
      q_class = c, q_next_offset = 16 + length (wire_of_labels (presentation_labels name))\<rparr>"
    using first_question_bytes [OF shape(2,3), of "query_header i" t c "[]"] shape(3)
    by (simp add: shape(1) usize_limit_def)
  ultimately show ?thesis by (simp add: shape(1))
qed

theorem make_query_reads_back_witness:
  "\<exists>p. make_query_with_class ''a.bc'' 1 1 7 = Inr p \<and> validate p False = Inr () \<and>
     header_parse p = Inr (query_header 7) \<and> map_option q_type (result_ok (first_question p)) = Some 1"
proof -
  have "is_ok (make_query_with_class ''a.bc'' 1 1 7)" by code_simp
  then obtain p where p: "make_query_with_class ''a.bc'' 1 1 7 = Inr p" by (auto simp: is_ok_iff)
  from make_query_reads_back [OF p] p show ?thesis by auto
qed

text \<open>
  C5: for every valid query with an uncompressed question, \<open>servfail_for\<close> and \<open>refused_for\<close>
  return a response that matches the query (same id, same question, valid as a response), with
  response code 2 and 5 respectively, not truncated and without records.
\<close>

theorem error_responses_match:
  assumes "valid_labels ls" and "length (wire_of_labels ls) \<le> 255"
    and "q = plain_query h ls t c rest" and "length q < usize_limit"
    and "validate q False = Inr ()"
  shows "(\<exists>r rh. servfail_for q = Inr r \<and> response_matches q r = Inr () \<and> header_parse r = Inr rh \<and>
            response_code rh = 2 \<and> \<not> truncated rh \<and> total_records rh = 0) \<and>
         (\<exists>r rh. refused_for q = Inr r \<and> response_matches q r = Inr () \<and> header_parse r = Inr rh \<and>
            response_code rh = 5 \<and> \<not> truncated rh \<and> total_records rh = 0)"
  using assms servfail_for_plain [of ls h t c rest] refused_for_plain [of ls h t c rest]
    error_reply_matches [of ls h t c rest 2] error_reply_matches [of ls h t c rest 5]
    reply_header_flags [of 2 h 0] reply_header_flags [of 5 h 0]
  by simp_all

theorem error_responses_match_witness:
  "\<exists>r. servfail_for (plain_query (query_header 7) [[97], [98, 99]] 1 1 []) = Inr r \<and>
     response_matches (plain_query (query_header 7) [[97], [98, 99]] 1 1 []) r = Inr ()"
proof -
  have "validate (plain_query (query_header 7) [[97], [98, 99]] 1 1 []) False = Inr ()"
    by code_simp
  with error_responses_match [of "[[97], [98, 99]]" "plain_query (query_header 7) [[97], [98, 99]] 1 1 []"
      "query_header 7" 1 1 "[]"]
  show ?thesis by (auto simp: usize_limit_def)
qed

text \<open>
  C6: a local response to a valid query with an uncompressed question matches the query, is
  free of errors, and its records are exactly the offered records of the queried type (all of
  them for type ANY), in order, with the query's name, class IN and the given TTL.
\<close>

theorem local_response_answers:
  assumes "valid_labels ls" and "length (wire_of_labels ls) \<le> 255"
    and "q = plain_query h ls t c rest" and "length q < usize_limit"
    and "local_response q rs ttl = Inr r"
  shows "\<exists>rh qs recs rds. response_matches q r = Inr () \<and>
    parse_sections r = Inr (rh, qs, recs, length r) \<and>
    response_code rh = 0 \<and> unat (answer_count rh) = length (local_selected t rs) \<and>
    list_all2 (\<lambda>l rd. local_rdata l = Inr rd) (local_selected t rs) rds \<and>
    map rr_content recs =
      map2 (\<lambda>l rd. (dns_name_of ls, local_rr_type l, CLASS_IN, ttl, rd)) (local_selected t rs) rds"
proof -
  let ?sel = "local_selected t rs" and ?h = "reply_header h 0 (of_nat (length (local_selected t rs)))"
  obtain rds where rds:
    "list_all2 (\<lambda>r rd. local_rdata r = Inr rd \<and> length rd < 65536) ?sel rds"
    and r: "r = plain_query ?h ls t c (concat (map2 (local_record_bytes ttl) ?sel rds))"
    and parse: "parse_sections r = Inr (?h, [\<lparr>q_name = dns_name_of ls, q_type = t, q_class = c,
        q_next_offset = 16 + length (wire_of_labels ls)\<rparr>],
        local_rrs ls ttl (16 + length (wire_of_labels ls)) ?sel rds, length r)"
    and bound: "length r < usize_limit" and val: "validate q False = Inr ()"
    using local_response_plain [OF assms(3,1,2,4,5)] .
  have hq: "question_count h = 1" "opcode h = 0"
    using val validate_query_header [of h] by (simp_all add: assms(3) plain_query_def)
  have "validate r True = Inr ()"
    using hq reply_header_flags [of 0 h] by (simp add: validate_def parse)
  then have "response_matches q r = Inr ()"
    using response_matches_plain [of ls h t c rest ?h] assms bound val by (simp add: r)
  moreover have "length (local_rrs ls ttl (16 + length (wire_of_labels ls)) ?sel rds) = unat (answer_count ?h)"
    using parse_sections_length(1) [OF parse] by simp
  moreover have "length (local_rrs ls ttl off xs ys) = length xs" if "length xs = length ys" for xs ys off
    using that by (induction xs ys arbitrary: off rule: list_induct2) simp_all
  ultimately show ?thesis
    using parse rds reply_header_flags [of 0 h] list_all2_lengthD [OF rds]
    by (intro exI [of _ rds] exI conjI)
       (auto simp: rr_content_local_rrs elim: list_all2_mono)
qed

theorem local_response_answers_witness:
  "\<exists>r rh qs recs. local_response (plain_query (query_header 7) [[97], [98, 99]] 1 1 [])
       [LocalA 5, LocalAaaa 6, LocalA 9] 60 = Inr r \<and>
     parse_sections r = Inr (rh, qs, recs, length r) \<and>
     map rr_type recs = [TYPE_A, TYPE_A] \<and> map rr_ttl recs = [60, 60]"
proof -
  let ?q = "plain_query (query_header 7) [[97], [98, 99]] 1 1 []"
  have "is_ok (local_response ?q [LocalA 5, LocalAaaa 6, LocalA 9] 60)" by code_simp
  then obtain r where r: "local_response ?q [LocalA 5, LocalAaaa 6, LocalA 9] 60 = Inr r"
    by (auto simp: is_ok_iff)
  from local_response_answers [OF _ _ refl _ r] obtain rh qs recs rds where
    p: "parse_sections r = Inr (rh, qs, recs, length r)"
    and rds: "list_all2 (\<lambda>l rd. local_rdata l = Inr rd) [LocalA 5, LocalA 9] rds"
    and c: "map rr_content recs = map2 (\<lambda>l rd. (dns_name_of [[97], [98, 99]], local_rr_type l,
        CLASS_IN, 60, rd)) [LocalA 5, LocalA 9] rds"
    by (auto simp: local_selected_def usize_limit_def)
  from rds obtain a b where "rds = [a, b]" by (auto simp: list_all2_Cons1)
  with c obtain x y where "recs = [x, y]" "rr_type x = 1" "rr_type y = 1" "rr_ttl x = 60" "rr_ttl y = 60"
    by (auto simp: rr_content_def)
  with r p show ?thesis by auto
qed

text \<open>
  C7: ageing succeeds on every packet whose sections parse; it keeps the length, replaces the
  TTL of each record other than OPT by the TTL less the elapsed seconds (0 when stale, and
  never below 0), and changes no byte outside the TTL fields.
\<close>

theorem age_ttls_correct:
  assumes "parse_sections p = Inr (h, qs, rs, end)"
  shows "\<exists>p'. age_ttls p el st = Inr p' \<and> length p' = length p \<and>
    (\<forall>r \<in> set rs. read_u32 p' (rr_ttl_offset r) = Inr (aged_ttl el st r)) \<and>
    (\<forall>j < length p. (\<forall>r \<in> set rs. \<not> (rr_ttl_offset r \<le> j \<and> j < rr_ttl_offset r + 4)) \<longrightarrow>
       p' ! j = p ! j)"
proof -
  obtain off where rs: "parse_many parse_record rr_next_offset (total_records h) p off = Inr (rs, end)"
    using assms by (rule parse_sections_records)
  have "\<forall>r \<in> set rs. read_u32 p (rr_ttl_offset r) = Inr (rr_ttl r)"
    using records.parse_many_items [OF rs] parse_record_ttl by blast
  from write_ttls_correct [OF parse_many_ttl_offsets [OF rs] this] show ?thesis
    by (simp add: age_ttls_def assms)
qed

theorem age_ttls_correct_witness:
  "\<exists>h qs r end p'. parse_sections sample_response = Inr (h, qs, [r], end) \<and>
     age_ttls sample_response 20 False = Inr p' \<and> read_u32 p' (rr_ttl_offset r) = Inr 40"
proof -
  have "case parse_sections sample_response of
      Inr (h, qs, [r], end) \<Rightarrow> rr_ttl r = 60 \<and> rr_type r = 1 | _ \<Rightarrow> False"
    by code_simp
  then obtain h qs r "end" where p: "parse_sections sample_response = Inr (h, qs, [r], end)"
    and r: "rr_ttl r = 60" "rr_type r = 1"
    by (auto split: sum.splits prod.splits list.splits)
  from age_ttls_correct [OF p, of 20 False] r p show ?thesis
    by (auto simp: aged_ttl_def saturating_sub_w_def)
qed

text \<open>
  The lifetime of a positive response without TSIG is the least TTL among its answer
  records other than OPT: it bounds them all, one of them attains it, and there is none only
  when there is no such record. So ageing such a response by less than its lifetime leaves
  every one of those TTLs positive.
\<close>

theorem cache_lifetime_positive:
  assumes "parse_sections p = Inr (h, qs, rs, end)" and "is_response h"
    and "\<forall>r \<in> set rs. rr_type r \<noteq> TYPE_TSIG"
    and "response_code h \<noteq> 3" and "answer_count h \<noteq> 0"
  shows "\<exists>l. cache_lifetime p = Inr l \<and>
    (let answers = filter (\<lambda>r. rr_type r \<noteq> TYPE_OPT) (take (unat (answer_count h)) rs) in
     (l = None \<longleftrightarrow> answers = []) \<and>
     (\<forall>m. l = Some m \<longrightarrow> m \<in> rr_ttl ` set answers \<and> (\<forall>r \<in> set answers. m \<le> rr_ttl r) \<and>
        (\<forall>el < m. \<forall>r \<in> set answers. 0 < aged_ttl el False r)))"
proof -
  let ?take = "take (unat (answer_count h)) rs"
  have "unat (answer_count h) \<le> length rs"
    using parse_sections_length [OF assms(1)] by (simp add: total_records_def)
  then have "get_range_or_default rs 0 (unat (answer_count h)) = ?take"
    by (simp add: get_range_or_default_def get_range_def)
  moreover have "filter (\<lambda>r. rr_type r \<noteq> TYPE_OPT \<and> rr_type r \<noteq> TYPE_TSIG) ?take =
      filter (\<lambda>r. rr_type r \<noteq> TYPE_OPT) ?take"
    using assms(3) by (intro filter_cong) (auto dest: in_set_takeD)
  ultimately have "cache_lifetime p =
      Inr (iter_min (map rr_ttl (filter (\<lambda>r. rr_type r \<noteq> TYPE_OPT) ?take)))"
    using assms by (auto simp: cache_lifetime_def Let_def)
  moreover have "0 < aged_ttl el False r" if "el < m" "m \<le> rr_ttl r" "rr_type r \<noteq> TYPE_OPT" for el m r
    using that unat_saturating_sub_w [of "rr_ttl r" el]
    by (auto simp: aged_ttl_def word_less_nat_alt word_le_nat_alt)
  ultimately show ?thesis
    by (auto simp: Let_def iter_min_Some simp del: TYPE_OPT_def)
qed

theorem cache_lifetime_positive_witness: "cache_lifetime sample_response = Inr (Some 60)"
proof -
  have "case parse_sections sample_response of
      Inr (h, qs, [r], end) \<Rightarrow> rr_ttl r = 60 \<and> rr_type r = 1 \<and> is_response h \<and>
        response_code h \<noteq> 3 \<and> answer_count h = 1 | _ \<Rightarrow> False"
    by code_simp
  then obtain h qs r "end" where p: "parse_sections sample_response = Inr (h, qs, [r], end)"
    and r: "rr_ttl r = 60" "rr_type r = 1" "is_response h" "response_code h \<noteq> 3" "answer_count h = 1"
    by (auto split: sum.splits prod.splits list.splits)
  with cache_lifetime_positive [OF p] show ?thesis by auto
qed

end
