(* ===== verification/Rust_Parse.thy ===== *)
theory Rust_Parse
  imports Rust_Strings
begin

text \<open>
  Integers as text: \<open>from_str_radix\<close> and \<open>parse\<close> of Rust's unsigned types, which accept one
  leading plus sign and refuse the empty string, foreign digits and overflow, and the
  decimal and hexadecimal formatting of the \<open>format!\<close> family.
\<close>

section \<open>Definitions\<close>

definition digit_value :: "nat \<Rightarrow> char \<Rightarrow> nat option" where
  "digit_value radix c =
     (let n = (of_char c :: nat);
          v = (if 48 \<le> n \<and> n \<le> 57 then n - 48
               else if 97 \<le> n \<and> n \<le> 122 then n - 87
               else if 65 \<le> n \<and> n \<le> 90 then n - 55 else 36) in
      if v < radix then Some v else None)"

fun parse_digits :: "nat \<Rightarrow> nat \<Rightarrow> string \<Rightarrow> nat option" where
  "parse_digits radix acc [] = Some acc"
| "parse_digits radix acc (c # cs) =
     (case digit_value radix c of None \<Rightarrow> None | Some d \<Rightarrow> parse_digits radix (acc * radix + d) cs)"

definition from_str_radix :: "nat \<Rightarrow> string \<Rightarrow> 'a::len word option" where
  "from_str_radix radix s =
     (let digits = (case s of [] \<Rightarrow> [] | c # cs \<Rightarrow> if c = CHR ''+'' then cs else s) in
      if digits = [] then None
      else case parse_digits radix 0 digits of None \<Rightarrow> None | Some v \<Rightarrow> try_from_nat v)"

definition hex_char :: "nat \<Rightarrow> char" where
  "hex_char d = char_of (if d < 10 then 48 + d else 87 + d)"

function show_radix :: "nat \<Rightarrow> nat \<Rightarrow> string" where
  "show_radix radix n =
     (if n < radix \<or> radix < 2 then [hex_char n]
      else show_radix radix (n div radix) @ [hex_char (n mod radix)])"
  by pat_completeness auto
termination
  by (relation "measure snd") auto

declare show_radix.simps [simp del]

abbreviation show_dec :: "nat \<Rightarrow> string" where "show_dec \<equiv> show_radix 10"
abbreviation show_hex :: "nat \<Rightarrow> string" where "show_hex \<equiv> show_radix 16"

section \<open>Round trip\<close>

lemma of_hex_char: "d < 16 \<Longrightarrow> (of_char (hex_char d) :: nat) = (if d < 10 then 48 + d else 87 + d)"
  by (simp add: hex_char_def of_char_of)

lemma digit_value_hex_char: "d < radix \<Longrightarrow> radix \<le> 16 \<Longrightarrow> digit_value radix (hex_char d) = Some d"
  by (auto simp: digit_value_def of_hex_char Let_def)

lemma parse_digits_append:
  "parse_digits radix acc (s @ t) =
   (case parse_digits radix acc s of None \<Rightarrow> None | Some v \<Rightarrow> parse_digits radix v t)"
  by (induction radix acc s rule: parse_digits.induct) (auto split: option.splits)

lemma show_radix_small: "n < radix \<Longrightarrow> show_radix radix n = [hex_char n]"
  by (subst show_radix.simps) simp

lemma show_radix_big:
  "radix \<le> n \<Longrightarrow> 2 \<le> radix \<Longrightarrow>
   show_radix radix n = show_radix radix (n div radix) @ [hex_char (n mod radix)]"
  by (subst show_radix.simps) simp

lemma show_radix_chars:
  assumes "2 \<le> radix" and "c \<in> set (show_radix radix n)"
  shows "\<exists>d < radix. c = hex_char d"
  using assms(2)
proof (induction n rule: less_induct)
  case (less n)
  show ?case
  proof (cases "n < radix")
    case True
    with less.prems show ?thesis by (auto simp: show_radix_small)
  next
    case False
    then have "c \<in> set (show_radix radix (n div radix)) \<or> c = hex_char (n mod radix)"
      using less.prems assms(1) by (auto simp: show_radix_big)
    moreover have "n div radix < n" using False assms(1) by simp
    moreover have "n mod radix < radix" using assms(1) by simp
    ultimately show ?thesis using less.IH by blast
  qed
qed

lemma parse_digits_show:
  assumes "2 \<le> radix" and "radix \<le> 16"
  shows "parse_digits radix 0 (show_radix radix n) = Some n"
proof (induction n rule: less_induct)
  case (less n)
  show ?case
  proof (cases "n < radix")
    case True
    then show ?thesis by (simp add: show_radix_small digit_value_hex_char assms)
  next
    case False
    moreover have "n div radix < n" using False assms(1) by simp
    moreover have "n mod radix < radix" using assms(1) by simp
    ultimately show ?thesis
      using less.IH assms by (simp add: show_radix_big parse_digits_append digit_value_hex_char)
  qed
qed

lemma hex_char_plus [simp]: "d < 16 \<Longrightarrow> hex_char d \<noteq> CHR ''+''"
  using of_hex_char [of d] by (auto split: if_splits)

lemma hex_char_dot [simp]: "d < 16 \<Longrightarrow> hex_char d \<noteq> CHR ''.''"
  using of_hex_char [of d] by (auto split: if_splits)

lemma char_lower_hex_char [simp]: "d < 16 \<Longrightarrow> char_lower (hex_char d) = hex_char d"
  using of_hex_char [of d] by (auto simp: char_lower_def Let_def split: if_splits)

lemma show_radix_not_Nil [simp]: "show_radix radix n \<noteq> []"
  by (subst show_radix.simps) auto

lemma show_radix_notin:
  assumes "2 \<le> radix" and "radix \<le> 16"
  shows "CHR ''.'' \<notin> set (show_radix radix n)" and "CHR ''+'' \<notin> set (show_radix radix n)"
  using show_radix_chars [OF assms(1)] assms(2) hex_char_dot hex_char_plus
  by (metis order.strict_trans2)+

lemma show_radix_lower:
  assumes "2 \<le> radix" and "radix \<le> 16"
  shows "to_ascii_lowercase (show_radix radix n) = show_radix radix n"
proof (rule map_idI)
  fix c assume "c \<in> set (show_radix radix n)"
  then show "char_lower c = c"
    using show_radix_chars [OF assms(1)] assms(2) char_lower_hex_char by fastforce
qed

lemma from_str_radix_show:
  assumes "2 \<le> radix" and "radix \<le> 16"
  shows "(from_str_radix radix (show_radix radix n) :: 'a::len word option) = try_from_nat n"
proof -
  obtain c cs where c: "show_radix radix n = c # cs" by (cases "show_radix radix n") auto
  have "c \<noteq> CHR ''+''" using show_radix_notin(2) [OF assms, of n] c by auto
  with c parse_digits_show [OF assms, of n] show ?thesis by (simp add: from_str_radix_def)
qed

lemma from_str_radix_show_unat [simp]:
  "2 \<le> radix \<Longrightarrow> radix \<le> 16 \<Longrightarrow> from_str_radix radix (show_radix radix (unat w)) = Some w"
  using unsigned_less [of w] by (simp add: from_str_radix_show try_from_nat_def)

end
