(* ===== verification/Wire_Records.thy ===== *)
theory Wire_Records
  imports Wire_Packet Rust_Parse "HOL-Library.AList"
begin

text \<open>
  What the resolver reads out of a response: \<open>src/src/wire/records.rs\<close> (answer, service, address
  and pointer records, reverse names) and \<open>src/src/wire/redirects.rs\<close> (classification of CNAME
  and DNAME chains). A \<open>HashMap\<close> is an association list, of which only lookup, key set and
  update are used. The loops over redirects are recursive functions; the chain a loop follows
  is specified by the inductive relation \<open>redirect_path\<close>.
\<close>

section \<open>The loop over answer records\<close>

text \<open>\<open>for _ in 0..count { let record = parse_record(packet, offset)?; offset = record.next_offset; ... }\<close>\<close>

fun for_records ::
  "nat \<Rightarrow> bytes \<Rightarrow> nat \<Rightarrow> (resource_record \<Rightarrow> 'a \<Rightarrow> wire_error + 'a) \<Rightarrow> 'a \<Rightarrow> wire_error + 'a" where
  "for_records 0 packet offset body acc = Inr acc"
| "for_records (Suc n) packet offset body acc =
     rbind (parse_record packet offset) (\<lambda>record.
     rbind (body record acc) (for_records n packet (rr_next_offset record) body))"

record answer_record =
  ar_name :: dns_name
  ar_type :: u16
  ar_class :: u16
  ar_ttl :: u32
  ar_raw :: bytes

record srv_record =
  srv_priority :: u16
  srv_weight :: u16
  srv_port :: u16
  srv_target :: dns_name

record service_records =
  sr_srv :: "srv_record list"
  sr_txt :: "bytes list"

definition answer_record_of :: "resource_record \<Rightarrow> wire_error + answer_record" where
  "answer_record_of record =
     rbind (ok_or (try_from_nat (length (rr_rdata record))) InvalidRecord) (\<lambda>len.
     Inr \<lparr>ar_name = rr_name record, ar_type = rr_type record, ar_class = rr_class record,
          ar_ttl = rr_ttl record,
          ar_raw = canonical_wire (rr_name record) @ u16_to_be (rr_type record) @
            u16_to_be (rr_class record) @ u32_to_be (rr_ttl record) @ u16_to_be len @
            rr_rdata record\<rparr>)"

definition extract_answer_records :: "bytes \<Rightarrow> wire_error + answer_record list" where
  "extract_answer_records packet =
     rbind (header_parse packet) (\<lambda>header.
       if \<not> is_response header then Inl WrongDirection
       else
         rbind (skip_questions (unat (question_count header)) packet DNS_HEADER_LEN) (\<lambda>offset.
         for_records (unat (answer_count header)) packet offset
           (\<lambda>record output. rbind (answer_record_of record) (\<lambda>a. Inr (output @ [a]))) []))"

function txt_items :: "bytes \<Rightarrow> nat \<Rightarrow> nat \<Rightarrow> bytes list \<Rightarrow> wire_error + bytes list" where
  "txt_items packet cursor next_offset txt =
     (if cursor < next_offset then
        rbind (ok_or (get_at packet cursor) ShortPacket) (\<lambda>len.
        rbind (checked_end cursor 1) (\<lambda>cursor.
        rbind (checked_end cursor (unat len)) (\<lambda>end.
        rbind (ok_or (if end \<le> next_offset then get_range packet cursor end else None)
                 InvalidRecord) (\<lambda>item.
        txt_items packet end next_offset (if item = [] then txt else txt @ [item])))))
      else Inr txt)"
  by pat_completeness auto
termination
  by (relation "measure (\<lambda>(_, cursor, next_offset, _). next_offset - cursor)")
     (auto simp: result_simps)

declare txt_items.simps [simp del]

definition read_srv :: "bytes \<Rightarrow> resource_record \<Rightarrow> wire_error + srv_record" where
  "read_srv packet record =
     (if length (rr_rdata record) < 7 then Inl InvalidRecord
      else
        rbind (checked_end (rr_rdata_offset record) 6) (\<lambda>target_offset.
        rbind (read_name packet target_offset) (\<lambda>(target, target_end).
          if target_end \<noteq> rr_next_offset record then Inl InvalidRecord
          else
            rbind (read_u16 packet (rr_rdata_offset record)) (\<lambda>priority.
            rbind (read_u16 packet (rr_rdata_offset record + 2)) (\<lambda>weight.
            rbind (read_u16 packet (rr_rdata_offset record + 4)) (\<lambda>port.
            Inr \<lparr>srv_priority = priority, srv_weight = weight, srv_port = port,
                 srv_target = target\<rparr>))))))"

definition service_step ::
  "bytes \<Rightarrow> resource_record \<Rightarrow> service_records \<Rightarrow> wire_error + service_records" where
  "service_step packet record output =
     (if rr_class record \<noteq> CLASS_IN then Inr output
      else if rr_type record = TYPE_SRV then
        rbind (read_srv packet record) (\<lambda>srv. Inr (output\<lparr>sr_srv := sr_srv output @ [srv]\<rparr>))
      else if rr_type record = TYPE_TXT then
        rbind (txt_items packet (rr_rdata_offset record) (rr_next_offset record) (sr_txt output))
          (\<lambda>txt. Inr (output\<lparr>sr_txt := txt\<rparr>))
      else Inr output)"

definition extract_service_records :: "bytes \<Rightarrow> wire_error + service_records" where
  "extract_service_records packet =
     rbind (header_parse packet) (\<lambda>header.
       if \<not> is_response header then Inl WrongDirection
       else
         rbind (skip_questions (unat (question_count header)) packet DNS_HEADER_LEN) (\<lambda>offset.
         for_records (unat (answer_count header)) packet offset (service_step packet)
           \<lparr>sr_srv = [], sr_txt = []\<rparr>))"

section \<open>Redirects\<close>

type_synonym redirect_map = "(bytes \<times> dns_name) list"

definition insert_redirect ::
  "bytes \<Rightarrow> resource_record \<Rightarrow> bytes \<Rightarrow> redirect_map \<Rightarrow> wire_error + redirect_map" where
  "insert_redirect packet record owner redirects =
     rbind (read_name packet (rr_rdata_offset record)) (\<lambda>(target, end).
       if end \<noteq> rr_next_offset record then Inl InvalidRecord
       else case map_of redirects owner of
         Some existing \<Rightarrow>
           if canonical_wire existing \<noteq> canonical_wire target then Inl InvalidRecord
           else Inr redirects
       | None \<Rightarrow> Inr (AList.update owner target redirects))"

definition rewrite_dname_text :: "string \<Rightarrow> nat \<Rightarrow> string \<Rightarrow> wire_error + string" where
  "rewrite_dname_text current prefix_labels target =
     (let labels = (if current = ''.'' then [] else split_on (CHR ''.'') current) in
      rbind (ok_or (get_range labels 0 prefix_labels) InvalidRecord) (\<lambda>ls.
      let prefix = join_with ''.'' ls in
      Inr (if prefix = [] then (if target = ''.'' then ''.'' else target)
           else (if target = ''.'' then prefix else prefix @ ''.'' @ target))))"

definition dname_target :: "dns_name \<Rightarrow> nat \<Rightarrow> nat \<Rightarrow> dns_name \<Rightarrow> wire_error + dns_name" where
  "dname_target current suffix_offset prefix_labels target =
     (let prefix = take suffix_offset (canonical_wire current) in
      rbind (ok_or (checked_add_usize (length prefix) (length (canonical_wire target))) NameTooLong) (\<lambda>len.
        if len > 255 then Inl NameTooLong
        else
          rbind (rewrite_dname_text (name_text current) prefix_labels (name_text target)) (\<lambda>text.
          Inr \<lparr>name_text = text, canonical_wire = prefix @ canonical_wire target\<rparr>)))"

function rewrite_dname_loop ::
  "dns_name \<Rightarrow> redirect_map \<Rightarrow> nat \<Rightarrow> nat \<Rightarrow> wire_error + dns_name option" where
  "rewrite_dname_loop current dnames suffix_offset prefix_labels =
     (case map_of dnames (drop suffix_offset (canonical_wire current)) of
        Some target \<Rightarrow>
          rbind (dname_target current suffix_offset prefix_labels target) (\<lambda>t. Inr (Some t))
      | None \<Rightarrow>
          rbind (ok_or (get_at (canonical_wire current) suffix_offset) InvalidRecord) (\<lambda>label_length.
            if label_length = 0 then Inr None
            else if label_length > 63 then Inl InvalidRecord
            else
              rbind (ok_or (checked_add_usize suffix_offset (unat label_length + 1)) NameTooLong) (\<lambda>suffix_offset.
                if suffix_offset \<ge> length (canonical_wire current) then Inl InvalidRecord
                else rewrite_dname_loop current dnames suffix_offset (prefix_labels + 1))))"
  by pat_completeness auto
termination
  by (relation "measure (\<lambda>(current, _, suffix_offset, _). length (canonical_wire current) - suffix_offset)")
     (auto simp: result_simps get_at_Some)

declare rewrite_dname_loop.simps [simp del]

definition rewrite_dname :: "dns_name \<Rightarrow> redirect_map \<Rightarrow> wire_error + dns_name option" where
  "rewrite_dname current dnames = rewrite_dname_loop current dnames 0 0"

function rewrite_covering_loop ::
  "dns_name \<Rightarrow> redirect_map \<Rightarrow> nat \<Rightarrow> nat \<Rightarrow> wire_error + dns_name option" where
  "rewrite_covering_loop current dnames suffix_offset prefix_labels =
     (if suffix_offset \<ge> length (canonical_wire current) then Inl InvalidRecord
      else case map_of dnames (drop suffix_offset (canonical_wire current)) of
        Some target \<Rightarrow>
          rbind (dname_target current suffix_offset prefix_labels target) (\<lambda>t. Inr (Some t))
      | None \<Rightarrow>
          rbind (ok_or (get_at (canonical_wire current) suffix_offset) InvalidRecord) (\<lambda>label_length.
            if label_length = 0 then Inr None
            else if label_length > 63 then Inl InvalidRecord
            else
              rbind (ok_or (checked_add_usize suffix_offset (unat label_length + 1)) NameTooLong) (\<lambda>suffix_offset.
              rewrite_covering_loop current dnames suffix_offset (prefix_labels + 1))))"
  by pat_completeness auto
termination
  by (relation "measure (\<lambda>(current, _, suffix_offset, _). length (canonical_wire current) - suffix_offset)")
     (auto simp: result_simps get_at_Some)

declare rewrite_covering_loop.simps [simp del]

definition rewrite_covering_dname :: "dns_name \<Rightarrow> redirect_map \<Rightarrow> wire_error + dns_name option" where
  "rewrite_covering_dname current dnames =
     rbind (ok_or (get_at (canonical_wire current) 0) InvalidRecord) (\<lambda>first_label.
       if first_label = 0 \<or> first_label > 63 then Inr None
       else
         rbind (ok_or (checked_add_usize (unat first_label) 1) NameTooLong) (\<lambda>suffix_offset.
         rewrite_covering_loop current dnames suffix_offset 1))"

definition CNAME_REDIRECTS_MAX :: nat where "CNAME_REDIRECTS_MAX = 16"
definition MAX_REDIRECT_CHAIN :: nat where "MAX_REDIRECT_CHAIN = 64"

datatype redirect_answer =
    RedirectDirect string nat
  | RedirectTo string nat
  | RedirectNoData

function classify_redirect_loop ::
  "dns_name \<Rightarrow> bytes list \<Rightarrow> redirect_map \<Rightarrow> redirect_map \<Rightarrow> bytes list \<Rightarrow> nat
   \<Rightarrow> wire_error + redirect_answer" where
  "classify_redirect_loop current direct aliases dnames visited redirects =
     (if canonical_wire current \<in> set visited then Inl CnameLoop
      else if canonical_wire current \<in> set direct
        then Inr (RedirectDirect (name_text current) redirects)
      else
        rbind (case map_of aliases (canonical_wire current) of
                 Some target \<Rightarrow> Inr (Some target)
               | None \<Rightarrow> rewrite_covering_dname current dnames) (\<lambda>target.
          case target of
            None \<Rightarrow> (if redirects = 0 then Inr RedirectNoData
                     else Inr (RedirectTo (name_text current) redirects))
          | Some target \<Rightarrow>
              (if redirects \<ge> CNAME_REDIRECTS_MAX then Inl CnameLoop
               else classify_redirect_loop target direct aliases dnames
                      (canonical_wire current # visited) (redirects + 1))))"
  by pat_completeness auto
termination
  by (relation "measure (\<lambda>(_, _, _, _, _, redirects). CNAME_REDIRECTS_MAX - redirects)") auto

declare classify_redirect_loop.simps [simp del]

definition classify_redirect_chain ::
  "dns_name \<Rightarrow> bytes list \<Rightarrow> redirect_map \<Rightarrow> redirect_map \<Rightarrow> wire_error + redirect_answer" where
  "classify_redirect_chain current direct aliases dnames =
     classify_redirect_loop current direct aliases dnames [] 0"

definition redirect_step ::
  "bytes \<Rightarrow> question \<Rightarrow> resource_record \<Rightarrow> bytes list \<times> redirect_map \<times> redirect_map
   \<Rightarrow> wire_error + bytes list \<times> redirect_map \<times> redirect_map" where
  "redirect_step packet question record = (\<lambda>(direct, aliases, dnames).
     if q_class question \<noteq> CLASS_ANY \<and> rr_class record \<noteq> q_class question
     then Inr (direct, aliases, dnames)
     else
       let owner = canonical_wire (rr_name record) in
       if q_type question = TYPE_ANY \<or> rr_type record = q_type question
       then Inr (push_new direct owner, aliases, dnames)
       else if rr_type record = TYPE_CNAME then
         rbind (insert_redirect packet record owner aliases) (\<lambda>aliases. Inr (direct, aliases, dnames))
       else if rr_type record = TYPE_DNAME then
         rbind (insert_redirect packet record owner dnames) (\<lambda>dnames. Inr (direct, aliases, dnames))
       else Inr (direct, aliases, dnames))"

definition classify_redirect_answer :: "bytes \<Rightarrow> wire_error + redirect_answer" where
  "classify_redirect_answer packet =
     rbind (header_parse packet) (\<lambda>header.
       if \<not> is_response header then Inl WrongDirection
       else if question_count header \<noteq> 1 then Inl (WrongQuestionCount (question_count header))
       else if response_code header \<noteq> 0 then Inr RedirectNoData
       else
         rbind (parse_question packet DNS_HEADER_LEN) (\<lambda>question.
         rbind (for_records (unat (answer_count header)) packet (q_next_offset question)
                  (redirect_step packet question) ([], [], [])) (\<lambda>(direct, aliases, dnames).
           if list_ex (\<lambda>owner. owner \<in> set direct \<or> owner \<in> set (map fst dnames)) (map fst aliases)
           then Inl InvalidRecord
           else classify_redirect_chain (q_name question) direct aliases dnames)))"

section \<open>Addresses\<close>

record address_records =
  adr_addresses :: "ip_addr list"
  adr_canonical_name :: string

record address_answer_set =
  ans_aliases :: redirect_map
  ans_dnames :: redirect_map
  ans_addresses :: "(bytes \<times> ip_addr list) list"

definition insert_address ::
  "address_answer_set \<Rightarrow> bytes \<Rightarrow> ip_addr \<Rightarrow> address_answer_set" where
  "insert_address output owner address =
     (let values = (case map_of (ans_addresses output) owner of None \<Rightarrow> [] | Some vs \<Rightarrow> vs) in
      output\<lparr>ans_addresses := AList.update owner (push_new values address) (ans_addresses output)\<rparr>)"

definition address_step ::
  "bytes \<Rightarrow> resource_record \<Rightarrow> address_answer_set \<Rightarrow> wire_error + address_answer_set" where
  "address_step packet record output =
     (if rr_class record \<noteq> CLASS_IN then Inr output
      else
        let owner = canonical_wire (rr_name record) in
        if rr_type record = TYPE_CNAME then
          rbind (insert_redirect packet record owner (ans_aliases output))
            (\<lambda>m. Inr (output\<lparr>ans_aliases := m\<rparr>))
        else if rr_type record = TYPE_DNAME then
          rbind (insert_redirect packet record owner (ans_dnames output))
            (\<lambda>m. Inr (output\<lparr>ans_dnames := m\<rparr>))
        else if rr_type record = TYPE_A then
          (case rr_rdata record of
             [a, b, c, d] \<Rightarrow> Inr (insert_address output owner (V4 (ipv4_new a b c d)))
           | _ \<Rightarrow> Inl InvalidRecord)
        else if rr_type record = TYPE_AAAA then
          (if length (rr_rdata record) = 16
           then Inr (insert_address output owner (V6 (v6_from_octets (rr_rdata record))))
           else Inl InvalidRecord)
        else Inr output)"

definition parse_address_answers :: "bytes \<Rightarrow> u16 \<Rightarrow> nat \<Rightarrow> wire_error + address_answer_set" where
  "parse_address_answers packet count offset =
     rbind (for_records (unat count) packet offset (address_step packet)
              \<lparr>ans_aliases = [], ans_dnames = [], ans_addresses = []\<rparr>) (\<lambda>output.
       if list_ex (\<lambda>owner. owner \<in> set (map fst (ans_addresses output)) \<or>
                           owner \<in> set (map fst (ans_dnames output)))
            (map fst (ans_aliases output))
       then Inl InvalidRecord else Inr output)"

definition family_matches :: "int option \<Rightarrow> ip_addr \<Rightarrow> bool" where
  "family_matches family address =
     (case family of None \<Rightarrow> True
      | Some f \<Rightarrow> (case address of V4 _ \<Rightarrow> f = 2 | V6 _ \<Rightarrow> f = 10))"

fun resolve_address_loop ::
  "nat \<Rightarrow> dns_name \<Rightarrow> bytes list \<Rightarrow> address_answer_set \<Rightarrow> int option \<Rightarrow> wire_error + address_records" where
  "resolve_address_loop 0 current visited answers family = Inl InvalidRecord"
| "resolve_address_loop (Suc n) current visited answers family =
     (if canonical_wire current \<in> set visited then Inl InvalidRecord
      else case map_of (ans_aliases answers) (canonical_wire current) of
        Some target \<Rightarrow>
          resolve_address_loop n target (canonical_wire current # visited) answers family
      | None \<Rightarrow>
          rbind (rewrite_dname current (ans_dnames answers)) (\<lambda>target.
            case target of
              Some target \<Rightarrow>
                resolve_address_loop n target (canonical_wire current # visited) answers family
            | None \<Rightarrow>
                Inr \<lparr>adr_addresses =
                       filter (family_matches family)
                         (case map_of (ans_addresses answers) (canonical_wire current) of
                            None \<Rightarrow> [] | Some vs \<Rightarrow> vs),
                     adr_canonical_name = name_text current\<rparr>))"

definition resolve_address_chain ::
  "dns_name \<Rightarrow> address_answer_set \<Rightarrow> int option \<Rightarrow> wire_error + address_records" where
  "resolve_address_chain question answers family =
     resolve_address_loop MAX_REDIRECT_CHAIN question [] answers family"

definition extract_address_records :: "bytes \<Rightarrow> int option \<Rightarrow> wire_error + address_records" where
  "extract_address_records packet family =
     rbind (header_parse packet) (\<lambda>header.
       if \<not> is_response header then Inl WrongDirection
       else if question_count header \<noteq> 1 then Inl (WrongQuestionCount (question_count header))
       else
         rbind (parse_question packet DNS_HEADER_LEN) (\<lambda>question.
         rbind (parse_address_answers packet (answer_count header) (q_next_offset question))
           (\<lambda>answers. resolve_address_chain (q_name question) answers family)))"

definition extract_addresses :: "bytes \<Rightarrow> int option \<Rightarrow> wire_error + ip_addr list" where
  "extract_addresses packet family =
     rbind (extract_address_records packet family) (\<lambda>r. Inr (adr_addresses r))"

section \<open>Reverse names\<close>

definition ptr_step :: "bytes \<Rightarrow> resource_record \<Rightarrow> string list \<Rightarrow> wire_error + string list" where
  "ptr_step packet record output =
     (if rr_class record = CLASS_IN \<and> rr_type record = TYPE_PTR then
        rbind (read_name packet (rr_rdata_offset record)) (\<lambda>(name, _). Inr (output @ [name_text name]))
      else Inr output)"

definition extract_ptr_names :: "bytes \<Rightarrow> wire_error + string list" where
  "extract_ptr_names packet =
     rbind (header_parse packet) (\<lambda>header.
       if \<not> is_response header then Inl WrongDirection
       else
         rbind (skip_questions (unat (question_count header)) packet DNS_HEADER_LEN) (\<lambda>offset.
         for_records (unat (answer_count header)) packet offset (ptr_step packet) []))"

definition show_u8 :: "u8 \<Rightarrow> string" where
  "show_u8 b = show_dec (unat b)"

definition reverse_name :: "ip_addr \<Rightarrow> string" where
  "reverse_name address =
     (case address of
        V4 a \<Rightarrow> (let octets = v4_octets a in
          show_u8 (octets ! 3) @ ''.'' @ show_u8 (octets ! 2) @ ''.'' @ show_u8 (octets ! 1) @
          ''.'' @ show_u8 (octets ! 0) @ ''.in-addr.arpa'')
      | V6 a \<Rightarrow>
          concat (map (\<lambda>byte. show_hex (unat (byte AND 0x0f)) @ ''.'' @
                              show_hex (unat (drop_bit 4 byte)) @ ''.'') (rev (v6_octets a)))
          @ ''ip6.arpa'')"

fun collect_options :: "'a option list \<Rightarrow> 'a list option" where
  "collect_options [] = Some []"
| "collect_options (None # xs) = None"
| "collect_options (Some x # xs) = map_option (Cons x) (collect_options xs)"

fun join_nibbles :: "u8 list \<Rightarrow> bytes" where
  "join_nibbles (lo # hi # rest) = (lo OR push_bit 4 hi) # join_nibbles rest"
| "join_nibbles _ = []"

definition parse_reverse_name :: "string \<Rightarrow> ip_addr option" where
  "parse_reverse_name name =
     (let lower = to_ascii_lowercase (trim_end_matches (CHR ''.'') name) in
      case strip_suffix ''.in-addr.arpa'' lower of
        Some prefix \<Rightarrow>
          (case collect_options (map (from_str_radix 10) (split_on (CHR ''.'') prefix)) of
             Some [d, c, b, a] \<Rightarrow> Some (V4 (ipv4_new a b c d))
           | _ \<Rightarrow> None)
      | None \<Rightarrow>
          (case strip_suffix ''.ip6.arpa'' lower of
             Some prefix \<Rightarrow>
               (case collect_options (map (from_str_radix 16) (split_on (CHR ''.'') prefix)) of
                  None \<Rightarrow> None
                | Some nibbles \<Rightarrow>
                    if length nibbles \<noteq> 32 \<or> list_ex (\<lambda>nibble. nibble > 0x0f) nibbles then None
                    else Some (V6 (v6_from_octets (rev (join_nibbles nibbles)))))
           | None \<Rightarrow> None))"

section \<open>The loop over records as a fold\<close>

fun fold_result :: "('b \<Rightarrow> 'a \<Rightarrow> 'e + 'a) \<Rightarrow> 'b list \<Rightarrow> 'a \<Rightarrow> 'e + 'a" where
  "fold_result f [] acc = Inr acc"
| "fold_result f (x # xs) acc = rbind (f x acc) (fold_result f xs)"

lemma for_records_Inr:
  "for_records n p off f acc = Inr res \<longleftrightarrow>
   (\<exists>rs end. parse_many parse_record rr_next_offset n p off = Inr (rs, end) \<and>
             fold_result f rs acc = Inr res)"
proof (induction n arbitrary: off acc)
  case 0
  then show ?case by simp
next
  case (Suc n)
  show ?case
  proof
    assume "for_records (Suc n) p off f acc = Inr res"
    then obtain r acc' where "parse_record p off = Inr r" "f r acc = Inr acc'"
      "for_records n p (rr_next_offset r) f acc' = Inr res"
      by (auto simp: rbind_eq_Inr)
    with Suc.IH [of "rr_next_offset r" acc'] show "\<exists>rs end.
        parse_many parse_record rr_next_offset (Suc n) p off = Inr (rs, end) \<and> fold_result f rs acc = Inr res"
      by fastforce
  next
    assume "\<exists>rs end. parse_many parse_record rr_next_offset (Suc n) p off = Inr (rs, end) \<and>
      fold_result f rs acc = Inr res"
    then obtain r rs' "end" acc' where "parse_record p off = Inr r" "f r acc = Inr acc'"
      "parse_many parse_record rr_next_offset n p (rr_next_offset r) = Inr (rs', end)"
      "fold_result f rs' acc' = Inr res"
      by (auto simp: rbind_eq_Inr)
    with Suc.IH [of "rr_next_offset r" acc'] show "for_records (Suc n) p off f acc = Inr res"
      by auto
  qed
qed

lemma fold_result_append:
  "fold_result f (xs @ ys) acc = rbind (fold_result f xs acc) (fold_result f ys)"
  by (induction xs arbitrary: acc) (auto simp: rbind_assoc intro!: rbind_cong)

lemma fold_result_invariant:
  assumes "fold_result f xs acc = Inr res" and "P acc"
    and "\<And>x a b. x \<in> set xs \<Longrightarrow> P a \<Longrightarrow> f x a = Inr b \<Longrightarrow> P b"
  shows "P res"
  using assms by (induction xs arbitrary: acc) (auto simp: rbind_eq_Inr)

section \<open>DNAME rewriting works on whole labels\<close>

definition labels_size :: "bytes list \<Rightarrow> nat" where
  "labels_size ls = sum_list (map (\<lambda>l. Suc (length l)) ls)"

lemma labels_size_simps [simp]:
  "labels_size [] = 0" "labels_size (l # ls) = Suc (length l + labels_size ls)"
  "labels_size (xs @ ys) = labels_size xs + labels_size ys"
  by (simp_all add: labels_size_def)

lemma length_wire_labels_size: "length (wire_of_labels ls) = Suc (labels_size ls)"
  by (simp add: length_wire_of_labels labels_size_def)

lemma wire_not_Nil [simp]: "wire_of_labels ls \<noteq> []"
  by (simp add: wire_of_labels_def)

lemma wire_of_labels_append:
  "wire_of_labels (xs @ ys) = butlast (wire_of_labels xs) @ wire_of_labels ys"
  by (simp add: wire_of_labels_def)

lemma length_butlast_wire [simp]: "length (butlast (wire_of_labels xs)) = labels_size xs"
  by (simp add: length_wire_labels_size)

lemma drop_labels_size: "drop (labels_size xs) (wire_of_labels (xs @ ys)) = wire_of_labels ys"
  by (metis append_eq_conv_conj length_butlast_wire wire_of_labels_append)

lemma take_labels_size: "take (labels_size xs) (wire_of_labels (xs @ ys)) = butlast (wire_of_labels xs)"
  by (metis append_eq_conv_conj length_butlast_wire wire_of_labels_append)

lemma get_at_labels_size:
  "get_at (wire_of_labels (xs @ ys)) (labels_size xs) = get_at (wire_of_labels ys) 0"
  using get_at_append_plus [of "butlast (wire_of_labels xs)" "wire_of_labels ys" 0]
  by (simp only: wire_of_labels_append length_butlast_wire add_0_right)

lemma wire_label_length:
  "1 \<le> length l \<Longrightarrow> length l \<le> 63 \<Longrightarrow>
   (of_nat (length l) :: u8) \<noteq> 0 \<and> \<not> (63 :: u8) < of_nat (length l)"
  using unat_label_length [of l] by (auto simp: word_less_nat_alt)

text \<open>The suffixes of a name in the order the loop visits them.\<close>

definition first_dname :: "redirect_map \<Rightarrow> bytes list \<Rightarrow> nat \<Rightarrow> nat option" where
  "first_dname dnames ls start =
     find (\<lambda>i. map_of dnames (wire_of_labels (drop i ls)) \<noteq> None) [start..<Suc (length ls)]"

definition dname_rewrite_at ::
  "dns_name \<Rightarrow> redirect_map \<Rightarrow> bytes list \<Rightarrow> nat option \<Rightarrow> wire_error + dns_name option" where
  "dname_rewrite_at current dnames ls found =
     (case found of
        None \<Rightarrow> Inr None
      | Some i \<Rightarrow>
          rbind (dname_target current (labels_size (take i ls)) i
                   (the (map_of dnames (wire_of_labels (drop i ls))))) (\<lambda>t. Inr (Some t)))"

lemma first_dname_step:
  assumes "i \<le> length ls"
  shows "first_dname dnames ls i =
    (if map_of dnames (wire_of_labels (drop i ls)) \<noteq> None then Some i
     else if i = length ls then None else first_dname dnames ls (Suc i))"
proof -
  have "[i..<Suc (length ls)] = i # [Suc i..<Suc (length ls)]"
    using assms by (simp add: upt_rec)
  then show ?thesis by (simp add: first_dname_def)
qed

lemma label_step:
  assumes "valid_labels ls" and "i < length ls"
  shows "get_at (wire_of_labels ls) (labels_size (take i ls)) = Some (of_nat (length (ls ! i)))"
    and "1 \<le> length (ls ! i)" and "length (ls ! i) \<le> 63"
    and "labels_size (take (Suc i) ls) = labels_size (take i ls) + (length (ls ! i) + 1)"
    and "labels_size (take (Suc i) ls) \<le> labels_size ls"
proof -
  have d: "drop i ls = ls ! i # drop (Suc i) ls" using assms(2) by (simp add: Cons_nth_drop_Suc)
  have "get_at (wire_of_labels (drop i ls)) 0 = Some (of_nat (length (ls ! i)))"
    by (simp add: d get_at_def)
  then show "get_at (wire_of_labels ls) (labels_size (take i ls)) = Some (of_nat (length (ls ! i)))"
    using get_at_labels_size [of "take i ls" "drop i ls"] by simp
  show "1 \<le> length (ls ! i)" "length (ls ! i) \<le> 63"
    using assms by (auto simp: valid_labels_def)
  show "labels_size (take (Suc i) ls) = labels_size (take i ls) + (length (ls ! i) + 1)"
    using assms(2) by (simp add: take_Suc_conv_app_nth)
  have "labels_size ls = labels_size (take (Suc i) ls) + labels_size (drop (Suc i) ls)"
    by (metis append_take_drop_id labels_size_simps(3))
  then show "labels_size (take (Suc i) ls) \<le> labels_size ls" by simp
qed

lemma suffix_at: "drop (labels_size (take i ls)) (wire_of_labels ls) = wire_of_labels (drop i ls)"
  using drop_labels_size [of "take i ls" "drop i ls"] by simp

lemma dname_loops_end:
  assumes "canonical_wire current = wire_of_labels ls"
  shows "rewrite_covering_loop current dnames (labels_size ls) (length ls) =
           dname_rewrite_at current dnames ls (first_dname dnames ls (length ls))"
    and "rewrite_dname_loop current dnames (labels_size ls) (length ls) =
           dname_rewrite_at current dnames ls (first_dname dnames ls (length ls))"
proof -
  have "get_at (wire_of_labels ls) (labels_size ls) = Some 0"
    using get_at_labels_size [of ls "[]"] by (simp add: get_at_def)
  moreover have "drop (labels_size ls) (wire_of_labels ls) = [0]"
    using drop_labels_size [of ls "[]"] by simp
  ultimately show "rewrite_covering_loop current dnames (labels_size ls) (length ls) =
      dname_rewrite_at current dnames ls (first_dname dnames ls (length ls))"
    and "rewrite_dname_loop current dnames (labels_size ls) (length ls) =
      dname_rewrite_at current dnames ls (first_dname dnames ls (length ls))"
    using assms
    by (subst rewrite_covering_loop.simps rewrite_dname_loop.simps,
        simp add: first_dname_step dname_rewrite_at_def length_wire_labels_size split: option.splits)+
qed

lemma dname_loops_step:
  assumes wire: "canonical_wire current = wire_of_labels ls" and valid: "valid_labels ls"
    and len: "length (wire_of_labels ls) \<le> 255" and i: "i < length ls"
    and none: "map_of dnames (wire_of_labels (drop i ls)) = None"
  shows "rewrite_covering_loop current dnames (labels_size (take i ls)) i =
           rewrite_covering_loop current dnames (labels_size (take (Suc i) ls)) (Suc i)"
    and "rewrite_dname_loop current dnames (labels_size (take i ls)) i =
           rewrite_dname_loop current dnames (labels_size (take (Suc i) ls)) (Suc i)"
proof -
  note step = label_step [OF valid i]
  have bounds: "labels_size (take i ls) < length (wire_of_labels ls)"
    "\<not> length (wire_of_labels ls) \<le> labels_size (take i ls) + (length (ls ! i) + 1)"
    "labels_size (take i ls) + (length (ls ! i) + 1) < usize_limit"
    using step(4,5) len by (simp_all add: length_wire_labels_size usize_limit_def)
  have word: "unat (of_nat (length (ls ! i)) :: u8) = length (ls ! i)"
    "(of_nat (length (ls ! i)) :: u8) \<noteq> 0" "\<not> (63 :: u8) < of_nat (length (ls ! i))"
    using step(2,3) unat_label_length wire_label_length by blast+
  show "rewrite_covering_loop current dnames (labels_size (take i ls)) i =
           rewrite_covering_loop current dnames (labels_size (take (Suc i) ls)) (Suc i)"
    unfolding step(4) using bounds
    by (subst rewrite_covering_loop.simps)
       (simp add: wire suffix_at none step(1) word checked_add_usize_def)
  show "rewrite_dname_loop current dnames (labels_size (take i ls)) i =
           rewrite_dname_loop current dnames (labels_size (take (Suc i) ls)) (Suc i)"
    unfolding step(4) using bounds
    by (subst rewrite_dname_loop.simps)
       (simp add: wire suffix_at none step(1) word checked_add_usize_def)
qed

lemma dname_loops_labels:
  assumes wire: "canonical_wire current = wire_of_labels ls" and valid: "valid_labels ls"
    and len: "length (wire_of_labels ls) \<le> 255" and i: "i \<le> length ls"
  shows "rewrite_covering_loop current dnames (labels_size (take i ls)) i =
           dname_rewrite_at current dnames ls (first_dname dnames ls i) \<and>
         rewrite_dname_loop current dnames (labels_size (take i ls)) i =
           dname_rewrite_at current dnames ls (first_dname dnames ls i)"
  using i
proof (induction i rule: inc_induct)
  case base
  then show ?case using dname_loops_end [OF wire] by simp
next
  case (step i)
  show ?case
  proof (cases "map_of dnames (wire_of_labels (drop i ls))")
    case None
    with step show ?thesis
      using dname_loops_step [OF wire valid len _ None] by (simp add: first_dname_step [of i])
  next
    case (Some t)
    have "\<not> length (wire_of_labels ls) \<le> labels_size (take i ls)"
      using label_step(4,5) [OF valid step.hyps(2)] by (simp add: length_wire_labels_size)
    with Some step show ?thesis
      by (subst rewrite_covering_loop.simps, subst rewrite_dname_loop.simps)
         (simp add: wire suffix_at first_dname_step [of i] dname_rewrite_at_def)
  qed
qed

lemma rewrite_dname_labels:
  assumes "canonical_wire current = wire_of_labels ls" and "valid_labels ls"
    and "length (wire_of_labels ls) \<le> 255"
  shows "rewrite_dname current dnames = dname_rewrite_at current dnames ls (first_dname dnames ls 0)"
  using dname_loops_labels [OF assms, of 0 dnames] by (simp add: rewrite_dname_def)

lemma rewrite_covering_labels:
  assumes "canonical_wire current = wire_of_labels ls" and "valid_labels ls"
    and "length (wire_of_labels ls) \<le> 255"
  shows "rewrite_covering_dname current dnames =
    dname_rewrite_at current dnames ls (first_dname dnames ls 1)"
proof (cases ls)
  case Nil
  with assms(1) show ?thesis
    by (simp add: rewrite_covering_dname_def get_at_def first_dname_def dname_rewrite_at_def)
next
  case (Cons l rest)
  then have l: "1 \<le> length l" "length l \<le> 63" using assms(2) by auto
  note word = wire_label_length [OF l] unat_label_length [OF l(2)]
  have "labels_size (take 1 ls) = length l + 1" by (simp add: Cons)
  with dname_loops_labels [OF assms, of 1 dnames] show ?thesis
    using assms(1) word l
    by (simp add: rewrite_covering_dname_def Cons get_at_def checked_add_usize_def usize_limit_def)
qed

lemma first_dname_None:
  "first_dname dnames ls start = None \<longleftrightarrow>
   (\<forall>i. start \<le> i \<and> i \<le> length ls \<longrightarrow> map_of dnames (wire_of_labels (drop i ls)) = None)"
  by (auto simp: first_dname_def find_None_iff)

lemma first_dname_Some:
  assumes "first_dname dnames ls start = Some i"
  shows "start \<le> i" and "i \<le> length ls" and "\<exists>t. map_of dnames (wire_of_labels (drop i ls)) = Some t"
    and "\<And>j. start \<le> j \<Longrightarrow> j < i \<Longrightarrow> map_of dnames (wire_of_labels (drop j ls)) = None"
proof -
  obtain k where k: "k < length [start..<Suc (length ls)]" "i = [start..<Suc (length ls)] ! k"
    "map_of dnames (wire_of_labels (drop i ls)) \<noteq> None"
    "\<forall>j < k. map_of dnames (wire_of_labels (drop ([start..<Suc (length ls)] ! j) ls)) = None"
    using assms unfolding first_dname_def find_Some_iff by auto
  then have i: "i = start + k" "start + k \<le> length ls" by (auto simp del: upt_Suc)
  show "start \<le> i" "i \<le> length ls" "\<exists>t. map_of dnames (wire_of_labels (drop i ls)) = Some t"
    using i k(3) by auto
  fix j assume "start \<le> j" "j < i"
  then have "j - start < k" "[start..<Suc (length ls)] ! (j - start) = j"
    using i by (auto simp del: upt_Suc)
  with k(4) show "map_of dnames (wire_of_labels (drop j ls)) = None" by metis
qed

lemma dname_target_canonical:
  assumes "dname_target current off n target = Inr t"
  shows "canonical_wire t = take off (canonical_wire current) @ canonical_wire target"
    and "length (canonical_wire t) \<le> 255"
  using assms by (auto simp: dname_target_def result_simps Let_def min_def split: if_splits)

lemma dname_rewrite_at_Some:
  assumes "canonical_wire current = wire_of_labels ls"
    and "dname_rewrite_at current dnames ls found = Inr (Some t)"
  obtains i target where "found = Some i"
    and "target = the (map_of dnames (wire_of_labels (drop i ls)))"
    and "canonical_wire t = butlast (wire_of_labels (take i ls)) @ canonical_wire target"
    and "length (canonical_wire t) \<le> 255"
proof -
  from assms(2) obtain i where i: "found = Some i"
    "dname_target current (labels_size (take i ls)) i
       (the (map_of dnames (wire_of_labels (drop i ls)))) = Inr t"
    by (auto simp: dname_rewrite_at_def rbind_eq_Inr split: option.splits)
  have "take (labels_size (take i ls)) (canonical_wire current) = butlast (wire_of_labels (take i ls))"
    using take_labels_size [of "take i ls" "drop i ls"] assms(1) by simp
  with dname_target_canonical [OF i(2)] i(1) show thesis by (intro that) simp_all
qed

section \<open>Chains of redirects\<close>

text \<open>
  The path a resolver follows: from a name that is not answered directly to the name its
  alias, or else the DNAME covering it, gives.
\<close>

inductive redirect_path ::
  "(dns_name \<Rightarrow> wire_error + dns_name option) \<Rightarrow> bytes list \<Rightarrow> dns_name \<Rightarrow> dns_name list \<Rightarrow> dns_name \<Rightarrow> bool"
  for nxt direct where
  stay: "redirect_path nxt direct cur [] cur"
| hop: "canonical_wire cur \<notin> set direct \<Longrightarrow> nxt cur = Inr (Some t) \<Longrightarrow>
     redirect_path nxt direct t ts e \<Longrightarrow> redirect_path nxt direct cur (t # ts) e"

inductive_simps redirect_path_Nil [simp]: "redirect_path nxt direct cur [] e"
inductive_simps redirect_path_Cons [simp]: "redirect_path nxt direct cur (t # ts) e"

definition next_redirect :: "redirect_map \<Rightarrow> redirect_map \<Rightarrow> dns_name \<Rightarrow> wire_error + dns_name option" where
  "next_redirect aliases dnames current =
     (case map_of aliases (canonical_wire current) of
        Some target \<Rightarrow> Inr (Some target)
      | None \<Rightarrow> rewrite_covering_dname current dnames)"

text \<open>Where the loop ends, seen from the last name of the path.\<close>

definition redirect_outcome ::
  "redirect_map \<Rightarrow> redirect_map \<Rightarrow> bytes list \<Rightarrow> dns_name \<Rightarrow> nat \<Rightarrow> redirect_answer option" where
  "redirect_outcome aliases dnames direct e k =
     (if canonical_wire e \<in> set direct then Some (RedirectDirect (name_text e) k)
      else if next_redirect aliases dnames e = Inr None
        then Some (if k = 0 then RedirectNoData else RedirectTo (name_text e) k)
      else None)"

lemma classify_redirect_loop_unfold:
  "classify_redirect_loop cur direct aliases dnames visited k =
     (if canonical_wire cur \<in> set visited then Inl CnameLoop
      else if canonical_wire cur \<in> set direct then Inr (RedirectDirect (name_text cur) k)
      else rbind (next_redirect aliases dnames cur) (\<lambda>target.
        case target of
          None \<Rightarrow> Inr (if k = 0 then RedirectNoData else RedirectTo (name_text cur) k)
        | Some t \<Rightarrow>
            if k \<ge> CNAME_REDIRECTS_MAX then Inl CnameLoop
            else classify_redirect_loop t direct aliases dnames (canonical_wire cur # visited) (k + 1)))"
  by (subst classify_redirect_loop.simps)
     (auto simp: next_redirect_def intro!: rbind_cong split: option.splits)

lemma classify_redirect_loop_sound:
  assumes "classify_redirect_loop cur direct aliases dnames visited k = Inr ans"
    and "k \<le> CNAME_REDIRECTS_MAX"
  shows "\<exists>ts e. redirect_path (next_redirect aliases dnames) direct cur ts e \<and>
    k + length ts \<le> CNAME_REDIRECTS_MAX \<and>
    distinct (map canonical_wire (cur # ts)) \<and>
    set (map canonical_wire (cur # ts)) \<inter> set visited = {} \<and>
    redirect_outcome aliases dnames direct e (k + length ts) = Some ans"
  using assms
proof (induction "CNAME_REDIRECTS_MAX - k" arbitrary: cur visited k)
  case 0
  then show ?case
    by (intro exI [of _ "[]"] exI [of _ cur])
       (auto simp: classify_redirect_loop_unfold [of cur] redirect_outcome_def rbind_eq_Inr
         split: if_splits option.splits)
next
  case (Suc n)
  note unfold = Suc.prems(1) [unfolded classify_redirect_loop_unfold [of cur]]
  show ?case
  proof (cases "canonical_wire cur \<in> set direct \<or> next_redirect aliases dnames cur = Inr None")
    case True
    with unfold Suc.prems(2) show ?thesis
      by (intro exI [of _ "[]"] exI [of _ cur])
         (auto simp: redirect_outcome_def split: if_splits)
  next
    case False
    obtain t where next_t: "next_redirect aliases dnames cur = Inr (Some t)"
    proof (cases "next_redirect aliases dnames cur")
      case (Inl e)
      with unfold False show thesis by (simp split: if_splits)
    next
      case (Inr x)
      with False that show thesis by (cases x) simp_all
    qed
    with unfold False have t: "next_redirect aliases dnames cur = Inr (Some t)"
      "canonical_wire cur \<notin> set visited" "canonical_wire cur \<notin> set direct" "k < CNAME_REDIRECTS_MAX"
      "classify_redirect_loop t direct aliases dnames (canonical_wire cur # visited) (k + 1) = Inr ans"
      by (simp_all split: if_splits)
    have "n = CNAME_REDIRECTS_MAX - (k + 1)" "k + 1 \<le> CNAME_REDIRECTS_MAX" using Suc(2) t(4) by auto
    from Suc(1) [OF this(1) t(5) this(2)] obtain ts e where
      "redirect_path (next_redirect aliases dnames) direct t ts e"
      "k + 1 + length ts \<le> CNAME_REDIRECTS_MAX" "distinct (map canonical_wire (t # ts))"
      "set (map canonical_wire (t # ts)) \<inter> set (canonical_wire cur # visited) = {}"
      "redirect_outcome aliases dnames direct e (k + 1 + length ts) = Some ans" by blast
    with t show ?thesis
      by (intro exI [of _ "t # ts"] exI [of _ e]) auto
  qed
qed

lemma classify_redirect_loop_complete:
  assumes "redirect_path (next_redirect aliases dnames) direct cur ts e"
    and "k + length ts \<le> CNAME_REDIRECTS_MAX"
    and "distinct (map canonical_wire (cur # ts))"
    and "set (map canonical_wire (cur # ts)) \<inter> set visited = {}"
    and "redirect_outcome aliases dnames direct e (k + length ts) = Some ans"
  shows "classify_redirect_loop cur direct aliases dnames visited k = Inr ans"
  using assms
proof (induction arbitrary: k visited rule: redirect_path.induct)
  case (stay cur)
  then show ?case
    by (auto simp: classify_redirect_loop_unfold [of cur] redirect_outcome_def split: if_splits)
next
  case (hop cur t ts e)
  have "classify_redirect_loop t direct aliases dnames (canonical_wire cur # visited) (k + 1) = Inr ans"
    using hop.prems by (intro hop.IH) auto
  with hop show ?case
    by (simp add: classify_redirect_loop_unfold [of cur])
qed

definition next_address :: "address_answer_set \<Rightarrow> dns_name \<Rightarrow> wire_error + dns_name option" where
  "next_address answers current =
     (case map_of (ans_aliases answers) (canonical_wire current) of
        Some target \<Rightarrow> Inr (Some target)
      | None \<Rightarrow> rewrite_dname current (ans_dnames answers))"

definition addresses_of :: "address_answer_set \<Rightarrow> bytes \<Rightarrow> ip_addr list" where
  "addresses_of answers owner =
     (case map_of (ans_addresses answers) owner of None \<Rightarrow> [] | Some vs \<Rightarrow> vs)"

lemma ex_list_split: "(\<exists>xs. P xs) \<longleftrightarrow> P [] \<or> (\<exists>x xs. P (x # xs))"
  by (metis list.exhaust)

lemma resolve_address_loop_Suc:
  "resolve_address_loop (Suc n) cur visited answers family =
     (if canonical_wire cur \<in> set visited then Inl InvalidRecord
      else rbind (next_address answers cur) (\<lambda>target.
        case target of
          Some t \<Rightarrow> resolve_address_loop n t (canonical_wire cur # visited) answers family
        | None \<Rightarrow> Inr \<lparr>adr_addresses = filter (family_matches family) (addresses_of answers (canonical_wire cur)),
                       adr_canonical_name = name_text cur\<rparr>))"
  by (auto simp: next_address_def addresses_of_def split: option.splits)

declare resolve_address_loop.simps(2) [simp del]

lemma resolve_address_loop_Inr:
  "resolve_address_loop n cur visited answers family = Inr res \<longleftrightarrow>
   (\<exists>ts e. redirect_path (next_address answers) [] cur ts e \<and> length ts < n \<and>
      distinct (map canonical_wire (cur # ts)) \<and>
      set (map canonical_wire (cur # ts)) \<inter> set visited = {} \<and>
      next_address answers e = Inr None \<and>
      res = \<lparr>adr_addresses = filter (family_matches family) (addresses_of answers (canonical_wire e)),
             adr_canonical_name = name_text e\<rparr>)"
proof (induction n arbitrary: cur visited)
  case 0
  then show ?case by simp
next
  case (Suc n)
  show ?case
  proof (cases "canonical_wire cur \<in> set visited")
    case True
    then show ?thesis by (simp add: resolve_address_loop_Suc)
  next
    case fresh: False
    show ?thesis
    proof (cases "next_address answers cur")
      case (Inl e)
      with fresh show ?thesis
        by (subst ex_list_split) (simp add: resolve_address_loop_Suc)
    next
      case (Inr target)
      show ?thesis
      proof (cases target)
        case None
        with Inr fresh show ?thesis
          by (subst ex_list_split) (auto simp: resolve_address_loop_Suc)
      next
        case (Some t)
        with Inr fresh show ?thesis
          by (subst ex_list_split) (auto simp: resolve_address_loop_Suc Suc.IH)
      qed
    qed
  qed
qed

text \<open>The address a record contributes, and what the loop over the answers collects.\<close>

definition answer_address :: "resource_record \<Rightarrow> ip_addr option" where
  "answer_address r =
     (if rr_class r \<noteq> CLASS_IN then None
      else if rr_type r = TYPE_A then
        (case rr_rdata r of [a, b, c, d] \<Rightarrow> Some (V4 (ipv4_new a b c d)) | _ \<Rightarrow> None)
      else if rr_type r = TYPE_AAAA \<and> length (rr_rdata r) = 16
        then Some (V6 (v6_from_octets (rr_rdata r)))
      else None)"

lemma addresses_of_insert:
  "addresses_of (insert_address out owner a) o' =
     (if o' = owner then push_new (addresses_of out owner) a else addresses_of out o')"
  by (simp add: insert_address_def addresses_of_def update_conv')

lemma addresses_of_other [simp]:
  "addresses_of (out\<lparr>ans_aliases := m\<rparr>) = addresses_of out"
  "addresses_of (out\<lparr>ans_dnames := m\<rparr>) = addresses_of out"
  by (simp_all add: addresses_of_def fun_eq_iff)

lemma address_step_addresses:
  assumes "address_step p r out = Inr out'"
  shows "set (addresses_of out' o') = set (addresses_of out o') \<union>
      (if canonical_wire (rr_name r) = o' then set_option (answer_address r) else {})"
    and "distinct (addresses_of out o') \<Longrightarrow> distinct (addresses_of out' o')"
  using assms
  by (auto simp: address_step_def answer_address_def addresses_of_insert result_simps Let_def
      split: if_splits list.splits)

lemma fold_address_step:
  assumes "fold_result (address_step p) rs out = Inr out'"
  shows "set (addresses_of out' o') = set (addresses_of out o') \<union>
      {a. \<exists>r \<in> set rs. canonical_wire (rr_name r) = o' \<and> answer_address r = Some a}"
    and "distinct (addresses_of out o') \<Longrightarrow> distinct (addresses_of out' o')"
  using assms
proof (induction rs arbitrary: out)
  case Nil
  { case 1 then show ?case by simp }
  { case 2 then show ?case by simp }
next
  case (Cons r rs)
  { case 1
    then obtain mid where mid: "address_step p r out = Inr mid" "fold_result (address_step p) rs mid = Inr out'"
      by (auto simp: rbind_eq_Inr)
    from Cons(1) [OF mid(2)] address_step_addresses(1) [OF mid(1)] show ?case by auto }
  { case 2
    then obtain mid where mid: "address_step p r out = Inr mid" "fold_result (address_step p) rs mid = Inr out'"
      by (auto simp: rbind_eq_Inr)
    from Cons(2) [OF _ mid(2)] address_step_addresses(2) [OF mid(1)] 2 show ?case by blast }
qed

section \<open>TXT strings\<close>

definition txt_bytes :: "bytes list \<Rightarrow> bytes" where
  "txt_bytes items = concat (map (\<lambda>i. of_nat (length i) # i) items)"

lemma txt_bytes_simps [simp]:
  "txt_bytes [] = []" "txt_bytes (i # is) = of_nat (length i) # i @ txt_bytes is"
  by (simp_all add: txt_bytes_def)

lemma txt_items_bytes:
  assumes "\<forall>i \<in> set items. length i \<le> 255" and "length (pre @ txt_bytes items @ post) < usize_limit"
  shows "txt_items (pre @ txt_bytes items @ post) (length pre) (length pre + length (txt_bytes items)) acc =
    Inr (acc @ filter (\<lambda>i. i \<noteq> []) items)"
  using assms
proof (induction items arbitrary: pre acc)
  case Nil
  then show ?case by (simp add: txt_items.simps)
next
  case (Cons i "is")
  let ?p = "pre @ txt_bytes (i # is) @ post"
  have u: "unat (of_nat (length i) :: u8) = length i" using Cons.prems(1) by (simp add: unat_of_nat)
  have range: "get_range ?p (length pre + 1) (length pre + 1 + length i) = Some i"
    by (simp add: get_range_def)
  have "txt_items ((pre @ of_nat (length i) # i) @ txt_bytes is @ post) (length (pre @ of_nat (length i) # i))
      (length (pre @ of_nat (length i) # i) + length (txt_bytes is)) (if i = [] then acc else acc @ [i]) =
      Inr ((if i = [] then acc else acc @ [i]) @ filter (\<lambda>i. i \<noteq> []) is)"
    using Cons.prems by (intro Cons.IH) auto
  with u range Cons.prems(2) show ?case
    by (subst txt_items.simps) (auto simp: checked_end_def checked_add_usize_def add.assoc)
qed

section \<open>Reverse names read back\<close>

lemma collect_options_map_Some: "collect_options (map (\<lambda>x. Some (f x)) xs) = Some (map f xs)"
  by (induction xs) auto

lemma parse_show_u8 [simp]: "from_str_radix 10 (show_u8 b) = Some b"
  by (simp add: show_u8_def)

lemma show_u8_facts [simp]:
  "CHR ''.'' \<notin> set (show_u8 b)" "to_ascii_lowercase (show_u8 b) = show_u8 b"
  by (simp_all add: show_u8_def show_radix_notin show_radix_lower)

lemma show_hex_facts [simp]:
  "CHR ''.'' \<notin> set (show_hex n)" "to_ascii_lowercase (show_hex n) = show_hex n"
  by (simp_all add: show_radix_notin show_radix_lower)

lemma join_dots:
  "parts \<noteq> [] \<Longrightarrow> concat (map (\<lambda>s. s @ ''.'') parts) @ t = join_with ''.'' parts @ ''.'' @ t"
  by (induction "''.''" parts rule: join_with.induct) auto

lemma map_lower_join:
  assumes "\<And>p. p \<in> set parts \<Longrightarrow> to_ascii_lowercase p = p"
  shows "to_ascii_lowercase (join_with ''.'' parts) = join_with ''.'' parts"
proof -
  have dot: "char_lower (CHR ''.'') = CHR ''.''" by (simp add: lower_dot_iff)
  show ?thesis
    using assms by (induction "''.''" parts rule: join_with.induct) (auto simp: dot)
qed

lemma nibbles_of_byte: "(b AND 0x0f) OR push_bit 4 (drop_bit 4 b) = (b :: u8)"
proof -
  have "(b AND 0x0f) = take_bit 4 b" by (simp add: take_bit_eq_mask mask_eq_exp_minus_1)
  then show ?thesis by (simp add: bit_eq_iff bit_simps) auto
qed

lemma low_nibble_le: "\<not> (0x0f :: u8) < b AND 0x0f"
proof -
  have "(b AND 0x0f) = take_bit 4 b" by (simp add: take_bit_eq_mask mask_eq_exp_minus_1)
  moreover have "unat (take_bit 4 b) < 2 ^ 4"
    unfolding unsigned_take_bit_eq by (rule take_bit_nat_less_exp)
  ultimately show ?thesis by (simp add: word_less_nat_alt)
qed

lemma high_nibble_le: "\<not> (0x0f :: u8) < drop_bit 4 b"
proof -
  have "unat b div 2 ^ 4 < 16" using unat_lt_256 [of b] by (simp add: less_mult_imp_div_less)
  then show ?thesis
    unfolding word_less_nat_alt unsigned_drop_bit_eq
    by (simp add: drop_bit_eq_div take_bit_nat_eq_self)
qed

lemma join_nibbles_bytes:
  "join_nibbles (concat (map (\<lambda>b. [b AND 0x0f, drop_bit 4 b]) bs)) = bs"
  by (induction bs) (simp_all add: nibbles_of_byte)

lemma reverse_name_join:
  "reverse_name (V4 a) =
     join_with ''.'' (map show_u8 (rev (v4_octets a))) @ ''.in-addr.arpa''"
  "reverse_name (V6 b) =
     join_with ''.'' (map (\<lambda>n. show_hex (unat n))
       (concat (map (\<lambda>b. [b AND 0x0f, drop_bit 4 b]) (rev (v6_octets b))))) @ ''.ip6.arpa''"
proof -
  obtain x0 x1 x2 x3 where "v4_octets a = [x0, x1, x2, x3]"
    by (simp add: v4_octets_def u32_to_be_def)
  then show "reverse_name (V4 a) =
     join_with ''.'' (map show_u8 (rev (v4_octets a))) @ ''.in-addr.arpa''"
    by (simp add: reverse_name_def)
  let ?ns = "concat (map (\<lambda>b. [b AND 0x0f, drop_bit 4 b]) (rev (v6_octets b)))"
  have ne: "?ns \<noteq> []" by (cases "rev (v6_octets b)") (auto dest: arg_cong [of _ _ length])
  have "concat (map (\<lambda>byte. show_hex (unat (byte AND 0x0f)) @ ''.'' @
      show_hex (unat (drop_bit 4 byte)) @ ''.'') bs) =
    concat (map (\<lambda>s. s @ ''.'') (map (\<lambda>n. show_hex (unat n))
      (concat (map (\<lambda>b. [b AND 0x0f, drop_bit 4 b]) bs))))" for bs :: bytes
    by (induction bs) auto
  then show "reverse_name (V6 b) = join_with ''.'' (map (\<lambda>n. show_hex (unat n)) ?ns) @ ''.ip6.arpa''"
    using join_dots [of "map (\<lambda>n. show_hex (unat n)) ?ns" "''ip6.arpa''"] ne
    by (simp add: reverse_name_def)
qed

lemma lower_arpa [simp]:
  "to_ascii_lowercase ''.in-addr.arpa'' = ''.in-addr.arpa''"
  "to_ascii_lowercase ''.ip6.arpa'' = ''.ip6.arpa''"
  by code_simp+

lemma strip_suffix_ip6: "strip_suffix ''.in-addr.arpa'' (s @ ''.ip6.arpa'') = None"
  by (simp add: strip_suffix_def)

lemma parse_reverse_v4: "parse_reverse_name (reverse_name (V4 a)) = Some (V4 a)"
proof -
  let ?s = "join_with ''.'' (map show_u8 (rev (v4_octets a)))"
  have trim: "trim_end_matches (CHR ''.'') (?s @ ''.in-addr.arpa'') = ?s @ ''.in-addr.arpa''"
    by (rule trim_end_matches_id) simp
  have low: "to_ascii_lowercase (?s @ ''.in-addr.arpa'') = ?s @ ''.in-addr.arpa''"
    unfolding map_append lower_arpa by (subst map_lower_join) auto
  obtain x0 x1 x2 x3 where x: "v4_octets a = [x0, x1, x2, x3]"
    by (simp add: v4_octets_def u32_to_be_def)
  have "split_on (CHR ''.'') ?s = map show_u8 (rev (v4_octets a))"
    by (rule split_join) (auto simp: x)
  then have col: "collect_options (map (from_str_radix 10) (split_on (CHR ''.'') ?s)) = Some [x3, x2, x1, x0]"
    by (simp add: x)
  show ?thesis
    unfolding parse_reverse_name_def reverse_name_join Let_def trim low strip_suffix_append
      option.case col list.case ipv4_new_octets [OF x] ..
qed

lemma parse_reverse_v6: "parse_reverse_name (reverse_name (V6 b)) = Some (V6 b)"
proof -
  let ?ns = "concat (map (\<lambda>b. [b AND 0x0f, drop_bit 4 b]) (rev (v6_octets b)))"
  let ?s = "join_with ''.'' (map (\<lambda>n. show_hex (unat n)) ?ns)"
  have len: "length ?ns = 32" by (simp add: length_concat comp_def sum_list_triv)
  then have ne: "?ns \<noteq> []" by force
  have trim: "trim_end_matches (CHR ''.'') (?s @ ''.ip6.arpa'') = ?s @ ''.ip6.arpa''"
    by (rule trim_end_matches_id) simp
  have low: "to_ascii_lowercase (?s @ ''.ip6.arpa'') = ?s @ ''.ip6.arpa''"
    unfolding map_append lower_arpa by (subst map_lower_join) auto
  have "split_on (CHR ''.'') ?s = map (\<lambda>n. show_hex (unat n)) ?ns"
    by (rule split_join) (use ne in auto)
  then have "collect_options (map (from_str_radix 16) (split_on (CHR ''.'') ?s)) = Some ?ns"
    using collect_options_map_Some [of "\<lambda>x. x" ?ns] by (simp add: comp_def)
  moreover have "\<not> list_ex (\<lambda>n. n > 0x0f) ?ns"
    by (auto simp: list_ex_iff low_nibble_le high_nibble_le)
  moreover have "rev (join_nibbles ?ns) = v6_octets b" by (simp add: join_nibbles_bytes)
  ultimately show ?thesis
    using len by (simp only: parse_reverse_name_def reverse_name_join Let_def trim low strip_suffix_ip6
        strip_suffix_append option.simps) simp
qed

section \<open>Properties of the component\<close>

text \<open>
  C18: the classification of a redirect chain is exact. It returns an answer precisely when
  the names followed from the question, by alias or else by the covering DNAME, form a path of
  at most 16 redirects without repetition that ends at a name answered directly, or at a name
  with no redirect; the answer carries the last name's text and the length of the path. Every
  longer or cyclic chain is an error.
\<close>

theorem classify_redirect_chain_exact:
  "classify_redirect_chain question direct aliases dnames = Inr ans \<longleftrightarrow>
   (\<exists>ts e. redirect_path (next_redirect aliases dnames) direct question ts e \<and>
      length ts \<le> CNAME_REDIRECTS_MAX \<and> distinct (map canonical_wire (question # ts)) \<and>
      redirect_outcome aliases dnames direct e (length ts) = Some ans)"
  using classify_redirect_loop_sound [of question direct aliases dnames "[]" 0 ans]
    classify_redirect_loop_complete [of aliases dnames direct question _ _ 0 "[]" ans]
  by (auto simp: classify_redirect_chain_def)

text \<open>
  DNAME substitution acts on whole labels and prefers the longest match. For a name with
  labels \<open>ls\<close>, \<open>rewrite_covering_dname\<close> finds nothing exactly when no proper suffix owns a
  DNAME; a result replaces the longest such suffix by the DNAME's target, keeps the labels in
  front of it, and fits in 255 octets.
\<close>

theorem covering_dname_longest_suffix:
  assumes "canonical_wire current = wire_of_labels ls" and "valid_labels ls"
    and "length (wire_of_labels ls) \<le> 255"
  shows "(rewrite_covering_dname current dnames = Inr None \<longleftrightarrow>
      (\<forall>i. 1 \<le> i \<and> i \<le> length ls \<longrightarrow> map_of dnames (wire_of_labels (drop i ls)) = None)) \<and>
    (\<forall>t. rewrite_covering_dname current dnames = Inr (Some t) \<longrightarrow>
      (\<exists>i target. 1 \<le> i \<and> i \<le> length ls \<and>
         map_of dnames (wire_of_labels (drop i ls)) = Some target \<and>
         (\<forall>j. 1 \<le> j \<and> j < i \<longrightarrow> map_of dnames (wire_of_labels (drop j ls)) = None) \<and>
         canonical_wire t = butlast (wire_of_labels (take i ls)) @ canonical_wire target \<and>
         length (canonical_wire t) \<le> 255))"
proof (intro conjI allI impI)
  note cov = rewrite_covering_labels [OF assms, of dnames]
  show "rewrite_covering_dname current dnames = Inr None \<longleftrightarrow>
      (\<forall>i. 1 \<le> i \<and> i \<le> length ls \<longrightarrow> map_of dnames (wire_of_labels (drop i ls)) = None)"
    unfolding cov first_dname_None [symmetric]
    by (auto simp: dname_rewrite_at_def rbind_eq_Inr split: option.splits)
  fix t assume "rewrite_covering_dname current dnames = Inr (Some t)"
  then have "dname_rewrite_at current dnames ls (first_dname dnames ls 1) = Inr (Some t)"
    by (simp only: cov)
  then obtain i target where i: "first_dname dnames ls 1 = Some i"
    "target = the (map_of dnames (wire_of_labels (drop i ls)))"
    "canonical_wire t = butlast (wire_of_labels (take i ls)) @ canonical_wire target"
    "length (canonical_wire t) \<le> 255"
    by (rule dname_rewrite_at_Some [OF assms(1)])
  with first_dname_Some [OF i(1)] show "\<exists>i target. 1 \<le> i \<and> i \<le> length ls \<and>
         map_of dnames (wire_of_labels (drop i ls)) = Some target \<and>
         (\<forall>j. 1 \<le> j \<and> j < i \<longrightarrow> map_of dnames (wire_of_labels (drop j ls)) = None) \<and>
         canonical_wire t = butlast (wire_of_labels (take i ls)) @ canonical_wire target \<and>
         length (canonical_wire t) \<le> 255"
    by (intro exI [of _ i] exI [of _ target]) auto
qed

theorem covering_dname_longest_suffix_witness:
  "\<exists>t. rewrite_covering_dname (dns_name_of [[97], [98]]) [(wire_of_labels [[98]], dns_name_of [[99]])] =
         Inr (Some t) \<and> canonical_wire t = wire_of_labels [[97], [99]]"
proof -
  let ?cur = "dns_name_of [[97], [98]]" and ?dn = "[(wire_of_labels [[98]], dns_name_of [[99]])]"
  have wire: "canonical_wire ?cur = wire_of_labels [[97], [98]]" by code_simp
  have "case rewrite_covering_dname ?cur ?dn of Inr (Some t) \<Rightarrow> True | _ \<Rightarrow> False" by code_simp
  then obtain t where t: "rewrite_covering_dname ?cur ?dn = Inr (Some t)"
    by (auto split: sum.splits option.splits)
  with covering_dname_longest_suffix [OF wire, of ?dn] obtain i target where
    i: "1 \<le> i" "i \<le> 2" "map_of ?dn (wire_of_labels (drop i [[97], [98]])) = Some target"
    "canonical_wire t = butlast (wire_of_labels (take i [[97], [98]])) @ canonical_wire target" by auto
  moreover from i(1,2) have "i = 1 \<or> i = 2" by auto
  ultimately show ?thesis
    using t by (auto simp: dns_name_of_def u8_lower_def split: if_splits)
qed

text \<open>
  C19: the addresses extracted from a response are the right ones and all of them. They are
  exactly the addresses, of the requested family and without duplicates, that A and AAAA
  records of class IN in the answer section carry for the last name of the chain of aliases
  and DNAMEs from the question; the chain has fewer than 64 redirects and does not repeat, and
  the canonical name is the text of its last name.
\<close>

theorem extract_address_records_correct:
  assumes "extract_address_records packet family = Inr res"
  shows "\<exists>h q rs end answers ts e.
    header_parse packet = Inr h \<and> parse_question packet 12 = Inr q \<and>
    parse_many parse_record rr_next_offset (unat (answer_count h)) packet (q_next_offset q) = Inr (rs, end) \<and>
    parse_address_answers packet (answer_count h) (q_next_offset q) = Inr answers \<and>
    redirect_path (next_address answers) [] (q_name q) ts e \<and> next_address answers e = Inr None \<and>
    length ts < MAX_REDIRECT_CHAIN \<and> distinct (map canonical_wire (q_name q # ts)) \<and>
    adr_canonical_name res = name_text e \<and> distinct (adr_addresses res) \<and>
    set (adr_addresses res) =
      {a. family_matches family a \<and>
          (\<exists>r \<in> set rs. canonical_wire (rr_name r) = canonical_wire e \<and> answer_address r = Some a)}"
proof -
  from assms obtain h q answers where hq: "header_parse packet = Inr h" "parse_question packet 12 = Inr q"
    and ans: "parse_address_answers packet (answer_count h) (q_next_offset q) = Inr answers"
    and chain: "resolve_address_loop MAX_REDIRECT_CHAIN (q_name q) [] answers family = Inr res"
    by (auto simp: extract_address_records_def resolve_address_chain_def rbind_eq_Inr split: if_splits)
  from ans obtain rs "end" where rs: "parse_many parse_record rr_next_offset (unat (answer_count h)) packet
      (q_next_offset q) = Inr (rs, end)"
    and fold: "fold_result (address_step packet) rs
        \<lparr>ans_aliases = [], ans_dnames = [], ans_addresses = []\<rparr> = Inr answers"
    by (auto simp: parse_address_answers_def rbind_eq_Inr for_records_Inr split: if_splits)
  from chain obtain ts e where e: "redirect_path (next_address answers) [] (q_name q) ts e"
    "length ts < MAX_REDIRECT_CHAIN" "distinct (map canonical_wire (q_name q # ts))"
    "next_address answers e = Inr None"
    "res = \<lparr>adr_addresses = filter (family_matches family) (addresses_of answers (canonical_wire e)),
            adr_canonical_name = name_text e\<rparr>"
    unfolding resolve_address_loop_Inr by auto
  from fold_address_step [OF fold, of "canonical_wire e"] have
    "distinct (addresses_of answers (canonical_wire e))"
    "set (addresses_of answers (canonical_wire e)) =
      {a. \<exists>r \<in> set rs. canonical_wire (rr_name r) = canonical_wire e \<and> answer_address r = Some a}"
    by (simp_all add: addresses_of_def)
  with hq rs ans e show ?thesis by auto
qed

theorem extract_address_records_correct_witness:
  "\<exists>res. extract_address_records sample_response (Some 2) = Inr res \<and> distinct (adr_addresses res)"
proof -
  have "is_ok (extract_address_records sample_response (Some 2))" by code_simp
  then obtain res where res: "extract_address_records sample_response (Some 2) = Inr res"
    by (auto simp: is_ok_iff)
  from extract_address_records_correct [OF res] have "distinct (adr_addresses res)" by blast
  with res show ?thesis by blast
qed

text \<open>
  Reverse names read back: parsing the reverse lookup name of any IPv4 or IPv6 address
  gives that address.
\<close>

theorem parse_reverse_name_reverse_name: "parse_reverse_name (reverse_name address) = Some address"
  by (cases address) (simp_all add: parse_reverse_v4 parse_reverse_v6)

text \<open>
  The raw form of an extracted answer is itself a record: \<open>parse_record\<close> reads back the
  same canonical owner, type, class, TTL and data, and consumes all of it. So names
  compressed in the packet leave it expanded.
\<close>

theorem answer_record_raw_parses:
  assumes "parse_record packet off = Inr r" and "answer_record_of r = Inr a"
  shows "\<exists>r'. parse_record (ar_raw a) 0 = Inr r' \<and>
    canonical_wire (rr_name r') = canonical_wire (rr_name r) \<and>
    rr_type r' = rr_type r \<and> rr_class r' = rr_class r \<and> rr_ttl r' = rr_ttl r \<and>
    rr_rdata r' = rr_rdata r \<and> rr_next_offset r' = length (ar_raw a)"
proof -
  from assms(1) obtain nxt where "read_name packet off = Inr (rr_name r, nxt)"
    by (auto simp: parse_record_def rbind_eq_Inr)
  then obtain ls where ls: "valid_labels ls" "length (wire_of_labels ls) \<le> 255"
    and name: "rr_name r = dns_name_of ls" by (rule read_name_sound)
  let ?ls = "map (map u8_lower) ls"
  have rd: "length (rr_rdata r) < 65536"
    and raw: "ar_raw a = wire_of_labels ?ls @ record_tail (rr_type r) (rr_class r) (rr_ttl r) (rr_rdata r) @ []"
    using assms(2)
    by (auto simp: answer_record_of_def result_simps try_from_nat_Some name dns_name_of_def record_tail_def)
  have bound: "length (ar_raw a) < usize_limit"
    using rd ls(2) by (simp add: raw usize_limit_def)
  have "read_name (ar_raw a) 0 = Inr (dns_name_of ?ls, length (wire_of_labels ?ls))"
    using read_name_wire_of_labels [of ?ls "[]"] ls bound by (simp add: raw)
  from parse_record_fields [OF this raw bound rd] show ?thesis
    by (simp add: raw name dns_name_of_def comp_def)
qed

theorem answer_record_raw_parses_witness:
  "\<exists>r a r'. parse_record sample_response 19 = Inr r \<and> answer_record_of r = Inr a \<and>
     parse_record (ar_raw a) 0 = Inr r' \<and> rr_rdata r' = rr_rdata r"
proof -
  have "case parse_record sample_response 19 of Inr r \<Rightarrow> is_ok (answer_record_of r) | _ \<Rightarrow> False"
    by code_simp
  then obtain r a where ra: "parse_record sample_response 19 = Inr r" "answer_record_of r = Inr a"
    by (auto simp: is_ok_iff split: sum.splits)
  from answer_record_raw_parses [OF ra] ra show ?thesis by blast
qed


end
