(* ===== verification/Wire_Dnssec.thy ===== *)
theory Wire_Dnssec
  imports Wire_Records
begin

text \<open>
  DNSSEC records on the wire: \<open>src/src/wire/dnssec_records.rs\<close> (DNSKEY, DS, RRSIG, NSEC, NSEC3,
  NSEC3PARAM, key tags and type bitmaps) and \<open>src/src/wire/dnssec.rs\<close> (whether a response
  misses signatures at the root).
\<close>

section \<open>Records\<close>

definition TYPE_DS :: u16 where [simp]: "TYPE_DS = 43"
definition TYPE_NSEC :: u16 where [simp]: "TYPE_NSEC = 47"
definition TYPE_DNSKEY :: u16 where [simp]: "TYPE_DNSKEY = 48"
definition TYPE_NSEC3 :: u16 where [simp]: "TYPE_NSEC3 = 50"
definition TYPE_NSEC3PARAM :: u16 where [simp]: "TYPE_NSEC3PARAM = 51"

definition RRSIG_FIXED_FIELDS_LEN :: nat where [simp]: "RRSIG_FIXED_FIELDS_LEN = 18"
definition RRSIG_MINIMUM_RDATA_LEN :: nat where [simp]: "RRSIG_MINIMUM_RDATA_LEN = RRSIG_FIXED_FIELDS_LEN + 2"

record dnskey_record =
  dk_flags :: u16
  dk_protocol :: u8
  dk_algorithm :: u8
  dk_public_key :: bytes

record ds_record =
  ds_key_tag :: u16
  ds_algorithm :: u8
  ds_digest_type :: u8
  ds_digest :: bytes

record rrsig_record =
  sig_type_covered :: u16
  sig_algorithm :: u8
  sig_labels :: u8
  sig_original_ttl :: u32
  sig_expiration :: u32
  sig_inception :: u32
  sig_key_tag :: u16
  sig_signer :: dns_name
  sig_signature :: bytes

record nsec_record =
  nsec_next_domain :: dns_name
  nsec_types :: "u16 list"

record nsec3_record =
  n3_hash_algorithm :: u8
  n3_flags :: u8
  n3_iterations :: u16
  n3_salt :: bytes
  n3_next_hashed_owner :: bytes
  n3_types :: "u16 list"

record nsec3param_record =
  n3p_hash_algorithm :: u8
  n3p_flags :: u8
  n3p_iterations :: u16
  n3p_salt :: bytes

definition parse_dnskey :: "resource_record \<Rightarrow> wire_error + dnskey_record" where
  "parse_dnskey record =
     (if rr_type record \<noteq> TYPE_DNSKEY \<or> length (rr_rdata record) < 4 then Inl InvalidRecord
      else
        let protocol = rr_rdata record ! 2; public_key = drop 4 (rr_rdata record) in
        if protocol \<noteq> 3 \<or> public_key = [] then Inl InvalidRecord
        else Inr \<lparr>dk_flags = u16_from_be (rr_rdata record ! 0) (rr_rdata record ! 1),
                  dk_protocol = protocol, dk_algorithm = rr_rdata record ! 3,
                  dk_public_key = public_key\<rparr>)"

definition parse_ds :: "resource_record \<Rightarrow> wire_error + ds_record" where
  "parse_ds record =
     (if rr_type record \<noteq> TYPE_DS \<or> length (rr_rdata record) < 5 then Inl InvalidRecord
      else
        let digest_type = rr_rdata record ! 3; digest = drop 4 (rr_rdata record);
            expected = (if digest_type = 1 then 20 else if digest_type = 2 then 32
                        else if digest_type = 4 then 48 else length digest) in
        if digest = [] \<or> length digest \<noteq> expected then Inl InvalidRecord
        else Inr \<lparr>ds_key_tag = u16_from_be (rr_rdata record ! 0) (rr_rdata record ! 1),
                  ds_algorithm = rr_rdata record ! 2, ds_digest_type = digest_type,
                  ds_digest = digest\<rparr>)"

definition parse_rrsig :: "bytes \<Rightarrow> resource_record \<Rightarrow> wire_error + rrsig_record" where
  "parse_rrsig packet record =
     (if rr_type record \<noteq> TYPE_RRSIG \<or> length (rr_rdata record) < RRSIG_MINIMUM_RDATA_LEN
      then Inl InvalidRecord
      else
        rbind (checked_end (rr_rdata_offset record) RRSIG_FIXED_FIELDS_LEN) (\<lambda>signer_offset.
        rbind (read_name packet signer_offset) (\<lambda>(signer, signature_offset).
          if signature_offset \<ge> rr_next_offset record then Inl InvalidRecord
          else
            rbind (ok_or (get_range packet signature_offset (rr_next_offset record)) InvalidRecord)
              (\<lambda>signature.
                if signature = [] then Inl InvalidRecord
                else
                  let d = rr_rdata record in
                  Inr \<lparr>sig_type_covered = u16_from_be (d ! 0) (d ! 1), sig_algorithm = d ! 2,
                       sig_labels = d ! 3,
                       sig_original_ttl = u32_of_slice (take 4 (drop 4 d)),
                       sig_expiration = u32_of_slice (take 4 (drop 8 d)),
                       sig_inception = u32_of_slice (take 4 (drop 12 d)),
                       sig_key_tag = u16_from_be (d ! 16) (d ! 17),
                       sig_signer = signer, sig_signature = signature\<rparr>))))"

text \<open>
  The types of one bitmap window. The octets number at most 32, so the position of a bit is
  below 256 and its conversion to \<open>u16\<close> never fails.
\<close>

definition window_types :: "u8 \<Rightarrow> bytes \<Rightarrow> u16 list" where
  "window_types window bs =
     concat (map (\<lambda>octet. map (\<lambda>bit. ucast window * 256 + of_nat (octet * 8 + bit))
                    (filter (\<lambda>bit. bs ! octet AND drop_bit bit 0x80 \<noteq> 0) [0..<8]))
       [0..<length bs])"

function parse_type_bitmap_loop ::
  "bytes \<Rightarrow> nat \<Rightarrow> u8 option \<Rightarrow> u16 list \<Rightarrow> wire_error + u16 list" where
  "parse_type_bitmap_loop bitmap offset previous_window types =
     (if offset < length bitmap then
        rbind (ok_or (get_at bitmap offset) InvalidRecord) (\<lambda>window.
        rbind (ok_or (get_at bitmap (offset + 1)) InvalidRecord) (\<lambda>len.
          if len = 0 \<or> unat len > 32 \<or>
             (case previous_window of None \<Rightarrow> False | Some previous \<Rightarrow> window \<le> previous)
          then Inl InvalidRecord
          else
            rbind (ok_or (checked_add_usize (offset + 2) (unat len)) InvalidRecord) (\<lambda>end.
            rbind (ok_or (get_range bitmap (offset + 2) end) InvalidRecord) (\<lambda>bs.
              if bs \<noteq> [] \<and> last bs = 0 then Inl InvalidRecord
              else parse_type_bitmap_loop bitmap end (Some window) (types @ window_types window bs)))))
      else Inr types)"
  by pat_completeness auto
termination
  by (relation "measure (\<lambda>(bitmap, offset, _). length bitmap - offset)") (auto simp: result_simps)

declare parse_type_bitmap_loop.simps [simp del]

definition parse_type_bitmap :: "bytes \<Rightarrow> wire_error + u16 list" where
  "parse_type_bitmap bitmap =
     rbind (parse_type_bitmap_loop bitmap 0 None []) (\<lambda>types.
       if types = [] then Inl InvalidRecord else Inr types)"

definition parse_nsec :: "bytes \<Rightarrow> resource_record \<Rightarrow> wire_error + nsec_record" where
  "parse_nsec packet record =
     (if rr_type record \<noteq> TYPE_NSEC \<or> rr_rdata record = [] then Inl InvalidRecord
      else
        rbind (read_name packet (rr_rdata_offset record)) (\<lambda>(next_domain, bitmap_offset).
          if bitmap_offset \<ge> rr_next_offset record then Inl InvalidRecord
          else
            rbind (ok_or (get_range packet bitmap_offset (rr_next_offset record)) InvalidRecord) (\<lambda>bitmap.
            rbind (parse_type_bitmap bitmap) (\<lambda>types.
            Inr \<lparr>nsec_next_domain = next_domain, nsec_types = types\<rparr>))))"

definition parse_nsec3 :: "resource_record \<Rightarrow> wire_error + nsec3_record" where
  "parse_nsec3 record =
     (if rr_type record \<noteq> TYPE_NSEC3 \<or> length (rr_rdata record) < 6 then Inl InvalidRecord
      else
        let d = rr_rdata record in
        rbind (ok_or (checked_add_usize 5 (unat (d ! 4))) InvalidRecord) (\<lambda>salt_end.
        rbind (ok_or (get_at d salt_end) InvalidRecord) (\<lambda>hash_len.
        let hash_start = salt_end + 1 in
        rbind (ok_or (checked_add_usize hash_start (unat hash_len)) InvalidRecord) (\<lambda>hash_end.
          if hash_len = 0 \<or> hash_end \<ge> length d then Inl InvalidRecord
          else
            rbind (parse_type_bitmap (drop hash_end d)) (\<lambda>types.
            Inr \<lparr>n3_hash_algorithm = d ! 0, n3_flags = d ! 1,
                 n3_iterations = u16_from_be (d ! 2) (d ! 3),
                 n3_salt = take (salt_end - 5) (drop 5 d),
                 n3_next_hashed_owner = take (hash_end - hash_start) (drop hash_start d),
                 n3_types = types\<rparr>)))))"

definition parse_nsec3param :: "resource_record \<Rightarrow> wire_error + nsec3param_record" where
  "parse_nsec3param record =
     (if rr_type record \<noteq> TYPE_NSEC3PARAM \<or> length (rr_rdata record) < 5 then Inl InvalidRecord
      else
        let d = rr_rdata record in
        rbind (ok_or (checked_add_usize 5 (unat (d ! 4))) InvalidRecord) (\<lambda>salt_end.
          if salt_end \<noteq> length d then Inl InvalidRecord
          else Inr \<lparr>n3p_hash_algorithm = d ! 0, n3p_flags = d ! 1,
                    n3p_iterations = u16_from_be (d ! 2) (d ! 3),
                    n3p_salt = take (salt_end - 5) (drop 5 d)\<rparr>))"

fun key_tag_sum :: "bool \<Rightarrow> bytes \<Rightarrow> u32 \<Rightarrow> u32" where
  "key_tag_sum even_index [] accumulator = accumulator"
| "key_tag_sum even_index (b # bs) accumulator =
     key_tag_sum (\<not> even_index) bs
       (accumulator + (if even_index then push_bit 8 (ucast b) else ucast b))"

definition dnskey_key_tag :: "resource_record \<Rightarrow> wire_error + u16" where
  "dnskey_key_tag record =
     (let d = rr_rdata record in
      if rr_type record \<noteq> TYPE_DNSKEY \<or> length d < 4 then Inl InvalidRecord
      else if d ! 3 = 1 then Inr (u16_from_be (d ! (length d - 3)) (d ! (length d - 2)))
      else
        let accumulator = key_tag_sum True d 0;
            accumulator = accumulator + (drop_bit 16 accumulator AND 0xffff) in
        Inr (ucast (accumulator AND 0xffff)))"

section \<open>Missing root signatures\<close>

fun root_rrsig_loop ::
  "nat \<Rightarrow> nat \<Rightarrow> nat \<Rightarrow> bytes \<Rightarrow> nat \<Rightarrow> u16 list \<Rightarrow> u16 list \<Rightarrow> wire_error + u16 list \<times> u16 list \<times> nat" where
  "root_rrsig_loop 0 index signed_record_count packet offset required covered =
     Inr (required, covered, offset)"
| "root_rrsig_loop (Suc n) index signed_record_count packet offset required covered =
     rbind (parse_record packet offset) (\<lambda>record.
     let continue = root_rrsig_loop n (index + 1) signed_record_count packet (rr_next_offset record) in
     if rr_class record \<noteq> CLASS_IN \<or> canonical_wire (rr_name record) \<noteq> [0]
     then continue required covered
     else if rr_type record = TYPE_RRSIG then
       (if length (rr_rdata record) < RRSIG_MINIMUM_RDATA_LEN then Inl InvalidRecord
        else
          let type_covered = u16_from_be (rr_rdata record ! 0) (rr_rdata record ! 1) in
          rbind (checked_end (rr_rdata_offset record) RRSIG_FIXED_FIELDS_LEN) (\<lambda>signer_offset.
          rbind (read_name packet signer_offset) (\<lambda>(signer, signature_offset).
            if canonical_wire signer \<noteq> [0] \<or> signature_offset \<ge> rr_next_offset record
            then Inl InvalidRecord
            else continue required (push_new covered type_covered))))
     else if index < signed_record_count \<and> rr_type record \<noteq> TYPE_OPT \<and> rr_type record \<noteq> TYPE_TSIG
     then continue (push_new required (rr_type record)) covered
     else continue required covered)"

definition root_rrsig_missing :: "bytes \<Rightarrow> wire_error + bool" where
  "root_rrsig_missing packet =
     rbind (header_parse packet) (\<lambda>header.
       if \<not> is_response header then Inl WrongDirection
       else
         rbind (skip_questions (unat (question_count header)) packet DNS_HEADER_LEN) (\<lambda>offset.
         let signed_record_count = unat (answer_count header) + unat (authority_count header) in
         rbind (root_rrsig_loop (total_records header) 0 signed_record_count packet offset [] [])
           (\<lambda>(required, covered, offset).
             if offset \<noteq> length packet then Inl TrailingData
             else Inr (\<not> set required \<subseteq> set covered))))"

section \<open>Key tags do not overflow\<close>

fun key_tag_nat :: "bool \<Rightarrow> bytes \<Rightarrow> nat" where
  "key_tag_nat even_index [] = 0"
| "key_tag_nat even_index (b # bs) =
     (if even_index then 256 * unat b else unat b) + key_tag_nat (\<not> even_index) bs"

lemma key_tag_nat_bound: "key_tag_nat e bs \<le> 65280 * length bs"
proof (induction e bs rule: key_tag_nat.induct)
  case (2 e b bs)
  moreover have "unat b \<le> 255" using unat_lt_256 [of b] by linarith
  ultimately show ?case by auto
qed simp

lemma unat_ucast_u8 [simp]:
  "unat (ucast (b :: u8) :: u32) = unat b" "unat (ucast (b :: u8) :: u16) = unat b"
proof -
  have "take_bit 32 n = n" "take_bit 16 n = n" if "n < 256" for n :: nat
    using that by (auto intro!: take_bit_nat_eq_self)
  from this [OF unat_lt_256 [of b]]
  show "unat (ucast b :: u32) = unat b" "unat (ucast b :: u16) = unat b"
    by (simp_all add: unsigned_ucast_eq)
qed

lemma unat_key_tag_sum:
  "unat acc + key_tag_nat e bs < 2 ^ 32 \<Longrightarrow> unat (key_tag_sum e bs acc) = unat acc + key_tag_nat e bs"
proof (induction e bs acc rule: key_tag_sum.induct)
  case (2 e b bs acc)
  have "unat b * 256 < 4294967296" using unat_lt_256 [of b] by linarith
  then have "unat (push_bit 8 (ucast b) :: u32) = 256 * unat b"
    by (simp add: push_bit_eq_mult unat_word_ariths)
  then show ?case
    using 2 by (cases e) (simp_all add: unat_word_ariths)
qed simp

section \<open>Type bitmaps\<close>

fun bitmap_blocks_ok :: "u8 option \<Rightarrow> (u8 \<times> bytes) list \<Rightarrow> bool" where
  "bitmap_blocks_ok previous [] = True"
| "bitmap_blocks_ok previous ((window, bs) # blocks) =
     (bs \<noteq> [] \<and> length bs \<le> 32 \<and> last bs \<noteq> 0 \<and>
      (case previous of None \<Rightarrow> True | Some p \<Rightarrow> p < window) \<and>
      bitmap_blocks_ok (Some window) blocks)"

definition bitmap_bytes :: "(u8 \<times> bytes) list \<Rightarrow> bytes" where
  "bitmap_bytes blocks = concat (map (\<lambda>(window, bs). window # of_nat (length bs) # bs) blocks)"

definition blocks_types :: "(u8 \<times> bytes) list \<Rightarrow> u16 list" where
  "blocks_types blocks = concat (map (\<lambda>(window, bs). window_types window bs) blocks)"

lemma bitmap_bytes_simps [simp]:
  "bitmap_bytes [] = []"
  "bitmap_bytes ((w, bs) # blocks) = w # of_nat (length bs) # bs @ bitmap_bytes blocks"
  by (simp_all add: bitmap_bytes_def)

lemma blocks_types_simps [simp]:
  "blocks_types [] = []" "blocks_types ((w, bs) # blocks) = window_types w bs @ blocks_types blocks"
  by (simp_all add: blocks_types_def)

lemma bitmap_loop_complete:
  assumes "bitmap_blocks_ok prev blocks" and "length (pre @ bitmap_bytes blocks) < usize_limit"
  shows "parse_type_bitmap_loop (pre @ bitmap_bytes blocks) (length pre) prev types =
    Inr (types @ blocks_types blocks)"
  using assms
proof (induction prev blocks arbitrary: pre types rule: bitmap_blocks_ok.induct)
  case (1 previous)
  then show ?case by (simp add: parse_type_bitmap_loop.simps)
next
  case (2 previous w bs blocks)
  let ?p = "pre @ bitmap_bytes ((w, bs) # blocks)"
  have u: "unat (of_nat (length bs) :: u8) = length bs" using 2(2) by (simp add: unat_of_nat)
  then have nz: "(of_nat (length bs) :: u8) \<noteq> 0" using 2(2) by (metis bitmap_blocks_ok.simps(2) length_0_conv unat_0)
  have at: "get_at ?p (length pre) = Some w" "get_at ?p (length pre + 1) = Some (of_nat (length bs))"
    by (simp_all add: get_at_def nth_append)
  have range: "get_range ?p (length pre + 2) (length pre + 2 + length bs) = Some bs"
    by (simp add: get_range_def)
  have IH: "parse_type_bitmap_loop ((pre @ w # of_nat (length bs) # bs) @ bitmap_bytes blocks)
      (length (pre @ w # of_nat (length bs) # bs)) (Some w) (types @ window_types w bs) =
      Inr ((types @ window_types w bs) @ blocks_types blocks)"
    using 2 by (intro 2(1)) auto
  have prev: "\<not> (case previous of None \<Rightarrow> False | Some p \<Rightarrow> w \<le> p)"
    using 2(2) by (auto split: option.splits)
  show ?case
    using 2(2,3) u nz at range prev IH
    by (subst parse_type_bitmap_loop.simps) (auto simp: checked_add_usize_def add.assoc)
qed

lemma bitmap_loop_sound:
  assumes "parse_type_bitmap_loop bm off prev types = Inr res"
  shows "\<exists>blocks. bitmap_blocks_ok prev blocks \<and> drop off bm = bitmap_bytes blocks \<and>
    res = types @ blocks_types blocks"
  using assms
proof (induction bm off prev types rule: parse_type_bitmap_loop.induct)
  case (1 bm off prev types)
  show ?case
  proof (cases "off < length bm")
    case False
    with 1(2) have "res = types" by (simp add: parse_type_bitmap_loop.simps [of bm off])
    with False show ?thesis by (intro exI [of _ "[]"]) simp
  next
    case True
    obtain w len bs where blk: "get_at bm off = Some w" "get_at bm (off + 1) = Some len"
      "len \<noteq> 0" "unat len \<le> 32" "\<not> (case prev of None \<Rightarrow> False | Some p \<Rightarrow> w \<le> p)"
      "off + 2 + unat len < usize_limit" "get_range bm (off + 2) (off + 2 + unat len) = Some bs"
      "\<not> (bs \<noteq> [] \<and> last bs = 0)"
      "parse_type_bitmap_loop bm (off + 2 + unat len) (Some w) (types @ window_types w bs) = Inr res"
      using 1(2) [unfolded parse_type_bitmap_loop.simps [of bm off]] True
      by (auto simp: rbind_eq_Inr ok_or_eq_Inr split: if_splits)
    have "\<exists>blocks. bitmap_blocks_ok (Some w) blocks \<and> drop (off + 2 + unat len) bm = bitmap_bytes blocks \<and>
        res = (types @ window_types w bs) @ blocks_types blocks"
      using True blk by (intro 1(1) [of w len "off + 2 + unat len" bs]) (simp_all add: ok_or_eq_Inr)
    then obtain blocks where b: "bitmap_blocks_ok (Some w) blocks"
      "drop (off + 2 + unat len) bm = bitmap_bytes blocks"
      "res = (types @ window_types w bs) @ blocks_types blocks" by blast
    have len: "length bs = unat len" "(of_nat (length bs) :: u8) = len"
      using length_get_range [OF blk(7)] by simp_all
    have "drop off bm = w # drop (Suc off) bm" "drop (Suc off) bm = len # drop (Suc (Suc off)) bm"
      using blk(1,2) Cons_nth_drop_Suc [of off bm] Cons_nth_drop_Suc [of "Suc off" bm]
      by (simp_all add: get_at_Some)
    then have "drop off bm = w # len # drop (off + 2) bm" by simp
    moreover have "drop (off + 2) bm = bs @ drop (off + 2 + unat len) bm"
      using blk(7) append_take_drop_id [of "unat len" "drop (off + 2) bm"]
      by (simp add: get_range_Some add.commute add.left_commute)
    ultimately have "drop off bm = bitmap_bytes ((w, bs) # blocks)" using b(2) len by simp
    moreover have "bs \<noteq> []" using len(1) blk(3) by (auto simp: unat_eq_zero)
    moreover from this have "last bs \<noteq> 0" using blk(8) by simp
    moreover have "case prev of None \<Rightarrow> True | Some p \<Rightarrow> p < w"
      using blk(5) by (simp add: not_le split: option.splits)
    ultimately show ?thesis
      using b blk(4) len by (intro exI [of _ "(w, bs) # blocks"]) simp
  qed
qed

text \<open>The types of a bitmap come out in strictly ascending order.\<close>

lemma window_types_upto:
  fixes w :: u8 and bs :: bytes
  assumes "length bs \<le> 32" and "n \<le> length bs"
  defines "ts \<equiv> concat (map (\<lambda>octet. map (\<lambda>bit. ucast w * 256 + of_nat (octet * 8 + bit) :: u16)
                    (filter (\<lambda>bit. bs ! octet AND drop_bit bit 0x80 \<noteq> 0) [0..<8])) [0..<n])"
  shows "sorted_wrt (<) (map unat ts) \<and>
    (\<forall>t \<in> set ts. unat w * 256 \<le> unat t \<and> unat t < unat w * 256 + 8 * n)"
  using assms(2) unfolding ts_def
proof (induction n)
  case 0
  then show ?case by simp
next
  case (Suc n)
  have val: "unat (ucast w * 256 + of_nat (n * 8 + bit) :: u16) = unat w * 256 + (n * 8 + bit)"
    if "bit < 8" for bit
  proof -
    have small: "n * 8 + bit < 256" using that Suc.prems assms(1) by simp
    then have "unat w * 256 + (n * 8 + bit) < 65536" using unat_lt_256 [of w] by linarith
    moreover have "unat w * 256 < 65536" using unat_lt_256 [of w] by linarith
    ultimately show ?thesis
      using small by (simp add: unat_word_ariths unat_of_nat del: of_nat_add of_nat_mult)
  qed
  have sorted: "sorted_wrt (<) (filter P [0..<8])" for P
    using sorted_wrt_filter [OF sorted_wrt_upt] .
  let ?new = "map (\<lambda>bit. ucast w * 256 + of_nat (n * 8 + bit) :: u16)
                (filter (\<lambda>bit. bs ! n AND drop_bit bit 0x80 \<noteq> 0) [0..<8])"
  have new: "map unat ?new = map (\<lambda>bit. unat w * 256 + (n * 8 + bit))
      (filter (\<lambda>bit. bs ! n AND drop_bit bit 0x80 \<noteq> 0) [0..<8])"
    by (auto simp: val simp del: of_nat_add of_nat_mult)
  have "sorted_wrt (<) (map unat ?new)"
    unfolding new by (simp add: sorted_wrt_map sorted)
  moreover have "unat w * 256 + 8 * n \<le> unat t \<and> unat t < unat w * 256 + 8 * Suc n" if "t \<in> set ?new" for t
    using that val by (auto simp del: of_nat_add of_nat_mult)
  ultimately show ?case
    using Suc by (fastforce simp: sorted_wrt_append simp del: of_nat_add of_nat_mult)
qed

lemma window_types_sorted:
  assumes "length bs \<le> 32"
  shows "sorted_wrt (<) (map unat (window_types w bs))"
    and "t \<in> set (window_types w bs) \<Longrightarrow> unat w * 256 \<le> unat t \<and> unat t < unat w * 256 + 256"
proof -
  note wt = window_types_upto [OF assms order.refl, where w = w, folded window_types_def]
  show "sorted_wrt (<) (map unat (window_types w bs))" using wt by simp
  show "unat w * 256 \<le> unat t \<and> unat t < unat w * 256 + 256" if "t \<in> set (window_types w bs)"
    using wt that assms by fastforce
qed

lemma blocks_types_sorted:
  assumes "bitmap_blocks_ok prev blocks"
  shows "sorted_wrt (<) (map unat (blocks_types blocks)) \<and>
    (\<forall>p. prev = Some p \<longrightarrow> (\<forall>t \<in> set (blocks_types blocks). unat p * 256 + 256 \<le> unat t))"
  using assms
proof (induction prev blocks rule: bitmap_blocks_ok.induct)
  case (1 previous)
  then show ?case by simp
next
  case (2 previous w bs blocks)
  then have len: "length bs \<le> 32" by simp
  note win = window_types_sorted [OF len, where w = w]
  from 2 have IH: "sorted_wrt (<) (map unat (blocks_types blocks))"
    "\<forall>t \<in> set (blocks_types blocks). unat w * 256 + 256 \<le> unat t" by simp_all
  have "unat t < unat u" if "t \<in> set (window_types w bs)" "u \<in> set (blocks_types blocks)" for t u
    using win(2) [OF that(1)] IH(2) that(2) by fastforce
  with win(1) IH(1) have "sorted_wrt (<) (map unat (blocks_types ((w, bs) # blocks)))"
    by (simp add: sorted_wrt_append)
  moreover have "unat p * 256 + 256 \<le> unat t"
    if "previous = Some p" "t \<in> set (blocks_types ((w, bs) # blocks))" for p t
  proof -
    have "unat p < unat w" using 2(2) that(1) by (simp add: word_less_nat_alt)
    moreover have "unat w * 256 \<le> unat t" using that(2) win(2) [of t] IH(2) by fastforce
    ultimately show ?thesis by simp
  qed
  ultimately show ?case by blast
qed

section \<open>Properties of the component\<close>

text \<open>
  C20: for every DNSKEY record other than of algorithm 1 whose data fits a record, the key tag
  is the checksum of RFC 4034: with the octets at even positions weighted by 256, it is the
  sum plus its carry, modulo 65536. The 32-bit accumulator never wraps.
\<close>

theorem dnskey_key_tag_checksum:
  assumes "rr_type r = TYPE_DNSKEY" and "4 \<le> length (rr_rdata r)" and "length (rr_rdata r) \<le> 65535"
    and "rr_rdata r ! 3 \<noteq> 1"
  shows "\<exists>tag. dnskey_key_tag r = Inr tag \<and>
    unat tag = (key_tag_nat True (rr_rdata r) + key_tag_nat True (rr_rdata r) div 65536) mod 65536"
proof -
  let ?s = "key_tag_nat True (rr_rdata r)" and ?acc = "key_tag_sum True (rr_rdata r) 0"
  have bound: "?s \<le> 65280 * 65535"
    using key_tag_nat_bound [of True "rr_rdata r"] assms(3)
    by (meson le_trans mult_le_mono2)
  then have acc: "unat ?acc = ?s" using unat_key_tag_sum [of 0 True "rr_rdata r"] by simp
  have mask: "(x AND 0xffff) = take_bit 16 x" for x :: u32
    by (simp add: take_bit_eq_mask mask_eq_exp_minus_1)
  have carry: "unat (drop_bit 16 ?acc AND 0xffff) = ?s div 65536"
  proof -
    have s: "?s < 4294967296" using bound by simp
    then have "?s div 65536 < 65536" by (simp add: less_mult_imp_div_less)
    moreover have "take_bit 32 ?s = ?s" using s by (simp add: take_bit_nat_eq_self)
    ultimately show ?thesis
      unfolding mask unsigned_take_bit_eq unsigned_drop_bit_eq
      by (simp add: acc drop_bit_eq_div take_bit_nat_eq_self)
  qed
  have "?s div 65536 < 65536" using bound by (simp add: less_mult_imp_div_less)
  with bound have "?s + ?s div 65536 < 4294967296" by simp
  then have "unat (?acc + (drop_bit 16 ?acc AND 0xffff)) = ?s + ?s div 65536"
    by (simp add: unat_word_ariths acc carry)
  moreover have "unat (ucast (x AND 0xffff) :: u16) = unat x mod 65536" for x :: u32
    unfolding mask unsigned_ucast_eq unsigned_take_bit_eq by (simp add: take_bit_eq_mod)
  ultimately show ?thesis
    using assms by (simp add: dnskey_key_tag_def Let_def)
qed

definition sample_dnskey :: resource_record where
  "sample_dnskey = \<lparr>rr_name = dns_name_of [], rr_type = TYPE_DNSKEY, rr_class = CLASS_IN, rr_ttl = 0,
     rr_ttl_offset = 0, rr_rdata_offset = 0, rr_rdata = [1, 1, 3, 8, 3, 1, 0, 1], rr_next_offset = 0\<rparr>"

theorem dnskey_key_tag_checksum_witness: "dnskey_key_tag sample_dnskey = Inr 1803"
proof -
  have s: "key_tag_nat True (rr_rdata sample_dnskey) = 1803" by (simp add: sample_dnskey_def)
  from dnskey_key_tag_checksum [of sample_dnskey] obtain tag where
    "dnskey_key_tag sample_dnskey = Inr tag" "unat tag = 1803"
    unfolding s by (auto simp: sample_dnskey_def)
  moreover have "unat (1803 :: u16) = 1803" by simp
  ultimately show ?thesis by (metis word_unat_eq_iff)
qed



text \<open>What the loop over the records requires and finds covered.\<close>

definition root_in :: "resource_record \<Rightarrow> bool" where
  "root_in r \<longleftrightarrow> rr_class r = CLASS_IN \<and> canonical_wire (rr_name r) = [0]"

definition type_covered_of :: "resource_record \<Rightarrow> u16" where
  "type_covered_of r = u16_from_be (rr_rdata r ! 0) (rr_rdata r ! 1)"

definition needs_root_signature :: "resource_record \<Rightarrow> bool" where
  "needs_root_signature r \<longleftrightarrow> root_in r \<and> rr_type r \<notin> {TYPE_RRSIG, TYPE_OPT, TYPE_TSIG}"

definition is_root_rrsig :: "resource_record \<Rightarrow> bool" where
  "is_root_rrsig r \<longleftrightarrow> root_in r \<and> rr_type r = TYPE_RRSIG"

lemma root_rrsig_loop_step:
  assumes "root_rrsig_loop (Suc n) index sgn_count p off req cov = Inr res"
  obtains r req' cov' where "parse_record p off = Inr r"
    and "root_rrsig_loop n (index + 1) sgn_count p (rr_next_offset r) req' cov' = Inr res"
    and "set req' = set req \<union> (if needs_root_signature r \<and> index < sgn_count then {rr_type r} else {})"
    and "set cov' = set cov \<union> (if is_root_rrsig r then {type_covered_of r} else {})"
proof -
  from assms obtain r where r: "parse_record p off = Inr r" by (auto simp: rbind_eq_Inr)
  note body = assms [unfolded root_rrsig_loop.simps r rbind_Inr Let_def]
  consider "\<not> root_in r" | "is_root_rrsig r" | "root_in r" "rr_type r \<noteq> TYPE_RRSIG"
    by (auto simp: is_root_rrsig_def)
  then show thesis
  proof cases
    case 1
    with body show thesis
      by (intro that [OF r, of req cov]) (auto simp: root_in_def needs_root_signature_def is_root_rrsig_def)
  next
    case 2
    with body have "root_rrsig_loop n (index + 1) sgn_count p (rr_next_offset r) req
        (push_new cov (type_covered_of r)) = Inr res"
      by (auto simp: root_in_def is_root_rrsig_def type_covered_of_def rbind_eq_Inr split: if_splits)
    with 2 show thesis
      by (intro that [OF r]) (auto simp: needs_root_signature_def is_root_rrsig_def)
  next
    case 3
    show thesis
    proof (cases "index < sgn_count \<and> rr_type r \<noteq> TYPE_OPT \<and> rr_type r \<noteq> TYPE_TSIG")
      case True
      with body 3 show thesis
        by (intro that [OF r, of "push_new req (rr_type r)" cov])
           (auto simp: root_in_def needs_root_signature_def is_root_rrsig_def)
    next
      case False
      with body 3 show thesis
        by (intro that [OF r, of req cov])
           (auto simp: root_in_def needs_root_signature_def is_root_rrsig_def split: if_splits)
    qed
  qed
qed

lemma root_rrsig_loop_Inr:
  assumes "root_rrsig_loop n index sgn_count p off req cov = Inr (req', cov', end)"
  shows "\<exists>rs. parse_many parse_record rr_next_offset n p off = Inr (rs, end) \<and>
    set req' = set req \<union> rr_type ` {r \<in> set (take (sgn_count - index) rs). needs_root_signature r} \<and>
    set cov' = set cov \<union> type_covered_of ` {r \<in> set rs. is_root_rrsig r}"
  using assms
proof (induction n arbitrary: index off req cov)
  case 0
  then show ?case by simp
next
  case (Suc n)
  from Suc.prems obtain r req1 cov1 where r: "parse_record p off = Inr r"
    and rest: "root_rrsig_loop n (index + 1) sgn_count p (rr_next_offset r) req1 cov1 = Inr (req', cov', end)"
    and sets: "set req1 = set req \<union> (if needs_root_signature r \<and> index < sgn_count then {rr_type r} else {})"
      "set cov1 = set cov \<union> (if is_root_rrsig r then {type_covered_of r} else {})"
    by (rule root_rrsig_loop_step)
  from Suc.IH [OF rest] obtain rs where rs:
    "parse_many parse_record rr_next_offset n p (rr_next_offset r) = Inr (rs, end)"
    "set req' = set req1 \<union> rr_type ` {r \<in> set (take (sgn_count - (index + 1)) rs). needs_root_signature r}"
    "set cov' = set cov1 \<union> type_covered_of ` {r \<in> set rs. is_root_rrsig r}" by blast
  have "take (sgn_count - index) (r # rs) =
      (if index < sgn_count then r # take (sgn_count - (index + 1)) rs else [])"
    by (simp add: take_Cons' )
  with r rs sets show ?case
    by (intro exI [of _ "r # rs"]) (auto split: if_splits)
qed

text \<open>
  \<open>root_rrsig_missing\<close> answers exactly whether a signature is missing at the root. On a
  well-formed response it returns true if and only if some record of the answer or authority
  section, owned by the root in class IN and neither a signature nor OPT or TSIG, has a type
  that no root RRSIG of the packet covers.
\<close>

theorem root_rrsig_missing_exact:
  assumes "root_rrsig_missing p = Inr missing"
  shows "\<exists>h qs rs. parse_sections p = Inr (h, qs, rs, length p) \<and> is_response h \<and>
    (missing \<longleftrightarrow>
      (\<exists>r \<in> set (take (unat (answer_count h) + unat (authority_count h)) rs).
         needs_root_signature r \<and>
         (\<forall>s \<in> set rs. is_root_rrsig s \<longrightarrow> type_covered_of s \<noteq> rr_type r)))"
proof -
  from assms obtain h off req cov where h: "header_parse p = Inr h" "is_response h"
    and off: "skip_questions (unat (question_count h)) p 12 = Inr off"
    and loop: "root_rrsig_loop (total_records h) 0 (unat (answer_count h) + unat (authority_count h)) p off [] []
       = Inr (req, cov, length p)"
    and missing: "missing \<longleftrightarrow> \<not> set req \<subseteq> set cov"
    by (auto simp: root_rrsig_missing_def rbind_eq_Inr Let_def split: if_splits)
  from off obtain qs where qs: "parse_questions (unat (question_count h)) p 12 = Inr (qs, off)"
    by (auto simp: skip_questions_eq rbind_eq_Inr)
  from root_rrsig_loop_Inr [OF loop] obtain rs where
    rs: "parse_many parse_record rr_next_offset (total_records h) p off = Inr (rs, length p)"
    "set req = rr_type ` {r \<in> set (take (unat (answer_count h) + unat (authority_count h)) rs). needs_root_signature r}"
    "set cov = type_covered_of ` {r \<in> set rs. is_root_rrsig r}" by auto
  have "parse_sections p = Inr (h, qs, rs, length p)"
    using h(1) qs rs(1) by (simp add: parse_sections_def parse_records_def)
  moreover have "missing \<longleftrightarrow>
      (\<exists>r \<in> set (take (unat (answer_count h) + unat (authority_count h)) rs).
         needs_root_signature r \<and>
         (\<forall>s \<in> set rs. is_root_rrsig s \<longrightarrow> type_covered_of s \<noteq> rr_type r))"
    unfolding missing rs(2,3) by (auto simp: image_subset_iff image_iff) metis+
  ultimately show ?thesis using h(2) by blast
qed

theorem root_rrsig_missing_exact_witness:
  "\<exists>h qs rs. parse_sections sample_response = Inr (h, qs, rs, length sample_response) \<and>
     root_rrsig_missing sample_response = Inr False"
proof -
  have "root_rrsig_missing sample_response = Inr False" by code_simp
  from root_rrsig_missing_exact [OF this] this show ?thesis by blast
qed

end
