(* ===== verification/Dnssec.thy ===== *)
theory Dnssec
  imports Wire_Dnssec "HOL-Library.List_Lexorder"
begin

text \<open>
  Signature checking: \<open>src/src/dnssec/canonical.rs\<close> (canonical form of an RRset and validity
  times) and \<open>src/src/dnssec.rs\<close> (digests, DS matching, RRSIG verification). The two
  cryptographic primitives are C functions outside the sources; they are parameters here, the
  digest as the return code with the contents of the output buffer, the signature check as
  its return code. A \<open>SystemTime\<close> is the number of whole seconds since the epoch, negative
  before it.
\<close>

section \<open>Errors and parameters\<close>

datatype dnssec_error =
    DnssecWire wire_error
  | DnssecOs int
  | DnssecInvalidData string
  | UnsupportedDigest u8
  | UnsupportedAlgorithm u8

type_synonym digest_fn = "u8 \<Rightarrow> bytes \<Rightarrow> nat \<Rightarrow> int \<times> bytes"
type_synonym verify_fn = "u8 \<Rightarrow> bytes \<Rightarrow> bytes \<Rightarrow> bytes \<Rightarrow> int"

abbreviation wire_result :: "wire_error + 'a \<Rightarrow> dnssec_error + 'a" where
  "wire_result \<equiv> map_err DnssecWire"

definition DNSKEY_FLAG_REVOKE :: u16 where [simp]: "DNSKEY_FLAG_REVOKE = push_bit 7 1"
definition DNSKEY_FLAG_ZONE_KEY :: u16 where [simp]: "DNSKEY_FLAG_ZONE_KEY = push_bit 8 1"

section \<open>Canonical form\<close>

function label_offsets_loop :: "bytes \<Rightarrow> nat \<Rightarrow> nat list \<Rightarrow> wire_error + nat list" where
  "label_offsets_loop name offset offsets =
     rbind (ok_or (get_at name offset) (InvalidName ''truncated canonical DNS name'')) (\<lambda>len.
       if len = 0 then
         (if offset + 1 \<noteq> length name then Inl (InvalidName ''canonical DNS name has trailing data'')
          else Inr offsets)
       else if unat len > 63 \<or> offset + 1 + unat len \<ge> length name
         then Inl (InvalidName ''invalid canonical DNS label'')
       else label_offsets_loop name (offset + 1 + unat len) (offsets @ [offset]))"
  by pat_completeness auto
termination
  by (relation "measure (\<lambda>(name, offset, _). length name - offset)") (auto simp: ok_or_eq_Inr get_at_Some)

declare label_offsets_loop.simps [simp del]

definition label_offsets :: "bytes \<Rightarrow> wire_error + nat list" where
  "label_offsets name = label_offsets_loop name 0 []"

definition canonical_owner :: "bytes \<Rightarrow> u8 \<Rightarrow> wire_error + bytes" where
  "canonical_owner owner labels =
     rbind (label_offsets owner) (\<lambda>label_offsets.
       let label_count = length label_offsets; labels = unat labels in
       if labels > label_count then Inl InvalidRecord
       else
         let canonical = map u8_lower owner in
         if labels = label_count then Inr canonical
         else if labels = 0 then Inr [1, 42, 0]
         else rbind (ok_or (get_range canonical (label_offsets ! (label_count - labels)) (length canonical))
                       InvalidRecord) (\<lambda>suffix. Inr ([1, 42] @ suffix)))"

definition rrsig_prefix :: "rrsig_record \<Rightarrow> bytes" where
  "rrsig_prefix s =
     u16_to_be (sig_type_covered s) @ [sig_algorithm s] @ [sig_labels s] @
     u32_to_be (sig_original_ttl s) @ u32_to_be (sig_expiration s) @ u32_to_be (sig_inception s) @
     u16_to_be (sig_key_tag s) @ canonical_wire (sig_signer s)"

definition canonical_single_name :: "bytes \<Rightarrow> resource_record \<Rightarrow> nat \<Rightarrow> wire_error + bytes" where
  "canonical_single_name packet record prefix =
     (if length (rr_rdata record) < prefix + 1 then Inl InvalidRecord
      else
        rbind (ok_or (checked_add_usize (rr_rdata_offset record) prefix) InvalidRecord) (\<lambda>name_offset.
        rbind (read_name packet name_offset) (\<lambda>(name, next).
          if next > rr_next_offset record then Inl InvalidRecord
          else
            rbind (ok_or (get_range packet next (rr_next_offset record)) InvalidRecord) (\<lambda>suffix.
            Inr (take prefix (rr_rdata record) @ canonical_wire name @ suffix)))))"

definition canonical_two_names :: "bytes \<Rightarrow> resource_record \<Rightarrow> nat \<Rightarrow> wire_error + bytes" where
  "canonical_two_names packet record prefix =
     (if length (rr_rdata record) < prefix + 2 then Inl InvalidRecord
      else
        rbind (ok_or (checked_add_usize (rr_rdata_offset record) prefix) InvalidRecord) (\<lambda>first_offset.
        rbind (read_name packet first_offset) (\<lambda>(first, second_offset).
        rbind (read_name packet second_offset) (\<lambda>(second, end).
          if end \<noteq> rr_next_offset record then Inl InvalidRecord
          else Inr (take prefix (rr_rdata record) @ canonical_wire first @ canonical_wire second)))))"

definition canonical_soa :: "bytes \<Rightarrow> resource_record \<Rightarrow> wire_error + bytes" where
  "canonical_soa packet record =
     rbind (read_name packet (rr_rdata_offset record)) (\<lambda>(primary_name, mailbox_offset).
     rbind (read_name packet mailbox_offset) (\<lambda>(mailbox_name, integers_offset).
     rbind (ok_or (get_range packet integers_offset (rr_next_offset record)) InvalidRecord) (\<lambda>integers.
       if length integers \<noteq> 20 then Inl InvalidRecord
       else Inr (canonical_wire primary_name @ canonical_wire mailbox_name @ integers))))"

fun skip_character_strings :: "nat \<Rightarrow> bytes \<Rightarrow> nat \<Rightarrow> nat \<Rightarrow> wire_error + nat" where
  "skip_character_strings 0 packet next_offset offset = Inr offset"
| "skip_character_strings (Suc n) packet next_offset offset =
     rbind (ok_or (get_at packet offset) InvalidRecord) (\<lambda>len.
     rbind (ok_or (checked_add_usize offset (1 + unat len)) InvalidRecord) (\<lambda>offset.
       if offset > next_offset then Inl InvalidRecord
       else skip_character_strings n packet next_offset offset))"

definition canonical_naptr :: "bytes \<Rightarrow> resource_record \<Rightarrow> wire_error + bytes" where
  "canonical_naptr packet record =
     (if length (rr_rdata record) < 8 then Inl InvalidRecord
      else
        rbind (skip_character_strings 3 packet (rr_next_offset record) (rr_rdata_offset record + 4)) (\<lambda>offset.
        rbind (read_name packet offset) (\<lambda>(replacement, end).
          if end \<noteq> rr_next_offset record then Inl InvalidRecord
          else
            rbind (ok_or (get_range packet (rr_rdata_offset record) offset) InvalidRecord) (\<lambda>prefix.
            Inr (prefix @ canonical_wire replacement)))))"

definition canonical_rdata :: "bytes \<Rightarrow> resource_record \<Rightarrow> wire_error + bytes" where
  "canonical_rdata packet record =
     (let t = rr_type record in
      if t \<in> set [2, 3, 4, 5, 7, 8, 9, 12, 23, 30, 39, 47] then canonical_single_name packet record 0
      else if t = 6 then canonical_soa packet record
      else if t \<in> set [14, 17] then canonical_two_names packet record 0
      else if t \<in> set [15, 18, 21, 36, 64, 65, 107] then canonical_single_name packet record 2
      else if t \<in> set [24, 46] then canonical_single_name packet record 18
      else if t = 26 then canonical_two_names packet record 2
      else if t = 33 then canonical_single_name packet record 6
      else if t = 35 then canonical_naptr packet record
      else Inr (rr_rdata record))"

text \<open>One record of the RRset in canonical form, as the body of the loop builds it.\<close>

definition canonical_record ::
  "bytes \<Rightarrow> rrsig_record \<Rightarrow> bytes \<Rightarrow> resource_record \<Rightarrow> resource_record \<Rightarrow> wire_error + bytes" where
  "canonical_record packet signature owner first record =
     (if rr_type record \<noteq> sig_type_covered signature \<or> rr_class record \<noteq> rr_class first \<or>
         canonical_wire (rr_name record) \<noteq> canonical_wire (rr_name first)
      then Inl InvalidRecord
      else
        rbind (canonical_rdata packet record) (\<lambda>rdata.
        rbind (ok_or (try_from_nat (length rdata)) InvalidRecord) (\<lambda>len.
        Inr (owner @ u16_to_be (rr_type record) @ u16_to_be (rr_class record) @
             u32_to_be (sig_original_ttl signature) @ u16_to_be len @ rdata))))"

fun map_result :: "('a \<Rightarrow> 'e + 'b) \<Rightarrow> 'a list \<Rightarrow> 'e + 'b list" where
  "map_result f [] = Inr []"
| "map_result f (x # xs) = rbind (f x) (\<lambda>y. rbind (map_result f xs) (\<lambda>ys. Inr (y # ys)))"

definition canonical_signed_data ::
  "bytes \<Rightarrow> resource_record \<Rightarrow> resource_record list \<Rightarrow> dnssec_error + bytes" where
  "canonical_signed_data packet rrsig_record rrset =
     wire_result (rbind (parse_rrsig packet rrsig_record) (\<lambda>signature.
       case rrset of
         [] \<Rightarrow> Inl InvalidRecord
       | first # _ \<Rightarrow>
           rbind (canonical_owner (canonical_wire (rr_name first)) (sig_labels signature)) (\<lambda>owner.
           rbind (map_result (canonical_record packet signature owner first) rrset) (\<lambda>canonical_records.
           Inr (rrsig_prefix signature @ concat (remdups_adj (sort canonical_records)))))))"

definition SIGNATURE_TIME_SKEW :: u64 where "SIGNATURE_TIME_SKEW = 60 * 60"

definition rrsig_time_valid :: "rrsig_record \<Rightarrow> int \<Rightarrow> bool" where
  "rrsig_time_valid signature now =
     (if now < 0 then False
      else
        let now = (ucast (if now < 2 ^ 32 then word_of_int now else - 1 :: u32) :: u64);
            skew = SIGNATURE_TIME_SKEW;
            inception = ucast (sig_inception signature);
            expiration = ucast (sig_expiration signature) in
        inception \<le> saturating_add_w now skew \<and> saturating_add_w expiration skew \<ge> now)"

section \<open>Digests and signatures\<close>

definition digest_length :: "u8 \<Rightarrow> nat option" where
  "digest_length digest_type =
     (if digest_type = 1 then Some 20 else if digest_type = 2 then Some 32
      else if digest_type = 4 then Some 48 else None)"

definition dnskey_ds_digest :: "digest_fn \<Rightarrow> resource_record \<Rightarrow> u8 \<Rightarrow> dnssec_error + bytes" where
  "dnskey_ds_digest digest dnskey_record digest_type =
     rbind (wire_result (parse_dnskey dnskey_record)) (\<lambda>_.
     rbind (ok_or (digest_length digest_type) (UnsupportedDigest digest_type)) (\<lambda>output_length.
     let input = canonical_wire (rr_name dnskey_record) @ rr_rdata dnskey_record;
         (result, output) = digest digest_type input output_length in
     if result < 0 then Inl (DnssecOs (- result))
     else if result \<noteq> int output_length
       then Inl (DnssecInvalidData ''unexpected DNSSEC digest length'')
     else Inr output))"

definition ds_matches_dnskey :: "digest_fn \<Rightarrow> resource_record \<Rightarrow> resource_record \<Rightarrow> dnssec_error + bool" where
  "ds_matches_dnskey digest ds_record dnskey_record =
     rbind (wire_result (parse_ds ds_record)) (\<lambda>ds.
     rbind (wire_result (parse_dnskey dnskey_record)) (\<lambda>dnskey.
       if ds_algorithm ds \<noteq> dk_algorithm dnskey then Inr False
       else
         rbind (wire_result (dnskey_key_tag dnskey_record)) (\<lambda>tag.
           if ds_key_tag ds \<noteq> tag then Inr False
           else
             rbind (dnskey_ds_digest digest dnskey_record (ds_digest_type ds)) (\<lambda>d.
             Inr (ds_digest ds = d)))))"

definition verify_signature :: "verify_fn \<Rightarrow> u8 \<Rightarrow> bytes \<Rightarrow> bytes \<Rightarrow> bytes \<Rightarrow> dnssec_error + bool" where
  "verify_signature verify algorithm key data signature =
     (if algorithm \<notin> set [5, 7, 8, 10, 13, 14, 15] then Inl (UnsupportedAlgorithm algorithm)
      else
        let result = verify algorithm key data signature in
        if result = 1 then Inr True
        else if result = 0 then Inr False
        else if result < 0 then Inl (DnssecOs (- result))
        else Inl (DnssecInvalidData ''invalid DNSSEC signature verification result''))"

definition verify_rrsig ::
  "verify_fn \<Rightarrow> bytes \<Rightarrow> resource_record \<Rightarrow> resource_record list \<Rightarrow> resource_record \<Rightarrow> int \<Rightarrow> dnssec_error + bool" where
  "verify_rrsig verify packet rrsig_record rrset dnskey_record now =
     (case rrset of
        [] \<Rightarrow> Inl (DnssecWire InvalidRecord)
      | first # _ \<Rightarrow>
          rbind (wire_result (parse_rrsig packet rrsig_record)) (\<lambda>signature.
          rbind (wire_result (parse_dnskey dnskey_record)) (\<lambda>dnskey.
            if rr_class rrsig_record \<noteq> rr_class first \<or>
               canonical_wire (rr_name rrsig_record) \<noteq> canonical_wire (rr_name first) \<or>
               rr_class dnskey_record \<noteq> rr_class first \<or>
               canonical_wire (rr_name dnskey_record) \<noteq> canonical_wire (sig_signer signature) \<or>
               dk_algorithm dnskey \<noteq> sig_algorithm signature
            then Inr False
            else
              rbind (wire_result (dnskey_key_tag dnskey_record)) (\<lambda>tag.
                if tag \<noteq> sig_key_tag signature \<or>
                   dk_flags dnskey AND DNSKEY_FLAG_ZONE_KEY = 0 \<or>
                   dk_flags dnskey AND DNSKEY_FLAG_REVOKE \<noteq> 0 \<or>
                   list_ex (\<lambda>record. rr_ttl record > sig_original_ttl signature) rrset \<or>
                   \<not> rrsig_time_valid signature now
                then Inr False
                else
                  rbind (canonical_signed_data packet rrsig_record rrset) (\<lambda>signed_data.
                  verify_signature verify (sig_algorithm signature) (dk_public_key dnskey)
                    signed_data (sig_signature signature))))))"

section \<open>Owners and wildcards\<close>

lemma u8_lower_small: "unat b < 65 \<Longrightarrow> u8_lower b = b"
  by (auto simp: u8_lower_def word_le_nat_alt)

lemma map_lower_wire:
  "valid_labels ls \<Longrightarrow> map u8_lower (wire_of_labels ls) = wire_of_labels (map (map u8_lower) ls)"
  by (induction ls) (auto simp: u8_lower_small unat_label_length)

lemma label_offsets_loop_wire:
  assumes "valid_labels ls" and "i \<le> length ls"
  shows "label_offsets_loop (wire_of_labels ls) (labels_size (take i ls)) offs =
    Inr (offs @ map (\<lambda>j. labels_size (take j ls)) [i..<length ls])"
  using assms(2)
proof (induction i arbitrary: offs rule: inc_induct)
  case base
  have "get_at (wire_of_labels ls) (labels_size ls) = Some 0"
    using get_at_labels_size [of ls "[]"] by (simp add: get_at_def)
  then show ?case
    by (subst label_offsets_loop.simps) (simp add: length_wire_labels_size)
next
  case (step i)
  note st = label_step [OF assms(1) step.hyps(2)]
  have word: "unat (of_nat (length (ls ! i)) :: u8) = length (ls ! i)"
    "(of_nat (length (ls ! i)) :: u8) \<noteq> 0"
    using st(2,3) unat_label_length wire_label_length by blast+
  have bound: "\<not> length (wire_of_labels ls) \<le> labels_size (take i ls) + 1 + length (ls ! i)"
    using st(4,5) by (simp add: length_wire_labels_size)
  have nxt: "labels_size (take i ls) + 1 + length (ls ! i) = labels_size (take (Suc i) ls)"
    using st(4) by simp
  have "label_offsets_loop (wire_of_labels ls) (labels_size (take i ls)) offs =
      label_offsets_loop (wire_of_labels ls) (labels_size (take (Suc i) ls)) (offs @ [labels_size (take i ls)])"
    using st(3) bound nxt by (subst label_offsets_loop.simps) (simp add: st(1) word del: One_nat_def)
  also have "\<dots> = Inr ((offs @ [labels_size (take i ls)]) @ map (\<lambda>j. labels_size (take j ls)) [Suc i..<length ls])"
    by (rule step.IH)
  finally show ?case using step.hyps(2) by (simp add: upt_conv_Cons)
qed

lemma label_offsets_wire:
  "valid_labels ls \<Longrightarrow>
   label_offsets (wire_of_labels ls) = Inr (map (\<lambda>j. labels_size (take j ls)) [0..<length ls])"
  using label_offsets_loop_wire [of ls 0 "[]"] by (simp add: label_offsets_def)

lemma canonical_owner_wire:
  assumes "valid_labels ls"
  shows "canonical_owner (wire_of_labels ls) n =
    (if length ls < unat n then Inl InvalidRecord
     else if unat n = length ls then Inr (wire_of_labels (map (map u8_lower) ls))
     else Inr (wire_of_labels ([42] # map (map u8_lower) (drop (length ls - unat n) ls))))"
proof (cases "unat n < length ls \<and> unat n \<noteq> 0")
  case True
  let ?i = "length ls - unat n"
  have i: "?i < length ls" using True by (intro diff_less) auto
  have "get_range (wire_of_labels (map (map u8_lower) ls)) (labels_size (take ?i ls))
      (length (wire_of_labels (map (map u8_lower) ls))) = Some (wire_of_labels (map (map u8_lower) (drop ?i ls)))"
  proof -
    have size: "labels_size (map (map u8_lower) xs) = labels_size xs" for xs
      by (induction xs) auto
    have "drop (labels_size (take ?i ls)) (wire_of_labels (map (map u8_lower) ls)) =
        wire_of_labels (map (map u8_lower) (drop ?i ls))"
      using drop_labels_size [of "map (map u8_lower) (take ?i ls)" "map (map u8_lower) (drop ?i ls)"]
      by (simp add: size flip: map_append)
    moreover have "labels_size ls = labels_size (take ?i ls) + labels_size (drop ?i ls)"
      by (metis append_take_drop_id labels_size_simps(3))
    ultimately show ?thesis by (simp add: get_range_def length_wire_labels_size size)
  qed
  with True i show ?thesis
    by (simp add: canonical_owner_def label_offsets_wire assms map_lower_wire Let_def)
next
  case False
  then show ?thesis
    by (auto simp: canonical_owner_def label_offsets_wire assms map_lower_wire Let_def)
qed

section \<open>The signed data depends on the set of records only\<close>

lemma map_result_Inr:
  "map_result f xs = Inr ys \<longleftrightarrow> list_all2 (\<lambda>x y. f x = Inr y) xs ys"
  by (induction xs arbitrary: ys) (auto simp: rbind_eq_Inr list_all2_Cons1)

lemma map_result_set:
  assumes "map_result f xs = Inr ys"
  shows "set ys = {y. \<exists>x \<in> set xs. f x = Inr y}" and "x \<in> set xs \<Longrightarrow> \<exists>y. f x = Inr y"
  using assms unfolding map_result_Inr
  by (induction rule: list_all2_induct) auto

lemma map_result_ok: "(\<And>x. x \<in> set xs \<Longrightarrow> \<exists>y. f x = Inr y) \<Longrightarrow> \<exists>ys. map_result f xs = Inr ys"
  by (induction xs) fastforce+

lemma distinct_remdups_adj_sorted:
  "sorted xs \<Longrightarrow> distinct (remdups_adj (xs :: 'a::linorder list))"
  by (induction xs rule: remdups_adj.induct) auto

lemma remdups_adj_sort_cong:
  "set xs = set ys \<Longrightarrow> remdups_adj (sort xs) = remdups_adj (sort (ys :: 'a::linorder list))"
proof -
  assume eq: "set xs = set ys"
  have distinct: "distinct (remdups_adj (sort zs))" "sorted (remdups_adj (sort zs))" for zs :: "'a list"
    by (simp_all add: distinct_remdups_adj_sorted)
  show ?thesis
    by (rule sorted_distinct_set_unique) (simp_all add: distinct eq)
qed

lemma canonical_record_first:
  "rr_class first' = rr_class first \<Longrightarrow>
   canonical_wire (rr_name first') = canonical_wire (rr_name first) \<Longrightarrow>
   canonical_record p s o' first' r = canonical_record p s o' first r"
  by (simp add: canonical_record_def)

lemma canonical_signed_data_Inr:
  assumes "canonical_signed_data p s rs = Inr d"
  obtains sig first rest owner recs where "rs = first # rest" and "parse_rrsig p s = Inr sig"
    and "canonical_owner (canonical_wire (rr_name first)) (sig_labels sig) = Inr owner"
    and "map_result (canonical_record p sig owner first) rs = Inr recs"
    and "d = rrsig_prefix sig @ concat (remdups_adj (sort recs))"
  using assms
  by (cases rs) (auto simp: canonical_signed_data_def map_err_eq_Inr rbind_eq_Inr
      simp del: map_result.simps)

lemma canonical_record_same_owner:
  "canonical_record p sig o' first r = Inr c \<Longrightarrow>
   rr_class r = rr_class first \<and> canonical_wire (rr_name r) = canonical_wire (rr_name first) \<and>
   rr_type r = sig_type_covered sig"
  by (auto simp: canonical_record_def split: if_splits)

lemma canonical_signed_data_set:
  assumes d: "canonical_signed_data p s rs = Inr d" and "set rs' = set rs"
  shows "canonical_signed_data p s rs' = Inr d"
proof -
  from d obtain sig first rest owner recs where rs: "rs = first # rest"
    and sig: "parse_rrsig p s = Inr sig"
    and owner: "canonical_owner (canonical_wire (rr_name first)) (sig_labels sig) = Inr owner"
    and recs: "map_result (canonical_record p sig owner first) rs = Inr recs"
    and d': "d = rrsig_prefix sig @ concat (remdups_adj (sort recs))"
    by (rule canonical_signed_data_Inr)
  obtain first' rest' where rs': "rs' = first' # rest'" using assms(2) rs by (cases rs') auto
  then have "first' \<in> set rs" using assms(2) by auto
  then obtain c where "canonical_record p sig owner first first' = Inr c"
    using map_result_set(2) [OF recs] by blast
  then have same: "rr_class first' = rr_class first"
    "canonical_wire (rr_name first') = canonical_wire (rr_name first)"
    by (auto dest: canonical_record_same_owner)
  then have fn: "canonical_record p sig owner first' = canonical_record p sig owner first"
    by (intro ext canonical_record_first)
  obtain recs' where recs': "map_result (canonical_record p sig owner first) rs' = Inr recs'"
    using map_result_ok [of rs'] map_result_set(2) [OF recs] assms(2) by metis
  then have "set recs' = set recs"
    using map_result_set(1) [OF recs] map_result_set(1) [OF recs'] assms(2) by simp
  then have "remdups_adj (sort recs') = remdups_adj (sort recs)" by (rule remdups_adj_sort_cong)
  with rs' sig owner same fn recs' d' show ?thesis
    by (simp add: canonical_signed_data_def del: map_result.simps)
qed

section \<open>The order of the canonical records\<close>

lemma less_append_prefix: "(p @ xs < p @ ys) \<longleftrightarrow> xs < (ys :: 'a::linorder list)"
  by (induction p) auto

lemma u16_to_be_less:
  "(u16_to_be a @ xs < u16_to_be b @ ys) \<longleftrightarrow> a < b \<or> (a = b \<and> xs < ys)"
proof -
  have val: "unat v = 256 * unat (ucast (drop_bit 8 v) :: u8) + unat (ucast v :: u8)" for v :: u16
  proof -
    have "unat v < 65536" using unsigned_less [of v] by simp
    then have "unat v div 256 < 256" by (simp add: less_mult_imp_div_less)
    then have "unat (ucast (drop_bit 8 v) :: u8) = unat v div 256"
      unfolding unsigned_ucast_eq unsigned_drop_bit_eq
      by (simp add: drop_bit_eq_div take_bit_nat_eq_self unsigned_less [where ?w = v, simplified])
    moreover have "unat (ucast v :: u8) = unat v mod 256"
      unfolding unsigned_ucast_eq by (simp add: take_bit_eq_mod)
    ultimately show ?thesis by simp
  qed
  have pair_less: "256 * h + l < 256 * h' + l' \<longleftrightarrow> h < h' \<or> (h = h' \<and> l < l')"
    if "l < 256" "l' < 256" for h l h' l' :: nat
    using that by linarith
  have pair_eq: "256 * h + l = 256 * h' + l' \<longleftrightarrow> h = h' \<and> l = l'"
    if "l < 256" "l' < 256" for h l h' l' :: nat
    using pair_less [OF that, of h h'] pair_less [OF that(2,1), of h' h] by auto
  note low = unat_lt_256 [of "ucast a :: u8"] unat_lt_256 [of "ucast b :: u8"]
  have "unat a < unat b \<longleftrightarrow> unat (ucast (drop_bit 8 a) :: u8) < unat (ucast (drop_bit 8 b) :: u8) \<or>
      (unat (ucast (drop_bit 8 a) :: u8) = unat (ucast (drop_bit 8 b) :: u8) \<and>
       unat (ucast a :: u8) < unat (ucast b :: u8))"
    "unat a = unat b \<longleftrightarrow> unat (ucast (drop_bit 8 a) :: u8) = unat (ucast (drop_bit 8 b) :: u8) \<and>
       unat (ucast a :: u8) = unat (ucast b :: u8)"
    using pair_less [OF low] pair_eq [OF low] val [of a] val [of b] by simp_all
  then show ?thesis
    by (auto simp: u16_to_be_def word_less_nat_alt word_unat_eq_iff)
qed

lemma rrsig_time_valid_bounds:
  assumes "rrsig_time_valid sig now"
  shows "0 \<le> now \<and> uint (sig_inception sig) \<le> min now (2 ^ 32 - 1) + 3600 \<and>
    min now (2 ^ 32 - 1) \<le> uint (sig_expiration sig) + 3600"
proof -
  let ?now = "ucast (if now < 2 ^ 32 then word_of_int now else - 1 :: u32) :: u64"
  have pos: "0 \<le> now" using assms by (auto simp: rrsig_time_valid_def split: if_splits)
  have up: "uint (ucast (x :: u32) :: u64) = uint x" for x
  proof -
    have "uint x < 2 ^ 32" "0 \<le> uint x" using unsigned_less [of x, where 'a = int] by simp_all
    then show ?thesis unfolding unsigned_ucast_eq by (simp add: take_bit_int_eq_self)
  qed
  have now: "uint ?now = min now (2 ^ 32 - 1)"
    unfolding up using pos by (auto simp: uint_word_of_int unsigned_minus_1_eq_mask mask_eq_exp_minus_1)
  have sat: "uint (saturating_add_w (ucast (x :: u32) :: u64) SIGNATURE_TIME_SKEW) = uint x + 3600" for x
  proof -
    have x: "uint x < 2 ^ 32" "0 \<le> uint x" using unsigned_less [of x, where 'a = int] by simp_all
    then have "uint (ucast x :: u64) + uint SIGNATURE_TIME_SKEW < 2 ^ LENGTH(64)"
      by (simp add: up SIGNATURE_TIME_SKEW_def)
    then show ?thesis
      using x by (simp add: saturating_add_w_code up SIGNATURE_TIME_SKEW_def uint_word_ariths)
  qed
  from assms pos show ?thesis
    unfolding rrsig_time_valid_def Let_def word_le_def sat up now
    using now [unfolded up] by (auto split: if_splits)
qed

section \<open>Properties of the component\<close>

text \<open>A signed RRset of one A record and a zone key, on which statements are evaluated.\<close>

definition signed_packet :: bytes where
  "signed_packet = [1, 97, 0, 0, 1, 0, 1, 0, 0, 0, 30, 0, 4, 192, 0, 2, 1,
     1, 97, 0, 0, 46, 0, 1, 0, 0, 0, 30, 0, 22, 0, 1, 15, 1, 0, 0, 0, 60, 0, 0, 41, 104,
     0, 0, 36, 184, 13, 25, 1, 97, 0, 1]"

definition zone_key :: resource_record where
  "zone_key = \<lparr>rr_name = dns_name_of [[97]], rr_type = TYPE_DNSKEY, rr_class = CLASS_IN, rr_ttl = 60,
     rr_ttl_offset = 0, rr_rdata_offset = 0, rr_rdata = [1, 1, 3, 15, 9, 9], rr_next_offset = 0\<rparr>"

lemma signed_packet_records:
  obtains a s where "parse_record signed_packet 0 = Inr a" and "parse_record signed_packet 17 = Inr s"
    and "is_ok (canonical_signed_data signed_packet s [a])"
    and "verify_rrsig (\<lambda>_ _ _ _. 1) signed_packet s [a] zone_key 10000 = Inr True"
proof -
  have "case (parse_record signed_packet 0, parse_record signed_packet 17) of
      (Inr a, Inr s) \<Rightarrow> is_ok (canonical_signed_data signed_packet s [a]) \<and>
        verify_rrsig (\<lambda>_ _ _ _. 1) signed_packet s [a] zone_key 10000 = Inr True
    | _ \<Rightarrow> False" by code_simp
  then show thesis by (auto split: sum.splits intro: that)
qed

text \<open>
  The owner name used for signing follows the RRSIG's label count. For an owner with
  labels \<open>ls\<close>: more labels than the owner has is an error, as many give the lower-case owner,
  and fewer give the wildcard over the last so many labels.
\<close>

theorem canonical_owner_wildcard:
  assumes "valid_labels ls"
  shows "canonical_owner (wire_of_labels ls) n =
    (if length ls < unat n then Inl InvalidRecord
     else if unat n = length ls then Inr (wire_of_labels (map (map u8_lower) ls))
     else Inr (wire_of_labels ([42] # map (map u8_lower) (drop (length ls - unat n) ls))))"
  using assms by (rule canonical_owner_wire)

theorem canonical_owner_wildcard_witness:
  "canonical_owner (wire_of_labels [[65], [66, 67]]) 1 = Inr (wire_of_labels [[42], [98, 99]])"
  using canonical_owner_wildcard [of "[[65], [66, 67]]" 1] by (simp add: u8_lower_def)

text \<open>
  C24: the data a signature is checked against depends on the set of records only: reordering
  the RRset or repeating a record in it leaves the signed data unchanged.
\<close>

theorem canonical_signed_data_order_independent:
  assumes "canonical_signed_data p s rs = Inr d" and "set rs' = set rs"
  shows "canonical_signed_data p s rs' = Inr d"
  using assms by (rule canonical_signed_data_set)

theorem canonical_signed_data_order_independent_witness:
  "\<exists>a s d. canonical_signed_data signed_packet s [a] = Inr d \<and>
     canonical_signed_data signed_packet s [a, a] = Inr d"
proof -
  obtain a s d where d: "canonical_signed_data signed_packet s [a] = Inr d"
    using signed_packet_records by (metis is_ok_iff)
  with canonical_signed_data_order_independent [OF d, of "[a, a]"] show ?thesis by auto
qed


definition sample_rrsig :: rrsig_record where
  "sample_rrsig = \<lparr>sig_type_covered = 15, sig_algorithm = 8, sig_labels = 1, sig_original_ttl = 60,
     sig_expiration = 10600, sig_inception = 9400, sig_key_tag = 1803, sig_signer = dns_name_of [[97]],
     sig_signature = [1]\<rparr>"

definition mx_packet :: bytes where
  "mx_packet = [1, 97, 0, 0, 15, 0, 1, 0, 0, 0, 60, 0, 5, 0, 20, 1, 97, 0,
                1, 97, 0, 0, 15, 0, 1, 0, 0, 0, 60, 0, 6, 0, 10, 2, 98, 98, 0]"


text \<open>
  C23: a positive verdict is justified. When \<open>verify_rrsig\<close> returns true, the RRset is not
  empty, the key is a zone key that is not revoked, of the signer's name and of the signature's
  algorithm and key tag, owner and class agree, no TTL exceeds the original TTL, the current
  time lies within the signature's validity up to an hour of skew (times past the 32-bit range
  count as its end), and the primitive accepted the signature for the canonical data.
\<close>

theorem verify_rrsig_sound:
  assumes "verify_rrsig verify p rrsig rrset key now = Inr True"
  shows "\<exists>sig dk d. rrset \<noteq> [] \<and> parse_rrsig p rrsig = Inr sig \<and> parse_dnskey key = Inr dk \<and>
    canonical_wire (rr_name rrsig) = canonical_wire (rr_name (hd rrset)) \<and>
    rr_class rrsig = rr_class (hd rrset) \<and> rr_class key = rr_class (hd rrset) \<and>
    canonical_wire (rr_name key) = canonical_wire (sig_signer sig) \<and>
    dk_algorithm dk = sig_algorithm sig \<and> dnskey_key_tag key = Inr (sig_key_tag sig) \<and>
    bit (dk_flags dk) 8 \<and> \<not> bit (dk_flags dk) 7 \<and>
    (\<forall>r \<in> set rrset. rr_ttl r \<le> sig_original_ttl sig \<and> rr_type r = sig_type_covered sig) \<and>
    0 \<le> now \<and> uint (sig_inception sig) \<le> min now (2 ^ 32 - 1) + 3600 \<and>
    min now (2 ^ 32 - 1) \<le> uint (sig_expiration sig) + 3600 \<and>
    canonical_signed_data p rrsig rrset = Inr d \<and>
    verify (sig_algorithm sig) (dk_public_key dk) d (sig_signature sig) = 1"
proof -
  obtain first rest where rrset: "rrset = first # rest"
    using assms by (cases rrset) (auto simp: verify_rrsig_def)
  note body = assms [unfolded verify_rrsig_def rrset list.case]
  from body obtain sig where sig: "parse_rrsig p rrsig = Inr sig"
    by (auto simp: rbind_eq_Inr map_err_eq_Inr)
  from body sig obtain dk where dk: "parse_dnskey key = Inr dk"
    by (auto simp: rbind_eq_Inr map_err_eq_Inr)
  note body = body [unfolded sig dk map_err_simps rbind_Inr]
  from body have c1: "rr_class rrsig = rr_class first"
    "canonical_wire (rr_name rrsig) = canonical_wire (rr_name first)" "rr_class key = rr_class first"
    "canonical_wire (rr_name key) = canonical_wire (sig_signer sig)" "dk_algorithm dk = sig_algorithm sig"
    by (auto split: if_splits)
  note body = body [simplified c1, simplified]
  from body have tag: "dnskey_key_tag key = Inr (sig_key_tag sig)"
    by (auto simp: rbind_eq_Inr map_err_eq_Inr split: if_splits)
  note body = body [unfolded tag map_err_simps rbind_Inr]
  from body have c2: "dk_flags dk AND DNSKEY_FLAG_ZONE_KEY \<noteq> 0" "dk_flags dk AND DNSKEY_FLAG_REVOKE = 0"
    "\<not> list_ex (\<lambda>record. rr_ttl record > sig_original_ttl sig) rrset" "rrsig_time_valid sig now"
    by (auto simp: rrset split: if_splits)
  from body obtain d where d: "canonical_signed_data p rrsig rrset = Inr d"
    "verify_signature verify (sig_algorithm sig) (dk_public_key dk) d (sig_signature sig) = Inr True"
    by (auto simp: rrset rbind_eq_Inr split: if_splits)
  have v: "verify (sig_algorithm sig) (dk_public_key dk) d (sig_signature sig) = 1"
    using d(2) by (auto simp: verify_signature_def Let_def split: if_splits)
  have flags: "bit (dk_flags dk) 8" "\<not> bit (dk_flags dk) 7"
    using c2(1,2) by (auto simp: bit_iff_and_push_bit_not_eq_0)
  have types: "rr_type r = sig_type_covered sig" if "r \<in> set rrset" for r
    using canonical_signed_data_Inr [OF d(1)] sig map_result_set(2) canonical_record_same_owner that
    by (metis sum.inject(2))
  show ?thesis
    using rrset sig dk c1 tag c2(3) d(1) v flags types rrsig_time_valid_bounds [OF c2(4)]
    by (intro exI [of _ sig] exI [of _ dk] exI [of _ d]) (auto simp: list_ex_iff not_less)
qed

theorem verify_rrsig_sound_witness:
  "\<exists>a s d. canonical_signed_data signed_packet s [a] = Inr d \<and>
     verify_rrsig (\<lambda>_ _ _ _. 1) signed_packet s [a] zone_key 10000 = Inr True"
proof -
  obtain a s where v: "verify_rrsig (\<lambda>_ _ _ _. 1) signed_packet s [a] zone_key 10000 = Inr True"
    by (rule signed_packet_records)
  from verify_rrsig_sound [OF v] v show ?thesis by blast
qed

text \<open>
  A DS record matches a key exactly when algorithm and key tag agree and the digest
  primitive, given the key's canonical owner followed by its data, returns the full length and
  the digest of the DS record; digest types other than 1, 2 and 4 are reported as unsupported.
\<close>

theorem ds_matches_dnskey_exact:
  assumes "parse_ds ds = Inr d" and "parse_dnskey key = Inr k" and "dnskey_key_tag key = Inr tag"
  shows "ds_matches_dnskey digest ds key = Inr True \<longleftrightarrow>
      ds_algorithm d = dk_algorithm k \<and> ds_key_tag d = tag \<and>
      (\<exists>n. digest_length (ds_digest_type d) = Some n \<and>
           digest (ds_digest_type d) (canonical_wire (rr_name key) @ rr_rdata key) n = (int n, ds_digest d))"
proof (cases "digest_length (ds_digest_type d)")
  case None
  with assms show ?thesis
    by (simp add: ds_matches_dnskey_def dnskey_ds_digest_def)
next
  case (Some n)
  obtain result out where out: "digest (ds_digest_type d) (canonical_wire (rr_name key) @ rr_rdata key) n = (result, out)"
    by (cases "digest (ds_digest_type d) (canonical_wire (rr_name key) @ rr_rdata key) n")
  with Some assms show ?thesis
    by (auto simp: ds_matches_dnskey_def dnskey_ds_digest_def)
qed

definition sample_ds :: resource_record where
  "sample_ds = zone_key\<lparr>rr_type := TYPE_DS, rr_rdata := [13, 25, 15, 1] @ replicate 20 7\<rparr>"

theorem ds_matches_dnskey_exact_witness:
  "ds_matches_dnskey (\<lambda>_ _ n. (int n, replicate n 7)) sample_ds zone_key = Inr True"
proof -
  have "case (parse_ds sample_ds, parse_dnskey zone_key, dnskey_key_tag zone_key) of
      (Inr d, Inr k, Inr tag) \<Rightarrow> ds_algorithm d = dk_algorithm k \<and> ds_key_tag d = tag \<and>
         ds_digest_type d = 1 \<and> ds_digest d = replicate 20 7
    | _ \<Rightarrow> False" by code_simp
  then obtain d k tag where p: "parse_ds sample_ds = Inr d" "parse_dnskey zone_key = Inr k"
    "dnskey_key_tag zone_key = Inr tag"
    and d: "ds_algorithm d = dk_algorithm k" "ds_key_tag d = tag" "ds_digest_type d = 1"
      "ds_digest d = replicate 20 7"
    by (auto split: sum.splits)
  then show ?thesis
    by (subst ds_matches_dnskey_exact [OF p]) (auto simp: digest_length_def)
qed

end
