(* ===== verification/Server_State.thy ===== *)
theory Server_State
  imports Net_Types Resolved_Prelude "HOL-Library.AList"
begin

text \<open>
  What the resolver remembers of an upstream server: the EDNS feature level it probes
  (\<open>ServerFeatureState\<close> in \<open>src/src/edns.rs\<close>), the transport it uses
  (\<open>ServerTransportState\<close> in \<open>src/src/transport.rs\<close>) and the table of capabilities of
  \<open>src/src/server_features.rs\<close>. The first two are state machines: their methods are functions
  on a record, the step relations list the calls a client can make, and the invariants hold
  in every reachable state. An \<open>Instant\<close> is a number of nanoseconds, with the range of the
  platform's clock written out where the source uses \<open>checked_add\<close>.
\<close>

section \<open>Time\<close>

type_synonym instant = nat
type_synonym duration = nat

definition from_secs :: "nat \<Rightarrow> duration" where "from_secs s = s * 1000000000"

definition instant_limit :: nat where "instant_limit = from_secs (2 ^ 63)"

definition duration_max :: duration where "duration_max = from_secs (2 ^ 64) - 1"

definition instant_checked_add :: "instant \<Rightarrow> duration \<Rightarrow> instant option" where
  "instant_checked_add t d = (if t + d < instant_limit then Some (t + d) else None)"

definition duration_saturating_mul :: "duration \<Rightarrow> nat \<Rightarrow> duration" where
  "duration_saturating_mul d n = min (d * n) duration_max"

section \<open>EDNS feature levels\<close>

datatype feature_level = FlUdp | FlEdns0 | FlDnssecOk

instantiation feature_level :: linorder
begin

fun level_rank :: "feature_level \<Rightarrow> nat" where
  "level_rank FlUdp = 0" | "level_rank FlEdns0 = 1" | "level_rank FlDnssecOk = 2"

definition less_eq_feature_level :: "feature_level \<Rightarrow> feature_level \<Rightarrow> bool" where
  "less_eq_feature_level a b \<longleftrightarrow> level_rank a \<le> level_rank b"

definition less_feature_level :: "feature_level \<Rightarrow> feature_level \<Rightarrow> bool" where
  "less_feature_level a b \<longleftrightarrow> level_rank a < level_rank b"

instance
proof
  fix x y z :: feature_level
  show "x < y \<longleftrightarrow> x \<le> y \<and> \<not> y \<le> x" by (auto simp: less_eq_feature_level_def less_feature_level_def)
  show "x \<le> x" by (simp add: less_eq_feature_level_def)
  show "x \<le> y \<Longrightarrow> y \<le> z \<Longrightarrow> x \<le> z" by (simp add: less_eq_feature_level_def)
  show "x \<le> y \<Longrightarrow> y \<le> x \<Longrightarrow> x = y" by (cases x; cases y) (simp_all add: less_eq_feature_level_def)
  show "x \<le> y \<or> y \<le> x" by (auto simp: less_eq_feature_level_def)
qed

end

definition uses_edns :: "feature_level \<Rightarrow> bool" where
  "uses_edns l \<longleftrightarrow> l \<noteq> FlUdp"

definition level_dnssec_ok :: "feature_level \<Rightarrow> bool" where
  "level_dnssec_ok l \<longleftrightarrow> l = FlDnssecOk"

fun lower_level :: "feature_level \<Rightarrow> feature_level" where
  "lower_level FlDnssecOk = FlEdns0"
| "lower_level FlEdns0 = FlUdp"
| "lower_level FlUdp = FlUdp"

definition FEATURE_RETRY_ATTEMPTS :: u8 where "FEATURE_RETRY_ATTEMPTS = 3"
definition FEATURE_GRACE_PERIOD_MIN :: duration where "FEATURE_GRACE_PERIOD_MIN = from_secs (5 * 60)"
definition FEATURE_GRACE_PERIOD_MAX :: duration where "FEATURE_GRACE_PERIOD_MAX = from_secs (6 * 60 * 60)"

record feature_state =
  fs_possible :: feature_level
  fs_verified :: feature_level
  fs_verified_once :: bool
  fs_failed_attempts :: u8
  fs_retry_after :: "instant option"
  fs_grace_period :: duration
  fs_bad_opt :: bool

definition feature_default :: feature_state where
  "feature_default = \<lparr>fs_possible = FlDnssecOk, fs_verified = FlUdp, fs_verified_once = False,
     fs_failed_attempts = 0, fs_retry_after = None, fs_grace_period = FEATURE_GRACE_PERIOD_MIN,
     fs_bad_opt = False\<rparr>"

definition retry_due :: "feature_state \<Rightarrow> instant \<Rightarrow> bool" where
  "retry_due s now = (case fs_retry_after s of None \<Rightarrow> False | Some t \<Rightarrow> t \<le> now)"

definition possible_level :: "feature_state \<Rightarrow> feature_level \<Rightarrow> instant \<Rightarrow> feature_state \<times> feature_level" where
  "possible_level s best now =
     (let s = (if fs_bad_opt s \<and> uses_edns (fs_possible s) then s\<lparr>fs_possible := FlUdp\<rparr> else s);
          s = (if fs_possible s > best then s\<lparr>fs_possible := best\<rparr> else s);
          s = (if fs_possible s < best \<and> retry_due s now
               then s\<lparr>fs_possible := best, fs_failed_attempts := 0, fs_retry_after := None,
                      fs_bad_opt := False,
                      fs_grace_period := min (duration_saturating_mul (fs_grace_period s) 2)
                                           FEATURE_GRACE_PERIOD_MAX\<rparr>
               else s) in
      (s, fs_possible s))"

definition feature_record_success :: "feature_state \<Rightarrow> feature_level \<Rightarrow> feature_state" where
  "feature_record_success s level =
     (let s = s\<lparr>fs_verified_once := True\<rparr>;
          s = (if level > fs_verified s then s\<lparr>fs_verified := level\<rparr> else s) in
      if level = fs_possible s then s\<lparr>fs_failed_attempts := 0\<rparr> else s)"

definition downgrade_to :: "feature_state \<Rightarrow> feature_level \<Rightarrow> instant \<Rightarrow> feature_state" where
  "downgrade_to s level now =
     (if level \<ge> fs_possible s then s
      else s\<lparr>fs_possible := level, fs_verified := min (fs_verified s) level,
             fs_failed_attempts := 0,
             fs_retry_after := instant_checked_add now (fs_grace_period s)\<rparr>)"

definition feature_record_failure ::
  "feature_state \<Rightarrow> feature_level \<Rightarrow> instant \<Rightarrow> feature_state \<times> feature_level option" where
  "feature_record_failure s level now =
     (if level \<noteq> fs_possible s then (s, None)
      else
        let s = s\<lparr>fs_failed_attempts := saturating_add_w (fs_failed_attempts s) 1\<rparr> in
        if fs_failed_attempts s < FEATURE_RETRY_ATTEMPTS then (s, None)
        else
          let lower = lower_level level in
          if lower = level then (s, None) else (downgrade_to s lower now, Some lower))"

definition record_bad_opt :: "feature_state \<Rightarrow> feature_level \<Rightarrow> instant \<Rightarrow> feature_state \<times> feature_level" where
  "record_bad_opt s level now =
     (let s = (if uses_edns level then downgrade_to (s\<lparr>fs_bad_opt := True\<rparr>) FlUdp now else s) in
      (s, fs_possible s))"

definition record_do_off :: "feature_state \<Rightarrow> feature_level \<Rightarrow> instant \<Rightarrow> feature_state \<times> feature_level" where
  "record_do_off s level now =
     (let s = (if level = FlDnssecOk then downgrade_to s FlEdns0 now else s) in (s, fs_possible s))"

section \<open>Transport\<close>

definition TRANSPORT_RETRY_ATTEMPTS :: u8 where "TRANSPORT_RETRY_ATTEMPTS = 3"

datatype transport_mode = ModeUdp | ModeTcp

record transport_state =
  ts_mode :: transport_mode
  ts_failed_udp :: u8
  ts_failed_tcp :: u8
  ts_packet_truncated :: bool
  ts_packet_fragmented :: bool
  ts_received_udp_fragment_max :: u32

definition transport_default :: transport_state where
  "transport_default = \<lparr>ts_mode = ModeUdp, ts_failed_udp = 0, ts_failed_tcp = 0,
     ts_packet_truncated = False, ts_packet_fragmented = False, ts_received_udp_fragment_max = 512\<rparr>"

fun transport_failures :: "transport_state \<Rightarrow> transport_mode \<Rightarrow> u8" where
  "transport_failures s ModeUdp = ts_failed_udp s"
| "transport_failures s ModeTcp = ts_failed_tcp s"

fun set_failures :: "transport_state \<Rightarrow> transport_mode \<Rightarrow> u8 \<Rightarrow> transport_state" where
  "set_failures s ModeUdp n = s\<lparr>ts_failed_udp := n\<rparr>"
| "set_failures s ModeTcp n = s\<lparr>ts_failed_tcp := n\<rparr>"

definition transport_record_success :: "transport_state \<Rightarrow> transport_mode \<Rightarrow> transport_state" where
  "transport_record_success s mode = set_failures s mode 0"

definition clear_failures :: "transport_state \<Rightarrow> transport_state" where
  "clear_failures s = s\<lparr>ts_failed_udp := 0, ts_failed_tcp := 0\<rparr>"

fun other_mode :: "transport_mode \<Rightarrow> transport_mode" where
  "other_mode ModeUdp = ModeTcp"
| "other_mode ModeTcp = ModeUdp"

definition transport_record_failure ::
  "transport_state \<Rightarrow> transport_mode \<Rightarrow> transport_state \<times> transport_mode option" where
  "transport_record_failure s mode =
     (let failures = saturating_add_w (transport_failures s mode) 1;
          s = set_failures s mode failures in
      if failures < TRANSPORT_RETRY_ATTEMPTS \<or> mode \<noteq> ts_mode s then (s, None)
      else
        let s = clear_failures (s\<lparr>ts_mode := other_mode mode\<rparr>) in (s, Some (ts_mode s)))"

definition record_truncated :: "transport_state \<Rightarrow> transport_state" where
  "record_truncated s = s\<lparr>ts_packet_truncated := True\<rparr>"

definition record_udp_packet :: "transport_state \<Rightarrow> nat \<Rightarrow> u32 \<Rightarrow> bool \<Rightarrow> transport_state" where
  "record_udp_packet s dns_size fragment_size ipv6 =
     (let header_size = (if ipv6 then 48 else 28);
          (s, unfragmented_size) =
            (if fragment_size = 0
             then (s, case try_from_nat dns_size of None \<Rightarrow> - 1 | Some n \<Rightarrow> n)
             else (s\<lparr>ts_packet_fragmented := True\<rparr>, saturating_sub_w fragment_size header_size)) in
      s\<lparr>ts_received_udp_fragment_max := max (ts_received_udp_fragment_max s) unfragmented_size\<rparr>)"

section \<open>The capability table\<close>

text \<open>
  The round-trip average is a floating-point number that nothing else reads; its type and the
  update of the average stay parameters.
\<close>

record 'f server_features =
  sf_edns :: "bool option"
  sf_do_bit_ok :: "bool option"
  sf_udp_payload :: u16
  sf_tcp_required :: bool
  sf_dot_ok :: "bool option"
  sf_doh_ok :: "bool option"
  sf_cookie_ok :: "bool option"
  sf_dnssec_validated_ok :: "bool option"
  sf_last_probe :: "instant option"
  sf_consecutive_failures :: u32
  sf_consecutive_successes :: u32
  sf_rtt_ewma_ms :: 'f
  sf_reachable :: bool

definition features_default :: "'f \<Rightarrow> 'f server_features" where
  "features_default fifty = \<lparr>sf_edns = None, sf_do_bit_ok = None, sf_udp_payload = 1232,
     sf_tcp_required = False, sf_dot_ok = None, sf_doh_ok = None, sf_cookie_ok = None,
     sf_dnssec_validated_ok = None, sf_last_probe = None, sf_consecutive_failures = 0,
     sf_consecutive_successes = 0, sf_rtt_ewma_ms = fifty, sf_reachable = True\<rparr>"

definition apply_rtt_sample ::
  "(duration \<Rightarrow> 'f \<Rightarrow> 'f) \<Rightarrow> duration \<Rightarrow> bool \<Rightarrow> 'f server_features \<Rightarrow> 'f server_features" where
  "apply_rtt_sample ewma rtt ok f =
     (if ok then
        f\<lparr>sf_rtt_ewma_ms := ewma rtt (sf_rtt_ewma_ms f),
          sf_consecutive_successes := saturating_add_w (sf_consecutive_successes f) 1,
          sf_consecutive_failures := 0, sf_reachable := True\<rparr>
      else
        let f = f\<lparr>sf_consecutive_failures := saturating_add_w (sf_consecutive_failures f) 1,
                  sf_consecutive_successes := 0\<rparr>;
            f = (if sf_consecutive_failures f \<ge> 3 then f\<lparr>sf_tcp_required := True\<rparr> else f) in
        if sf_consecutive_failures f \<ge> 5 then f\<lparr>sf_reachable := False\<rparr> else f)"

record server_id =
  sid_addr :: socket_addr
  sid_ifindex :: "32 word"
  sid_sni :: "string option"
  sid_doh_url :: "string option"

record 'f feature_table =
  ft_map :: "(server_id \<times> 'f server_features) list"
  ft_probe_interval :: duration

definition feature_table_new :: "'f feature_table" where
  "feature_table_new = \<lparr>ft_map = [], ft_probe_interval = from_secs 600\<rparr>"

definition with_probe_interval :: "'f feature_table \<Rightarrow> duration \<Rightarrow> 'f feature_table" where
  "with_probe_interval t d = t\<lparr>ft_probe_interval := d\<rparr>"

definition ft_get :: "'f \<Rightarrow> 'f feature_table \<Rightarrow> server_id \<Rightarrow> 'f server_features" where
  "ft_get fifty t i = (case map_of (ft_map t) i of None \<Rightarrow> features_default fifty | Some f \<Rightarrow> f)"

definition ft_set :: "'f feature_table \<Rightarrow> server_id \<Rightarrow> 'f server_features \<Rightarrow> 'f feature_table" where
  "ft_set t i f = t\<lparr>ft_map := AList.update i f (ft_map t)\<rparr>"

definition ft_update ::
  "'f \<Rightarrow> 'f feature_table \<Rightarrow> server_id \<Rightarrow> ('f server_features \<Rightarrow> 'f server_features) \<Rightarrow> 'f feature_table" where
  "ft_update fifty t i f = t\<lparr>ft_map := AList.update i (f (ft_get fifty t i)) (ft_map t)\<rparr>"

definition reset_all :: "'f feature_table \<Rightarrow> 'f feature_table" where
  "reset_all t = t\<lparr>ft_map := []\<rparr>"

definition reset_one :: "'f feature_table \<Rightarrow> server_id \<Rightarrow> 'f feature_table" where
  "reset_one t i = t\<lparr>ft_map := AList.delete i (ft_map t)\<rparr>"

definition mark_ok :: "(duration \<Rightarrow> 'f \<Rightarrow> 'f) \<Rightarrow> 'f \<Rightarrow> 'f feature_table \<Rightarrow> server_id \<Rightarrow> duration \<Rightarrow> 'f feature_table" where
  "mark_ok ewma fifty t i rtt = ft_update fifty t i (apply_rtt_sample ewma rtt True)"

definition mark_fail :: "(duration \<Rightarrow> 'f \<Rightarrow> 'f) \<Rightarrow> 'f \<Rightarrow> 'f feature_table \<Rightarrow> server_id \<Rightarrow> 'f feature_table" where
  "mark_fail ewma fifty t i = ft_update fifty t i (apply_rtt_sample ewma 0 False)"

definition needs_probe :: "'f \<Rightarrow> 'f feature_table \<Rightarrow> server_id \<Rightarrow> instant \<Rightarrow> bool" where
  "needs_probe fifty t i now =
     (case sf_last_probe (ft_get fifty t i) of
        None \<Rightarrow> True | Some at \<Rightarrow> now - at \<ge> ft_probe_interval t)"

definition note_probe :: "'f \<Rightarrow> 'f feature_table \<Rightarrow> server_id \<Rightarrow> instant \<Rightarrow> 'f feature_table" where
  "note_probe fifty t i now = ft_update fifty t i (\<lambda>e. e\<lparr>sf_last_probe := Some now\<rparr>)"

definition note_formerr_edns :: "'f \<Rightarrow> 'f feature_table \<Rightarrow> server_id \<Rightarrow> 'f feature_table" where
  "note_formerr_edns fifty t i =
     ft_update fifty t i (\<lambda>e. e\<lparr>sf_edns := Some False, sf_udp_payload := 512\<rparr>)"

definition note_edns_ok :: "'f \<Rightarrow> 'f feature_table \<Rightarrow> server_id \<Rightarrow> u16 \<Rightarrow> 'f feature_table" where
  "note_edns_ok fifty t i payload =
     ft_update fifty t i (\<lambda>e. e\<lparr>sf_edns := Some True, sf_udp_payload := max 512 (min payload 4096)\<rparr>)"

definition note_tc :: "'f \<Rightarrow> 'f feature_table \<Rightarrow> server_id \<Rightarrow> 'f feature_table" where
  "note_tc fifty t i =
     ft_update fifty t i (\<lambda>e.
       let e = e\<lparr>sf_tcp_required := True\<rparr> in
       if sf_udp_payload e > 512
       then e\<lparr>sf_udp_payload := max (saturating_sub_w (sf_udp_payload e) 128) 512\<rparr> else e)"

datatype transport_choice = ChooseUdp | ChooseTcp | ChooseDot | ChooseDoh
datatype dot_mode = DotNo | DotOpportunistic | DotYes

definition prefer_transport :: "'f server_features \<Rightarrow> dot_mode \<Rightarrow> transport_choice" where
  "prefer_transport f mode =
     (if \<not> sf_reachable f then ChooseUdp
      else case mode of
        DotNo \<Rightarrow> if sf_tcp_required f then ChooseTcp else ChooseUdp
      | DotOpportunistic \<Rightarrow>
          if sf_dot_ok f = Some True then ChooseDot
          else if sf_tcp_required f then ChooseTcp else ChooseUdp
      | DotYes \<Rightarrow> ChooseDot)"

section \<open>Feature level: reachable states\<close>

text \<open>A step is one call of a public method of the state by the resolver.\<close>

inductive feature_step :: "feature_state \<Rightarrow> feature_state \<Rightarrow> bool" where
  step_possible: "feature_step s (fst (possible_level s best now))"
| step_success: "feature_step s (feature_record_success s level)"
| step_failure: "feature_step s (fst (feature_record_failure s level now))"
| step_bad_opt: "feature_step s (fst (record_bad_opt s level now))"
| step_do_off: "feature_step s (fst (record_do_off s level now))"
| step_downgrade: "feature_step s (downgrade_to s level now)"
| step_reset: "feature_step s feature_default"

definition feature_reachable :: "feature_state \<Rightarrow> bool" where
  "feature_reachable = feature_step\<^sup>*\<^sup>* feature_default"

definition feature_inv :: "feature_state \<Rightarrow> bool" where
  "feature_inv s \<longleftrightarrow>
     FEATURE_GRACE_PERIOD_MIN \<le> fs_grace_period s \<and> fs_grace_period s \<le> FEATURE_GRACE_PERIOD_MAX \<and>
     (fs_failed_attempts s < FEATURE_RETRY_ATTEMPTS \<or> fs_possible s = FlUdp) \<and>
     (fs_bad_opt s \<longrightarrow> fs_possible s = FlUdp) \<and>
     (\<not> fs_verified_once s \<longrightarrow> fs_verified s = FlUdp)"

lemmas feature_ops = possible_level_def feature_record_success_def feature_record_failure_def
  record_bad_opt_def record_do_off_def downgrade_to_def

lemma level_le_simps [simp]:
  "FlUdp \<le> l" "l \<le> FlUdp \<longleftrightarrow> l = FlUdp" "FlUdp < l \<longleftrightarrow> l \<noteq> FlUdp" "\<not> l < FlUdp"
  "l \<le> FlDnssecOk" "FlDnssecOk \<le> l \<longleftrightarrow> l = FlDnssecOk" "\<not> FlDnssecOk < l"
  by (cases l; simp add: less_eq_feature_level_def less_feature_level_def)+

lemma grace_bounds:
  "FEATURE_GRACE_PERIOD_MIN \<le> g \<Longrightarrow>
   FEATURE_GRACE_PERIOD_MIN \<le> min (duration_saturating_mul g 2) FEATURE_GRACE_PERIOD_MAX"
  by (simp add: FEATURE_GRACE_PERIOD_MIN_def FEATURE_GRACE_PERIOD_MAX_def duration_saturating_mul_def
      duration_max_def from_secs_def)

lemma feature_inv_default: "feature_inv feature_default"
  by (simp add: feature_inv_def feature_default_def FEATURE_RETRY_ATTEMPTS_def
      FEATURE_GRACE_PERIOD_MIN_def FEATURE_GRACE_PERIOD_MAX_def from_secs_def)

lemma feature_inv_possible:
  assumes "feature_inv s" shows "feature_inv (fst (possible_level s best now))"
  using assms grace_bounds[of "fs_grace_period s"]
  by (auto simp: feature_inv_def possible_level_def Let_def uses_edns_def FEATURE_RETRY_ATTEMPTS_def)

lemma feature_inv_downgrade:
  assumes "feature_inv s" shows "feature_inv (downgrade_to s level now)"
  using assms by (auto simp: feature_inv_def downgrade_to_def FEATURE_RETRY_ATTEMPTS_def min_def)

lemma feature_inv_success:
  assumes "feature_inv s" shows "feature_inv (feature_record_success s level)"
  using assms
  by (auto simp: feature_inv_def feature_record_success_def Let_def FEATURE_RETRY_ATTEMPTS_def)

lemma lower_level_fixed: "lower_level l = l \<longleftrightarrow> l = FlUdp"
  by (cases l) auto

lemma lower_level_less: "l \<noteq> FlUdp \<Longrightarrow> lower_level l < l"
  by (cases l) (auto simp: less_feature_level_def)

lemma feature_inv_failure:
  assumes "feature_inv s" shows "feature_inv (fst (feature_record_failure s level now))"
  using assms lower_level_less[of level]
  by (auto simp: feature_inv_def feature_record_failure_def downgrade_to_def Let_def lower_level_fixed
      FEATURE_RETRY_ATTEMPTS_def min_def)

lemma feature_inv_bad_opt:
  assumes "feature_inv s" shows "feature_inv (fst (record_bad_opt s level now))"
  using assms
  by (auto simp: feature_inv_def record_bad_opt_def downgrade_to_def Let_def FEATURE_RETRY_ATTEMPTS_def min_def)

lemma feature_inv_do_off:
  assumes "feature_inv s" shows "feature_inv (fst (record_do_off s level now))"
  using assms feature_inv_downgrade[OF assms] by (simp add: record_do_off_def Let_def)

lemma feature_inv_step: "feature_step s s' \<Longrightarrow> feature_inv s \<Longrightarrow> feature_inv s'"
  by (induction rule: feature_step.induct)
    (simp_all add: feature_inv_possible feature_inv_success feature_inv_failure feature_inv_bad_opt
      feature_inv_do_off feature_inv_downgrade feature_inv_default)

lemma feature_inv_reachable:
  assumes "feature_reachable s" shows "feature_inv s"
  using assms unfolding feature_reachable_def
  by (induction rule: rtranclp_induct) (auto intro: feature_inv_default feature_inv_step)

lemma possible_level_le: "snd (possible_level s best now) \<le> best"
  by (auto simp: possible_level_def Let_def)

lemma possible_level_raise:
  assumes "fs_possible (fst (possible_level s best now)) > fs_possible s"
  shows "\<exists>t \<le> now. fs_retry_after s = Some t"
  using assms by (auto simp: possible_level_def Let_def retry_due_def split: if_splits option.splits)

lemma downgrade_possible: "fs_possible (downgrade_to s level now) = min (fs_possible s) level"
  by (auto simp: downgrade_to_def min_def)

lemma feature_lower_ops:
  "fs_possible (feature_record_success s level) = fs_possible s"
  "fs_possible (fst (feature_record_failure s level now)) \<le> fs_possible s"
  "fs_possible (fst (record_bad_opt s level now)) \<le> fs_possible s"
  "fs_possible (fst (record_do_off s level now)) \<le> fs_possible s"
  by (auto simp: feature_record_success_def feature_record_failure_def record_bad_opt_def
      record_do_off_def downgrade_possible Let_def)

lemma feature_step_raise:
  assumes "feature_step s s'" and "fs_possible s < fs_possible s'"
  shows "s' = feature_default \<or> (\<exists>best now. s' = fst (possible_level s best now) \<and> retry_due s now)"
  using assms
proof (induction rule: feature_step.induct)
  case (step_possible s best now)
  then show ?case using possible_level_raise[of s best now] by (auto simp: retry_due_def)
qed (auto simp: feature_lower_ops downgrade_possible not_less[symmetric] dest: order.strict_trans1
    intro: order.strict_implies_not_eq simp: leD[OF feature_lower_ops(2)] leD[OF feature_lower_ops(3)]
      leD[OF feature_lower_ops(4)])

text \<open>
  C26: in every state the resolver can bring a server's feature record to, the grace period
  lies between five minutes and six hours, a level above plain UDP has fewer than three
  failures against it, a server with a bad OPT record is held at plain UDP, and the level
  handed out never exceeds the level asked for; and one call raises the level only when the
  retry time has passed or the record is reset.
\<close>

theorem feature_reachable_invariant:
  assumes "feature_reachable s"
  shows "fs_grace_period s \<in> {FEATURE_GRACE_PERIOD_MIN .. FEATURE_GRACE_PERIOD_MAX}
    \<and> (fs_possible s \<noteq> FlUdp \<longrightarrow> fs_failed_attempts s < FEATURE_RETRY_ATTEMPTS \<and> \<not> fs_bad_opt s)
    \<and> snd (possible_level s best now) \<le> best
    \<and> (feature_step s s' \<and> fs_possible s < fs_possible s' \<longrightarrow>
         s' = feature_default \<or> (\<exists>b t. s' = fst (possible_level s b t) \<and> retry_due s t))"
  using feature_inv_reachable[OF assms] feature_step_raise[of s s'] possible_level_le[of s best now]
  by (auto simp: feature_inv_def)

theorem feature_reachable_invariant_witness:
  "\<exists>s. feature_reachable s \<and> fs_possible s = FlUdp \<and> fs_bad_opt s
     \<and> snd (possible_level s FlEdns0 7) \<le> FlEdns0"
proof -
  let ?s = "fst (record_bad_opt feature_default FlEdns0 5)"
  have r: "feature_reachable ?s" unfolding feature_reachable_def by (blast intro: step_bad_opt)
  have "fs_possible ?s = FlUdp \<and> fs_bad_opt ?s"
    by (simp add: record_bad_opt_def downgrade_to_def feature_default_def uses_edns_def)
  then show ?thesis using r feature_reachable_invariant[OF r, of FlEdns0 7] by blast
qed

section \<open>Feature level: recovery\<close>

lemma grace_below_limit:
  "now + FEATURE_GRACE_PERIOD_MAX < instant_limit \<Longrightarrow> feature_inv s \<Longrightarrow>
   instant_checked_add now (fs_grace_period s) = Some (now + fs_grace_period s)"
  by (simp add: instant_checked_add_def feature_inv_def)

lemma feature_counted_failure:
  assumes "fs_possible s = l" "unat (fs_failed_attempts s) < 2"
  shows "feature_record_failure s l now = (s\<lparr>fs_failed_attempts := fs_failed_attempts s + 1\<rparr>, None)"
  using assms
  by (simp add: feature_record_failure_def FEATURE_RETRY_ATTEMPTS_def saturating_add_w_def
      word_less_nat_alt unat_word_ariths)

lemma feature_third_failure:
  assumes "fs_possible s = l" "l \<noteq> FlUdp" "fs_failed_attempts s = 2"
  shows "feature_record_failure s l now =
     (downgrade_to (s\<lparr>fs_failed_attempts := 3\<rparr>) (lower_level l) now, Some (lower_level l))"
  using assms by (simp add: feature_record_failure_def FEATURE_RETRY_ATTEMPTS_def lower_level_fixed
      saturating_add_w_def Let_def)

lemma downgrade_ignores_failures:
  "l < fs_possible s \<Longrightarrow> downgrade_to (s\<lparr>fs_failed_attempts := n\<rparr>) l now = downgrade_to s l now"
  by (simp add: downgrade_to_def)

lemma word_less_3: "(w::u8) < 3 \<Longrightarrow> w = 0 \<or> w = 1 \<or> w = 2"
  by (simp add: word_less_nat_alt word_unat_eq_iff) arith

lemma feature_failures_downgrade:
  assumes "fs_possible s = l" "l \<noteq> FlUdp" "fs_failed_attempts s < FEATURE_RETRY_ATTEMPTS"
  shows "((\<lambda>s. fst (feature_record_failure s l now)) ^^ (3 - unat (fs_failed_attempts s))) s =
     downgrade_to s (lower_level l) now"
proof -
  let ?f = "\<lambda>s. fst (feature_record_failure s l now)"
  have two: "?f (s\<lparr>fs_failed_attempts := 2\<rparr>) = downgrade_to s (lower_level l) now"
    using feature_third_failure[of "s\<lparr>fs_failed_attempts := 2\<rparr>" l now] assms lower_level_less[of l]
    by (simp add: downgrade_ignores_failures)
  have one: "?f (s\<lparr>fs_failed_attempts := 1\<rparr>) = s\<lparr>fs_failed_attempts := 2\<rparr>"
    using feature_counted_failure[of "s\<lparr>fs_failed_attempts := 1\<rparr>" l now] assms by simp
  have zero: "?f (s\<lparr>fs_failed_attempts := 0\<rparr>) = s\<lparr>fs_failed_attempts := 1\<rparr>"
    using feature_counted_failure[of "s\<lparr>fs_failed_attempts := 0\<rparr>" l now] assms by simp
  consider "fs_failed_attempts s = 0" | "fs_failed_attempts s = 1" | "fs_failed_attempts s = 2"
    using word_less_3 assms(3) unfolding FEATURE_RETRY_ATTEMPTS_def by blast
  then show ?thesis
  proof cases
    case 1
    then have "s = s\<lparr>fs_failed_attempts := 0\<rparr>" by simp
    then have "?f (?f (?f s)) = downgrade_to s (lower_level l) now" using zero one two by metis
    then show ?thesis using 1 by (simp add: numeral_3_eq_3)
  next
    case 2
    then have "s = s\<lparr>fs_failed_attempts := 1\<rparr>" by simp
    then have "?f (?f s) = downgrade_to s (lower_level l) now" using one two by metis
    then show ?thesis using 2 by (simp add: numeral_2_eq_2)
  next
    case 3
    then have "s = s\<lparr>fs_failed_attempts := 2\<rparr>" by simp
    then have "?f s = downgrade_to s (lower_level l) now" using two by metis
    then show ?thesis using 3 by simp
  qed
qed

lemma downgraded_level_waits:
  assumes "feature_inv s" "l < fs_possible s" "now + FEATURE_GRACE_PERIOD_MAX < instant_limit"
  shows "snd (possible_level (downgrade_to s l now) best later) =
     (if now + fs_grace_period s \<le> later \<and> l < best then best else if fs_bad_opt s then FlUdp else min l best)"
  using assms grace_below_limit[OF assms(3,1)]
  by (auto simp: possible_level_def downgrade_to_def Let_def retry_due_def uses_edns_def feature_inv_def min_def)

lemma double_grace:
  "g \<le> FEATURE_GRACE_PERIOD_MAX \<Longrightarrow>
   min (duration_saturating_mul g 2) FEATURE_GRACE_PERIOD_MAX = min (2 * g) FEATURE_GRACE_PERIOD_MAX"
  by (simp add: FEATURE_GRACE_PERIOD_MAX_def duration_saturating_mul_def duration_max_def from_secs_def)

lemma recovered_grace:
  assumes "feature_inv s" "l < fs_possible s" "now + FEATURE_GRACE_PERIOD_MAX < instant_limit"
    and "now + fs_grace_period s \<le> later" "l < best"
  shows "fs_grace_period (fst (possible_level (downgrade_to s l now) best later)) =
    min (2 * fs_grace_period s) FEATURE_GRACE_PERIOD_MAX"
  using assms grace_below_limit[OF assms(3,1)] double_grace[of "fs_grace_period s"]
  by (auto simp: possible_level_def downgrade_to_def Let_def retry_due_def uses_edns_def feature_inv_def)

text \<open>
  C27: a server that keeps failing at its level loses that level after the failures that are
  missing to three, is probed at the next lower level until the grace period is over, and is
  then probed again at the best level, with the grace period doubled up to six hours.
\<close>

theorem feature_level_recovers:
  assumes "feature_reachable s" "fs_possible s = l" "l \<noteq> FlUdp"
    and "now + FEATURE_GRACE_PERIOD_MAX < instant_limit"
  shows "let s' = ((\<lambda>s. fst (feature_record_failure s l now)) ^^ (3 - unat (fs_failed_attempts s))) s;
             (s'', level) = possible_level s' FlDnssecOk later in
         fs_possible s' = lower_level l \<and>
         (if later < now + fs_grace_period s then level = lower_level l
          else level = FlDnssecOk \<and>
               fs_grace_period s'' = min (2 * fs_grace_period s) FEATURE_GRACE_PERIOD_MAX)"
proof -
  have inv: "feature_inv s" by (rule feature_inv_reachable[OF assms(1)])
  then have few: "fs_failed_attempts s < FEATURE_RETRY_ATTEMPTS" and good: "\<not> fs_bad_opt s"
    using assms(2,3) by (auto simp: feature_inv_def)
  have less: "lower_level l < fs_possible s" using assms(2,3) lower_level_less by simp
  then have below: "lower_level l < FlDnssecOk" by (metis level_le_simps(5) order.strict_trans2)
  note level = downgraded_level_waits[OF inv less assms(4), of FlDnssecOk later]
  note grace = recovered_grace[OF inv less assms(4) _ below, of later]
  show ?thesis
    using feature_failures_downgrade[OF assms(2,3) few, of now] level grace good below less
    by (auto simp: downgrade_possible Let_def min_def split: prod.splits)
qed

theorem feature_level_recovers_witness:
  "let s' = ((\<lambda>s. fst (feature_record_failure s FlDnssecOk 5)) ^^ 3) feature_default in
   fs_possible s' = FlEdns0 \<and> snd (possible_level s' FlDnssecOk (5 + FEATURE_GRACE_PERIOD_MIN)) = FlDnssecOk"
  using feature_level_recovers[of feature_default FlDnssecOk 5 "5 + FEATURE_GRACE_PERIOD_MIN"]
  by (simp add: feature_reachable_def feature_default_def FEATURE_GRACE_PERIOD_MAX_def instant_limit_def
      from_secs_def Let_def split_beta)

section \<open>Transport: reachable states\<close>

inductive transport_step :: "transport_state \<Rightarrow> transport_state \<Rightarrow> bool" where
  tstep_success: "transport_step s (transport_record_success s mode)"
| tstep_failure: "transport_step s (fst (transport_record_failure s mode))"
| tstep_truncated: "transport_step s (record_truncated s)"
| tstep_clear: "transport_step s (clear_failures s)"
| tstep_packet: "transport_step s (record_udp_packet s dns_size fragment_size ipv6)"
| tstep_reset: "transport_step s transport_default"

definition transport_reachable :: "transport_state \<Rightarrow> bool" where
  "transport_reachable = transport_step\<^sup>*\<^sup>* transport_default"

definition transport_inv :: "transport_state \<Rightarrow> bool" where
  "transport_inv s \<longleftrightarrow> transport_failures s (ts_mode s) < TRANSPORT_RETRY_ATTEMPTS
     \<and> 512 \<le> ts_received_udp_fragment_max s"

lemma set_failures_simps [simp]:
  "transport_failures (set_failures s m n) m' = (if m = m' then n else transport_failures s m')"
  "ts_mode (set_failures s m n) = ts_mode s"
  "ts_received_udp_fragment_max (set_failures s m n) = ts_received_udp_fragment_max s"
  by (cases m; cases m'; simp)+

lemma clear_failures_simps [simp]:
  "transport_failures (clear_failures s) m = 0" "ts_mode (clear_failures s) = ts_mode s"
  "ts_received_udp_fragment_max (clear_failures s) = ts_received_udp_fragment_max s"
  by (cases m; simp add: clear_failures_def)+

lemma record_udp_packet_frame [simp]:
  "transport_failures (record_udp_packet s d f v) m = transport_failures s m"
  "ts_mode (record_udp_packet s d f v) = ts_mode s"
  "ts_received_udp_fragment_max s \<le> ts_received_udp_fragment_max (record_udp_packet s d f v)"
  by (cases m; simp add: record_udp_packet_def Let_def split: if_splits)+

lemma record_truncated_frame [simp]:
  "transport_failures (record_truncated s) m = transport_failures s m"
  "ts_mode (record_truncated s) = ts_mode s"
  "ts_received_udp_fragment_max (record_truncated s) = ts_received_udp_fragment_max s"
  by (cases m; simp add: record_truncated_def)+

lemma transport_inv_step:
  assumes "transport_step s s'" "transport_inv s" shows "transport_inv s'"
  using assms
proof (induction rule: transport_step.induct)
  case (tstep_failure s mode)
  then show ?case
    by (auto simp: transport_inv_def transport_record_failure_def Let_def TRANSPORT_RETRY_ATTEMPTS_def
        split: if_splits)
next
  case (tstep_packet s d f v)
  then show ?case
    by (auto simp: transport_inv_def intro: order_trans[OF _ record_udp_packet_frame(3)])
qed (auto simp: transport_inv_def transport_record_success_def transport_default_def
    TRANSPORT_RETRY_ATTEMPTS_def)

lemma transport_inv_reachable:
  assumes "transport_reachable s" shows "transport_inv s"
  using assms unfolding transport_reachable_def
proof (induction rule: rtranclp_induct)
  case base show ?case by (simp add: transport_inv_def transport_default_def TRANSPORT_RETRY_ATTEMPTS_def)
qed (rule transport_inv_step)

lemma set_failures_id [simp]: "set_failures s m (transport_failures s m) = s"
  and set_failures_twice [simp]: "set_failures (set_failures s m a) m b = set_failures s m b"
  by (cases m; simp)+

lemma transport_counted_failures:
  assumes "unat (transport_failures s (ts_mode s)) + j < 3" "m = ts_mode s"
  shows "((\<lambda>s. fst (transport_record_failure s m)) ^^ j) s =
     set_failures s m (transport_failures s m + of_nat j)"
  using assms
proof (induction j)
  case (Suc j)
  let ?n = "transport_failures s m + of_nat j"
  have n: "unat ?n = unat (transport_failures s m) + j"
    using Suc.prems by (simp add: unat_word_ariths unat_of_nat)
  have "unat (?n + 1) = unat ?n + 1" using n Suc.prems by (simp add: unat_word_ariths)
  then have "saturating_add_w ?n 1 = ?n + 1" "?n + 1 < 3"
    using n Suc.prems by (simp_all add: saturating_add_w_def word_less_nat_alt)
  then show ?case
    using Suc by (simp add: transport_record_failure_def TRANSPORT_RETRY_ATTEMPTS_def add_ac)
qed simp

lemma transport_last_failure:
  assumes "unat (transport_failures s (ts_mode s)) = 2"
  shows "fst (transport_record_failure s (ts_mode s)) =
     clear_failures ((set_failures s (ts_mode s) 3)\<lparr>ts_mode := other_mode (ts_mode s)\<rparr>)"
proof -
  have "transport_failures s (ts_mode s) = 2" using assms by (simp add: word_unat_eq_iff)
  then show ?thesis
    by (simp add: transport_record_failure_def TRANSPORT_RETRY_ATTEMPTS_def saturating_add_w_def Let_def)
qed

text \<open>
  C28: in every reachable transport record the active transport has fewer than three failures
  and the largest unfragmented datagram is at least 512 octets; a server that keeps failing
  stays on its transport until the third failure, which moves it to the other one with both
  counters cleared.
\<close>

theorem transport_fails_over:
  assumes "transport_reachable s"
  shows "let m = ts_mode s; k = 3 - unat (transport_failures s m);
             failed = (\<lambda>j. ((\<lambda>s. fst (transport_record_failure s m)) ^^ j) s) in
         0 < k \<and> (\<forall>j. j < k \<longrightarrow> ts_mode (failed j) = m) \<and>
         ts_mode (failed k) = other_mode m \<and> (\<forall>m'. transport_failures (failed k) m' = 0) \<and>
         512 \<le> ts_received_udp_fragment_max (failed k)"
proof -
  let ?m = "ts_mode s" let ?k = "3 - unat (transport_failures s ?m)"
  let ?f = "\<lambda>s. fst (transport_record_failure s ?m)"
  have inv: "unat (transport_failures s ?m) < 3" "512 \<le> ts_received_udp_fragment_max s"
    using transport_inv_reachable[OF assms]
    by (auto simp: transport_inv_def TRANSPORT_RETRY_ATTEMPTS_def word_less_nat_alt)
  have before: "(?f ^^ j) s = set_failures s ?m (transport_failures s ?m + of_nat j)" if "j < ?k" for j
    using transport_counted_failures[of s j ?m] that by simp
  let ?p = "(?f ^^ (?k - 1)) s"
  have p: "?p = set_failures s ?m (transport_failures s ?m + of_nat (?k - 1))"
    using before[of "?k - 1"] inv by simp
  have "unat (transport_failures s ?m + of_nat (?k - 1)) = 2"
    using inv by (simp add: unat_word_ariths unat_of_nat)
  then have "unat (transport_failures ?p (ts_mode ?p)) = 2" unfolding p by simp
  then have last: "?f ?p = clear_failures ((set_failures ?p ?m 3)\<lparr>ts_mode := other_mode ?m\<rparr>)"
    using transport_last_failure[of ?p] p by simp
  have "(?f ^^ ?k) s = ?f ?p" using inv by (metis Suc_diff_1 funpow.simps(2) comp_apply zero_less_diff)
  then show ?thesis using before last p inv by (simp add: Let_def)
qed

theorem transport_fails_over_witness:
  "ts_mode (((\<lambda>s. fst (transport_record_failure s ModeUdp)) ^^ 3) transport_default) = ModeTcp"
  using transport_fails_over[of transport_default]
  by (simp add: transport_reachable_def transport_default_def Let_def)

section \<open>The capability table as a keyed store\<close>

locale feature_store =
  fixes get :: "'s \<Rightarrow> 'k \<Rightarrow> 'v"
    and upd :: "'s \<Rightarrow> 'k \<Rightarrow> ('v \<Rightarrow> 'v) \<Rightarrow> 's"
    and forget :: "'s \<Rightarrow> 'k \<Rightarrow> 's"
    and fresh_value :: 'v
  assumes get_upd: "get (upd s k f) k' = (if k = k' then f (get s k) else get s k')"
    and get_forget: "get (forget s k) k' = (if k = k' then fresh_value else get s k')"
begin

lemma get_upd_repeated:
  "get (((\<lambda>s. upd s k f) ^^ n) s) k' = (if k = k' then (f ^^ n) (get s k) else get s k')"
  by (induction n) (auto simp: get_upd)

lemma get_forget_upd: "get (forget (upd s k f) k) k' = get (forget s k) k'"
  by (simp add: get_upd get_forget)

lemma upd_keeps:
  assumes "\<And>k. P (get s k)" "\<And>v. P v \<Longrightarrow> P (f v)" shows "P (get (upd s i f) k)"
  using assms by (simp add: get_upd)

end

interpretation ft: feature_store "ft_get fifty" "ft_update fifty" reset_one "features_default fifty"
  for fifty
  by unfold_locales
    (auto simp: ft_get_def ft_update_def reset_one_def map_of_delete update_conv' delete_conv' split: option.splits)

lemma ft_get_set: "ft_get fifty (ft_set t i f) k = (if i = k then f else ft_get fifty t k)"
  and ft_get_reset_all: "ft_get fifty (reset_all t) k = features_default fifty"
  by (auto simp: ft_get_def ft_set_def reset_all_def update_conv')

definition payload_ok :: "'f server_features \<Rightarrow> bool" where
  "payload_ok f \<longleftrightarrow> 512 \<le> sf_udp_payload f \<and> sf_udp_payload f \<le> 4096"

lemma payload_ok_rtt: "payload_ok f \<Longrightarrow> payload_ok (apply_rtt_sample ewma rtt b f)"
  by (simp add: payload_ok_def apply_rtt_sample_def Let_def)

lemma payload_ok_tc_shrink:
  assumes "512 < (p::u16)" "p \<le> 4096"
  shows "512 \<le> max (saturating_sub_w p 128) 512 \<and> max (saturating_sub_w p 128) 512 \<le> 4096"
  using assms by (simp add: word_le_nat_alt word_less_nat_alt unat_saturating_sub_w max_def) arith

lemma payload_ok_updates:
  "payload_ok (features_default fifty)"
  "payload_ok e \<Longrightarrow> payload_ok (e\<lparr>sf_last_probe := Some now\<rparr>)"
  "payload_ok (e\<lparr>sf_edns := Some False, sf_udp_payload := 512\<rparr>)"
  "payload_ok (e\<lparr>sf_edns := Some True, sf_udp_payload := max 512 (min p 4096)\<rparr>)"
  by (simp_all add: payload_ok_def features_default_def)

lemma payload_ok_tc:
  "payload_ok e \<Longrightarrow> payload_ok (let e = e\<lparr>sf_tcp_required := True\<rparr> in
     if sf_udp_payload e > 512
     then e\<lparr>sf_udp_payload := max (saturating_sub_w (sf_udp_payload e) 128) 512\<rparr> else e)"
  using payload_ok_tc_shrink[of "sf_udp_payload e"] by (simp add: payload_ok_def Let_def)

lemma payload_ok_methods:
  assumes "\<And>k. payload_ok (ft_get fifty t k)"
  shows "payload_ok (ft_get fifty (mark_ok ewma fifty t i rtt) k)"
    "payload_ok (ft_get fifty (mark_fail ewma fifty t i) k)"
    "payload_ok (ft_get fifty (note_probe fifty t i now) k)"
    "payload_ok (ft_get fifty (note_formerr_edns fifty t i) k)"
    "payload_ok (ft_get fifty (note_edns_ok fifty t i p) k)"
    "payload_ok (ft_get fifty (note_tc fifty t i) k)"
    "payload_ok (ft_get fifty (reset_one t i) k)"
  unfolding mark_ok_def mark_fail_def note_probe_def note_formerr_edns_def note_edns_ok_def note_tc_def
  by (rule ft.upd_keeps, rule assms, erule payload_ok_rtt payload_ok_tc payload_ok_updates(2)
      | rule ft.upd_keeps, rule assms, rule payload_ok_updates)+
    (simp add: ft.get_forget assms payload_ok_updates)

lemma failed_sample_simps [simp]:
  "sf_consecutive_failures (apply_rtt_sample ewma rtt False f) =
     saturating_add_w (sf_consecutive_failures f) 1"
  "sf_tcp_required (apply_rtt_sample ewma rtt False f) \<longleftrightarrow>
     3 \<le> saturating_add_w (sf_consecutive_failures f) 1 \<or> sf_tcp_required f"
  "sf_reachable (apply_rtt_sample ewma rtt False f) \<longleftrightarrow>
     \<not> 5 \<le> saturating_add_w (sf_consecutive_failures f) 1 \<and> sf_reachable f"
  by (simp_all add: apply_rtt_sample_def Let_def)

lemma failed_samples_count:
  "unat (sf_consecutive_failures ((apply_rtt_sample ewma rtt False ^^ n) f)) =
     min (unat (sf_consecutive_failures f) + n) (2 ^ 32 - 1)"
proof (induction n)
  case 0 show ?case using unsigned_less[of "sf_consecutive_failures f", where 'a = nat] by (simp add: min_def)
qed (simp add: unat_saturating_add_w)

lemma failed_samples_escalate:
  "sf_tcp_required ((apply_rtt_sample ewma rtt False ^^ Suc n) f) \<longleftrightarrow>
     2 \<le> unat (sf_consecutive_failures f) + n
     \<or> sf_tcp_required ((apply_rtt_sample ewma rtt False ^^ n) f)"
  "sf_reachable ((apply_rtt_sample ewma rtt False ^^ Suc n) f) \<longleftrightarrow>
     unat (sf_consecutive_failures f) + n < 4
     \<and> sf_reachable ((apply_rtt_sample ewma rtt False ^^ n) f)"
  by (simp_all add: word_le_nat_alt unat_saturating_add_w failed_samples_count) auto



end
