(* ===== verification/Edns.thy ===== *)
theory Edns
  imports Wire_Packet Server_State
begin

text \<open>
  The EDNS part of \<open>src/src/edns.rs\<close>: finding the OPT record of a packet, decoding and encoding
  its options, adding, replacing and removing it, preparing a query for a feature level and
  taking the OPT record out of a response to a client that sent none.
\<close>

definition OPTION_DAU :: u16 where "OPTION_DAU = 5"
definition OPTION_DHU :: u16 where "OPTION_DHU = 6"
definition OPTION_N3U :: u16 where "OPTION_N3U = 7"
definition DNSSEC_OK :: u16 where "DNSSEC_OK = 0x8000"
definition DNSSEC_ALGORITHMS :: bytes where "DNSSEC_ALGORITHMS = [5, 7, 8, 10, 13, 14]"
definition DNSSEC_DIGESTS :: bytes where "DNSSEC_DIGESTS = [1, 2, 4]"
definition NSEC3_ALGORITHMS :: bytes where "NSEC3_ALGORITHMS = [1]"

record prepared_query =
  pq_packet :: bytes
  sent_edns :: bool
  managed_opt :: bool

record edns_option =
  opt_code :: u16
  opt_data :: bytes

record opt_record =
  or_udp_payload_size :: u16
  or_extended_rcode :: u8
  or_version :: u8
  or_flags :: u16
  or_options :: "edns_option list"

definition opt_dnssec_ok :: "opt_record \<Rightarrow> bool" where
  "opt_dnssec_ok r \<longleftrightarrow> or_flags r AND DNSSEC_OK \<noteq> 0"

definition advertises_rfc6975 :: "opt_record \<Rightarrow> bool" where
  "advertises_rfc6975 r =
     list_all (\<lambda>code. list_ex (\<lambda>option. opt_code option = code) (or_options r))
       [OPTION_DAU, OPTION_DHU, OPTION_N3U]"

record opt_span =
  os_start :: nat
  os_end :: nat
  os_udp_payload_size :: u16
  os_flags :: u16
  os_options :: "edns_option list"

record packet_layout =
  pl_opt :: "opt_span option"
  pl_has_tsig :: bool

definition rfc6975_options :: "edns_option list" where
  "rfc6975_options =
     [\<lparr>opt_code = OPTION_DAU, opt_data = DNSSEC_ALGORITHMS\<rparr>,
      \<lparr>opt_code = OPTION_DHU, opt_data = DNSSEC_DIGESTS\<rparr>,
      \<lparr>opt_code = OPTION_N3U, opt_data = NSEC3_ALGORITHMS\<rparr>]"

function parse_options_loop :: "bytes \<Rightarrow> nat \<Rightarrow> edns_option list \<Rightarrow> wire_error + edns_option list" where
  "parse_options_loop rdata offset options =
     (if offset < length rdata then
        rbind (ok_or (checked_add_usize offset 4) InvalidRecord) (\<lambda>header_end.
        rbind (ok_or (get_range rdata offset header_end) InvalidRecord) (\<lambda>hdr.
        let code = u16_from_be (hdr ! 0) (hdr ! 1);
            len = unat (u16_from_be (hdr ! 2) (hdr ! 3)) in
        rbind (ok_or (checked_add_usize header_end len) InvalidRecord) (\<lambda>end.
        rbind (ok_or (get_range rdata header_end end) InvalidRecord) (\<lambda>option_data.
          parse_options_loop rdata end (options @ [\<lparr>opt_code = code, opt_data = option_data\<rparr>])))))
      else Inr options)"
  by pat_completeness auto

termination by (relation "measure (\<lambda>(rdata, offset, _). length rdata - offset)") (auto simp: result_simps)

declare parse_options_loop.simps [simp del]

definition parse_options :: "bytes \<Rightarrow> wire_error + edns_option list" where
  "parse_options rdata = parse_options_loop rdata 0 []"

text \<open>\<open>scan_records\<close> is the loop of \<open>scan_packet\<close> from record \<open>index\<close> with \<open>n\<close> records to go.\<close>

fun scan_records ::
  "nat \<Rightarrow> nat \<Rightarrow> nat \<Rightarrow> bytes \<Rightarrow> nat \<Rightarrow> packet_layout \<Rightarrow> wire_error + nat \<times> packet_layout" where
  "scan_records 0 index additional_start packet offset layout = Inr (offset, layout)"
| "scan_records (Suc n) index additional_start packet offset layout =
     rbind (parse_record packet offset) (\<lambda>record.
     rbind (if rr_type record = TYPE_OPT then
              if index < additional_start \<or> canonical_wire (rr_name record) \<noteq> [0]
                 \<or> pl_opt layout \<noteq> None
              then Inl InvalidRecord
              else
                let ttl = u32_to_be (rr_ttl record) in
                rbind (parse_options (rr_rdata record)) (\<lambda>options.
                Inr (layout\<lparr>pl_opt := Some \<lparr>os_start = offset, os_end = rr_next_offset record,
                   os_udp_payload_size = rr_class record, os_flags = u16_from_be (ttl ! 2) (ttl ! 3),
                   os_options = options\<rparr>\<rparr>))
            else if rr_type record = TYPE_TSIG then Inr (layout\<lparr>pl_has_tsig := True\<rparr>)
            else Inr layout) (\<lambda>layout.
     scan_records n (index + 1) additional_start packet (rr_next_offset record) layout))"

definition scan_packet :: "bytes \<Rightarrow> wire_error + packet_layout" where
  "scan_packet packet =
     rbind (header_parse packet) (\<lambda>header.
     rbind (skip_questions (unat (question_count header)) packet DNS_HEADER_LEN) (\<lambda>offset.
     rbind (scan_records (total_records header) 0
              (unat (answer_count header) + unat (authority_count header)) packet offset
              \<lparr>pl_opt = None, pl_has_tsig = False\<rparr>) (\<lambda>(offset, layout).
     if offset \<noteq> length packet then Inl TrailingData else Inr layout)))"

fun encode_options :: "edns_option list \<Rightarrow> wire_error + bytes" where
  "encode_options [] = Inr []"
| "encode_options (option # options) =
     rbind (ok_or (try_from_nat (length (opt_data option))) ResponseTooLarge) (\<lambda>len.
     rbind (encode_options options) (\<lambda>rest.
     Inr (u16_to_be (opt_code option) @ u16_to_be len @ opt_data option @ rest)))"

definition encode_opt :: "u16 \<Rightarrow> u8 \<Rightarrow> u8 \<Rightarrow> u16 \<Rightarrow> edns_option list \<Rightarrow> wire_error + bytes" where
  "encode_opt udp_payload_size extended_rcode version flags options =
     rbind (encode_options options) (\<lambda>rdata.
     rbind (ok_or (try_from_nat (length rdata)) ResponseTooLarge) (\<lambda>len.
     Inr ([0] @ u16_to_be TYPE_OPT @ u16_to_be udp_payload_size @ [extended_rcode] @ [version] @
          u16_to_be flags @ u16_to_be len @ rdata)))"

definition replace_span :: "bytes \<Rightarrow> nat \<Rightarrow> nat \<Rightarrow> bytes \<Rightarrow> wire_error + bytes" where
  "replace_span packet start end replacement =
     (if start > end \<or> end > length packet then Inl InvalidRecord
      else
        rbind (ok_or (checked_add_usize (length packet - (end - start)) (length replacement)) ResponseTooLarge)
          (\<lambda>new_length.
        if exceeds_u16_max new_length then Inl ResponseTooLarge
        else Inr (take start packet @ replacement @ drop end packet)))"

definition append_opt :: "bytes \<Rightarrow> bytes \<Rightarrow> wire_error + bytes" where
  "append_opt packet opt =
     rbind (header_parse packet) (\<lambda>header.
     rbind (ok_or (checked_add_w (additional_count header) 1) ResponseTooLarge) (\<lambda>count.
     rbind (ok_or (checked_add_usize (length packet) (length opt)) ResponseTooLarge) (\<lambda>new_length.
     if exceeds_u16_max new_length then Inl ResponseTooLarge
     else Inr (put_at (packet @ opt) 10 (u16_to_be count)))))"

definition remove_opt :: "bytes \<Rightarrow> opt_span \<Rightarrow> wire_error + bytes" where
  "remove_opt packet opt =
     rbind (header_parse packet) (\<lambda>header.
     rbind (ok_or (checked_sub_w (additional_count header) 1) InvalidRecord) (\<lambda>count.
     rbind (replace_span packet (os_start opt) (os_end opt) []) (\<lambda>output.
     Inr (put_at output 10 (u16_to_be count)))))"

definition prepare_query :: "bytes \<Rightarrow> feature_level \<Rightarrow> u16 \<Rightarrow> wire_error + prepared_query" where
  "prepare_query query level udp_payload_size =
     rbind (validate query False) (\<lambda>_.
     rbind (scan_packet query) (\<lambda>layout.
     if pl_has_tsig layout then
       Inr \<lparr>pq_packet = query, sent_edns = (pl_opt layout \<noteq> None), managed_opt = False\<rparr>
     else if \<not> uses_edns level then
       rbind (case pl_opt layout of Some opt \<Rightarrow> remove_opt query opt | None \<Rightarrow> Inr query) (\<lambda>packet.
       Inr \<lparr>pq_packet = packet, sent_edns = False, managed_opt = True\<rparr>)
     else
       let options = (if level_dnssec_ok level then rfc6975_options else []);
           flags = (if level_dnssec_ok level then DNSSEC_OK else 0) in
       rbind (encode_opt (max udp_payload_size 512) 0 0 flags options) (\<lambda>replacement.
       rbind (case pl_opt layout of
                Some opt \<Rightarrow> replace_span query (os_start opt) (os_end opt) replacement
              | None \<Rightarrow> append_opt query replacement) (\<lambda>packet.
       Inr \<lparr>pq_packet = packet, sent_edns = True, managed_opt = True\<rparr>))))"

definition inspect_opt :: "bytes \<Rightarrow> wire_error + opt_record option" where
  "inspect_opt packet =
     rbind (scan_packet packet) (\<lambda>layout.
     case pl_opt layout of
       None \<Rightarrow> Inr None
     | Some opt \<Rightarrow>
         rbind (parse_record packet (os_start opt)) (\<lambda>record.
         let ttl = u32_to_be (rr_ttl record) in
         Inr (Some \<lparr>or_udp_payload_size = os_udp_payload_size opt, or_extended_rcode = ttl ! 0,
                    or_version = ttl ! 1, or_flags = os_flags opt, or_options = os_options opt\<rparr>)))"

definition full_rcode :: "bytes \<Rightarrow> opt_record option \<Rightarrow> wire_error + u16" where
  "full_rcode packet opt =
     rbind (header_parse packet) (\<lambda>header.
     let header_rcode = response_code header in
     Inr (case opt of None \<Rightarrow> header_rcode
          | Some opt \<Rightarrow> push_bit 4 (ucast (or_extended_rcode opt)) OR header_rcode))"

definition response_for_client :: "bytes \<Rightarrow> bytes \<Rightarrow> wire_error + bytes" where
  "response_for_client query response =
     rbind (validate query False) (\<lambda>_.
     rbind (validate response True) (\<lambda>_.
     rbind (scan_packet query) (\<lambda>query_layout.
     if pl_has_tsig query_layout \<or> pl_opt query_layout \<noteq> None then Inr response
     else
       rbind (scan_packet response) (\<lambda>response_layout.
       case pl_opt response_layout of
         None \<Rightarrow> Inr response
       | Some opt_span \<Rightarrow>
           rbind (inspect_opt response) (\<lambda>inspected.
           rbind (ok_or inspected InvalidRecord) (\<lambda>opt.
           rbind (full_rcode response (Some opt)) (\<lambda>extended_rcode.
           rbind (remove_opt response opt_span) (\<lambda>output.
           if extended_rcode > 15 then
             let flags = u16_from_be (output ! 2) (output ! 3) in
             Inr (put_at output 2 (u16_to_be ((flags AND NOT 0x000f) OR 2)))
           else Inr output))))))))"

section \<open>Options: decoding is the inverse of encoding\<close>

lemma get_range_mid:
  "get_range (pre @ xs @ post) (length pre) (length pre + length xs) = Some xs"
  by (simp add: get_range_def)

lemma u16_from_be_nths: "u16_to_be v = [a, b] \<Longrightarrow> u16_from_be a b = v"
  by (simp add: u16_to_be_def) (metis u16_from_to_be)

lemma parse_options_step:
  assumes "length d < 65536" and "length (pre @ u16_to_be c @ u16_to_be (of_nat (length d)) @ d @ post) < usize_limit"
  shows "parse_options_loop (pre @ u16_to_be c @ u16_to_be (of_nat (length d)) @ d @ post) (length pre) acc =
     parse_options_loop (pre @ u16_to_be c @ u16_to_be (of_nat (length d)) @ d @ post)
       (length pre + 4 + length d) (acc @ [\<lparr>opt_code = c, opt_data = d\<rparr>])"
proof -
  let ?h = "u16_to_be c @ u16_to_be (of_nat (length d))"
  let ?p = "pre @ u16_to_be c @ u16_to_be (of_nat (length d)) @ d @ post"
  have h: "get_range ?p (length pre) (length pre + 4) = Some ?h"
    using get_range_mid[of pre ?h "d @ post"] by simp
  have d: "get_range ?p (length pre + 4) (length pre + 4 + length d) = Some d"
    using get_range_mid[of "pre @ ?h" d post] by simp
  have nth: "u16_from_be (?h ! 0) (?h ! 1) = c" "u16_from_be (?h ! 2) (?h ! 3) = of_nat (length d)"
    by (simp_all add: u16_to_be_def u16_from_to_be)
  have len: "unat (of_nat (length d) :: u16) = length d" using assms(1) by (simp add: unat_of_nat)
  have "checked_add_usize (length pre) 4 = Some (length pre + 4)"
    "checked_add_usize (length pre + 4) (length d) = Some (length pre + 4 + length d)"
    using assms(2) by auto
  then show ?thesis
    by (subst parse_options_loop.simps) (simp only: h d nth len ok_or_simps rbind_Inr Let_def, simp)
qed

lemma parse_options_loop_encode:
  assumes "encode_options opts = Inr rd" and "length (pre @ rd) < usize_limit"
  shows "parse_options_loop (pre @ rd) (length pre) acc = Inr (acc @ opts)"
  using assms
proof (induction opts arbitrary: rd pre acc)
  case Nil
  then show ?case by (simp add: parse_options_loop.simps)
next
  case (Cons opt opts)
  then obtain rest where len: "length (opt_data opt) < 65536" and rest: "encode_options opts = Inr rest"
    and rd: "rd = u16_to_be (opt_code opt) @ u16_to_be (of_nat (length (opt_data opt))) @ opt_data opt @ rest"
    by (auto simp: result_simps try_from_nat_Some)
  let ?pre = "pre @ u16_to_be (opt_code opt) @ u16_to_be (of_nat (length (opt_data opt))) @ opt_data opt"
  have "parse_options_loop (?pre @ rest) (length ?pre) (acc @ [opt]) = Inr ((acc @ [opt]) @ opts)"
    by (rule Cons.IH[OF rest]) (use Cons.prems rd in simp)
  moreover have "length ?pre = length pre + 4 + length (opt_data opt)" by simp
  moreover have "\<lparr>opt_code = opt_code opt, opt_data = opt_data opt\<rparr> = opt" by simp
  ultimately show ?case
    using parse_options_step[OF len, of pre "opt_code opt" rest acc] Cons.prems(2)
    by (simp only: rd append_assoc) simp
qed

lemma parse_options_loop_sound:
  assumes "parse_options_loop rd off acc = Inr opts" and "off \<le> length rd"
  shows "\<exists>os. opts = acc @ os \<and> encode_options os = Inr (drop off rd)"
  using assms
proof (induction rd off acc rule: parse_options_loop.induct)
  case (1 rd off acc)
  show ?case
  proof (cases "off < length rd")
    case False
    with 1(2,3) show ?thesis by (simp add: parse_options_loop.simps)
  next
    case True
    note body = 1(2)[unfolded parse_options_loop.simps[of rd off acc], simplified True if_True Let_def]
    obtain hdr where off4: "checked_add_usize off 4 = Some (off + 4)"
      and hdr: "get_range rd off (off + 4) = Some hdr"
      using body by (auto simp: result_simps)
    let ?n = "unat (u16_from_be (hdr ! 2) (hdr ! 3))" and ?e = "off + 4 + unat (u16_from_be (hdr ! 2) (hdr ! 3))"
    let ?c = "u16_from_be (hdr ! 0) (hdr ! 1)"
    obtain d where e: "checked_add_usize (off + 4) ?n = Some ?e" and d: "get_range rd (off + 4) ?e = Some d"
      and rec: "parse_options_loop rd ?e (acc @ [\<lparr>opt_code = ?c, opt_data = d\<rparr>]) = Inr opts"
      using body off4 hdr by (auto simp: result_simps)
    have bnd: "?e \<le> length rd" using d by (simp add: get_range_Some)
    obtain os where os: "opts = (acc @ [\<lparr>opt_code = ?c, opt_data = d\<rparr>]) @ os" "encode_options os = Inr (drop ?e rd)"
      using 1(1)[OF True _ _ refl refl _ _ rec bnd] off4 hdr e d by auto
    have "length hdr = 4" using hdr by (auto dest: length_get_range)
    then obtain a b x y where h4: "hdr = [a, b, x, y]"
      by (auto simp: numeral_eq_Suc length_Suc_conv)
    have ld: "length d = ?n" using d by (auto dest: length_get_range)
    then have "length d < 65536" using unsigned_less[of "u16_from_be (hdr ! 2) (hdr ! 3)", where 'a = nat] by simp
    then have "encode_options (\<lparr>opt_code = ?c, opt_data = d\<rparr> # os) = Inr (hdr @ d @ drop ?e rd)"
      using os(2) ld h4 by (simp add: try_from_nat_def u16_to_from_be)
    also have "hdr @ d @ drop ?e rd = drop off rd"
    proof -
      have "drop off rd = take 4 (drop off rd) @ take ?n (drop 4 (drop off rd)) @ drop ?n (drop 4 (drop off rd))"
        by (simp only: append_take_drop_id)
      then show ?thesis using hdr d by (simp add: get_range_Some add.commute add.left_commute)
    qed
    finally show ?thesis using os(1) by auto
  qed
qed

text \<open>
  Decoding the data of an OPT record succeeds exactly on the encodings of option lists
  and returns the encoded list, so options round-trip in both directions.
\<close>

theorem parse_options_encode_options:
  assumes "length rd < usize_limit"
  shows "parse_options rd = Inr opts \<longleftrightarrow> encode_options opts = Inr rd"
  using parse_options_loop_encode[of opts rd "[]" "[]"] parse_options_loop_sound[of rd 0 "[]" opts] assms
  by (auto simp: parse_options_def)

theorem parse_options_encode_options_witness:
  "parse_options [0, 5, 0, 2, 8, 13, 0, 7, 0, 1, 1] =
     Inr [\<lparr>opt_code = 5, opt_data = [8, 13]\<rparr>, \<lparr>opt_code = 7, opt_data = [1]\<rparr>]"
  using parse_options_encode_options[of "[0, 5, 0, 2, 8, 13, 0, 7, 0, 1, 1]"
      "[\<lparr>opt_code = 5, opt_data = [8, 13]\<rparr>, \<lparr>opt_code = 7, opt_data = [1]\<rparr>]"]
  by (simp add: usize_limit_def try_from_nat_def u16_to_be_def)

section \<open>Prepared queries\<close>

definition opt_bytes :: "u16 \<Rightarrow> u8 \<Rightarrow> u8 \<Rightarrow> u16 \<Rightarrow> bytes \<Rightarrow> bytes" where
  "opt_bytes sz ext ver flags rd =
     [0] @ u16_to_be TYPE_OPT @ u16_to_be sz @ [ext] @ [ver] @ u16_to_be flags @
     u16_to_be (of_nat (length rd)) @ rd"

definition opt_ttl :: "u8 \<Rightarrow> u8 \<Rightarrow> u16 \<Rightarrow> u32" where
  "opt_ttl ext ver flags = u32_from_be ext ver (u16_to_be flags ! 0) (u16_to_be flags ! 1)"

lemma opt_ttl_bytes: "u32_to_be (opt_ttl ext ver flags) = [ext, ver] @ u16_to_be flags"
  unfolding opt_ttl_def u32_to_from_be by (simp add: u16_to_be_def)

lemma opt_ttl_parts: "u32_to_be (opt_ttl ext ver flags) ! 0 = ext" "u32_to_be (opt_ttl ext ver flags) ! 1 = ver"
  "u16_from_be (u32_to_be (opt_ttl ext ver flags) ! 2) (u32_to_be (opt_ttl ext ver flags) ! 3) = flags"
    and opt_ttl_version: "u32_to_be (opt_ttl ext ver flags) ! Suc 0 = ver"
  unfolding opt_ttl_bytes by (simp_all add: u16_to_be_def u16_from_to_be)

lemma opt_bytes_tail:
  "opt_bytes sz ext ver flags rd = wire_of_labels [] @ record_tail TYPE_OPT sz (opt_ttl ext ver flags) rd"
  by (simp add: opt_bytes_def record_tail_def opt_ttl_bytes)

lemma length_opt_bytes [simp]: "length (opt_bytes sz ext ver flags rd) = 11 + length rd"
  by (simp add: opt_bytes_def)

lemma encode_opt_eq:
  "encode_options opts = Inr rd \<Longrightarrow> length rd < 65536 \<Longrightarrow>
   encode_opt sz ext ver flags opts = Inr (opt_bytes sz ext ver flags rd)"
  by (simp add: encode_opt_def opt_bytes_def try_from_nat_def)

definition opt_rr :: "nat \<Rightarrow> u16 \<Rightarrow> u8 \<Rightarrow> u8 \<Rightarrow> u16 \<Rightarrow> bytes \<Rightarrow> resource_record" where
  "opt_rr off sz ext ver flags rd = \<lparr>rr_name = dns_name_of [], rr_type = TYPE_OPT, rr_class = sz,
     rr_ttl = opt_ttl ext ver flags, rr_ttl_offset = off + 5, rr_rdata_offset = off + 11, rr_rdata = rd,
     rr_next_offset = off + 11 + length rd\<rparr>"

lemma parse_opt_record:
  assumes "length (pre @ opt_bytes sz ext ver flags rd @ post) < usize_limit" "length rd < 65536"
  shows "parse_record (pre @ opt_bytes sz ext ver flags rd @ post) (length pre) =
     Inr (opt_rr (length pre) sz ext ver flags rd)"
proof -
  let ?tail = "record_tail TYPE_OPT sz (opt_ttl ext ver flags) rd"
  let ?p = "pre @ opt_bytes sz ext ver flags rd @ post"
  have p: "?p = (pre @ [0]) @ ?tail @ post" by (simp add: opt_bytes_tail)
  have "read_name ?p (length pre) = Inr (dns_name_of [], length (pre @ [0]))"
    using read_name_wire_of_labels[of "[]" pre "?tail @ post"] assms(1) by (simp add: opt_bytes_tail)
  from parse_record_fields[OF this p assms(1) assms(2)] show ?thesis
    by (simp add: opt_rr_def)
qed

lemma scan_opt_record:
  assumes "parse_record p off = Inr (opt_rr off sz ext ver flags rd)" "parse_options rd = Inr opts"
  shows "scan_records 1 0 0 p off \<lparr>pl_opt = None, pl_has_tsig = False\<rparr> =
     Inr (off + 11 + length rd, \<lparr>pl_opt = Some \<lparr>os_start = off, os_end = off + 11 + length rd,
       os_udp_payload_size = sz, os_flags = flags, os_options = opts\<rparr>, pl_has_tsig = False\<rparr>)"
  using assms by (simp add: opt_rr_def dns_name_of_def opt_ttl_parts Let_def)

text \<open>The queries a client sends: one uncompressed question and no record.\<close>

definition bare_query_header :: "header \<Rightarrow> bytes list \<Rightarrow> bool" where
  "bare_query_header h ls \<longleftrightarrow> valid_labels ls \<and> length (wire_of_labels ls) \<le> 255 \<and>
     question_count h = 1 \<and> answer_count h = 0 \<and> authority_count h = 0 \<and> additional_count h = 0 \<and>
     opcode h = 0 \<and> \<not> is_response h"

abbreviation with_opt_count :: "header \<Rightarrow> header" where
  "with_opt_count h \<equiv> h\<lparr>additional_count := 1\<rparr>"

lemma bare_total [simp]:
  "bare_query_header h ls \<Longrightarrow> total_records h = 0"
  "bare_query_header h ls \<Longrightarrow> total_records (with_opt_count h) = 1"
  "opcode (with_opt_count h) = opcode h" "is_response (with_opt_count h) = is_response h"
  by (auto simp: bare_query_header_def total_records_def opcode_def is_response_def)

lemma skip_questions_plain:
  assumes "valid_labels ls" "length (wire_of_labels ls) \<le> 255"
    and "length (plain_query h ls t c rest) < usize_limit"
  shows "skip_questions 1 (plain_query h ls t c rest) 12 = Inr (16 + length (wire_of_labels ls))"
  using parse_question_header[of ls h t c rest] assms by (simp add: plain_query_def)

lemma small_plain:
  "length (wire_of_labels ls) \<le> 255 \<Longrightarrow> length rest < 65536 \<Longrightarrow>
   length (plain_query h ls t c rest) < usize_limit"
  by (simp add: usize_limit_def)

lemma bare_scan:
  assumes "bare_query_header h ls"
  shows "scan_packet (plain_query h ls t c []) = Inr \<lparr>pl_opt = None, pl_has_tsig = False\<rparr>"
    and "validate (plain_query h ls t c []) False = Inr ()"
  using assms skip_questions_plain[of ls h t c "[]"] small_plain[of ls "[]" h t c]
    validate_single[of ls h t c]
  by (simp_all add: scan_packet_def header_parse_plain bare_query_header_def)
    (simp_all add: plain_query_def total_records_def)

lemma parse_plain_opt:
  assumes "length (wire_of_labels ls) \<le> 255" "length rd < 60000"
  shows "parse_record (plain_query h ls t c (opt_bytes sz ext ver flags rd)) (16 + length (wire_of_labels ls)) =
     Inr (opt_rr (16 + length (wire_of_labels ls)) sz ext ver flags rd)"
  using parse_opt_record[of "header_bytes h @ question_bytes ls t c" sz ext ver flags rd "[]"] assms
  by (simp add: plain_query_def usize_limit_def)

abbreviation opt_span_of :: "bytes list \<Rightarrow> u16 \<Rightarrow> u16 \<Rightarrow> edns_option list \<Rightarrow> bytes \<Rightarrow> opt_span" where
  "opt_span_of ls sz flags opts rd \<equiv> \<lparr>os_start = 16 + length (wire_of_labels ls),
     os_end = 16 + length (wire_of_labels ls) + 11 + length rd, os_udp_payload_size = sz,
     os_flags = flags, os_options = opts\<rparr>"

lemma opt_scan:
  assumes bare: "bare_query_header h ls" and rd: "length rd < 60000" and opts: "parse_options rd = Inr opts"
    and p_def: "p = plain_query (with_opt_count h) ls t c (opt_bytes sz ext ver flags rd)"
  shows "scan_packet p = Inr \<lparr>pl_opt = Some (opt_span_of ls sz flags opts rd), pl_has_tsig = False\<rparr>"
    and "validate p False = Inr ()"
proof -
  have ls: "valid_labels ls" "length (wire_of_labels ls) \<le> 255" and one: "question_count (with_opt_count h) = 1"
    using bare by (simp_all add: bare_query_header_def)
  have small: "length p < usize_limit" unfolding p_def by (rule small_plain) (use ls rd in simp_all)
  note rr = parse_plain_opt[OF ls(2) rd, of "with_opt_count h" t c sz ext ver flags, folded p_def]
  show "scan_packet p = Inr \<lparr>pl_opt = Some (opt_span_of ls sz flags opts rd), pl_has_tsig = False\<rparr>"
    using skip_questions_plain[OF ls, of "with_opt_count h" t c "opt_bytes sz ext ver flags rd", folded p_def]
      scan_opt_record[OF rr opts] small header_parse_plain[of "with_opt_count h" ls t c "opt_bytes sz ext ver flags rd", folded p_def]
      bare bare_total(2)[OF bare]
    by (simp del: scan_records.simps skip_questions.simps add: scan_packet_def bare_query_header_def)
      (simp add: p_def)
  have "parse_many parse_record rr_next_offset (total_records (with_opt_count h)) p (16 + length (wire_of_labels ls)) =
      Inr ([opt_rr (16 + length (wire_of_labels ls)) sz ext ver flags rd], length p)"
    using rr bare by (simp add: opt_rr_def) (simp add: p_def)
  from parse_sections_plain[OF ls one small[unfolded p_def] this[unfolded p_def]]
  show "validate p False = Inr ()"
    using bare one by (simp add: validate_def p_def bare_query_header_def)
qed

lemma put_at_header_additional:
  "put_at (header_bytes h @ rest) 10 (u16_to_be n) = header_bytes (h\<lparr>additional_count := n\<rparr>) @ rest"
  by (simp add: put_at_def header_bytes_def u16_to_be_def)

lemma append_opt_bare:
  assumes "bare_query_header h ls" "length opt < 60000"
  shows "append_opt (plain_query h ls t c []) opt = Inr (plain_query (with_opt_count h) ls t c opt)"
  using assms put_at_header_additional[of h "question_bytes ls t c @ opt" 1]
  by (simp add: append_opt_def header_parse_plain bare_query_header_def checked_add_w_def
      checked_add_usize_def usize_limit_def exceeds_u16_max_def)
    (simp add: plain_query_def)

lemma replace_span_bare:
  assumes "bare_query_header h ls" "length opt < 60000" "length rd < 60000"
  shows "replace_span (plain_query h' ls t c (opt_bytes sz ext ver flags rd))
     (16 + length (wire_of_labels ls)) (16 + length (wire_of_labels ls) + 11 + length rd) opt =
     Inr (plain_query h' ls t c opt)"
  using assms
  by (simp add: replace_span_def bare_query_header_def checked_add_usize_def usize_limit_def exceeds_u16_max_def)
    (simp add: plain_query_def)

lemma remove_opt_bare:
  assumes "bare_query_header h ls" "length rd < 60000"
  shows "remove_opt (plain_query (with_opt_count h) ls t c (opt_bytes sz ext ver flags rd))
     (opt_span_of ls sz' flags' opts rd) = Inr (plain_query h ls t c [])"
proof -
  have "h\<lparr>additional_count := 0\<rparr> = h" using assms(1) by (simp add: bare_query_header_def)
  then show ?thesis
    using replace_span_bare[OF assms(1) _ assms(2), of "[]"]
      put_at_header_additional[of "with_opt_count h" "question_bytes ls t c" 0]
    by (simp add: remove_opt_def header_parse_plain checked_sub_w_def)
      (simp add: plain_query_def)
qed

text \<open>What a query carries at a feature level.\<close>

definition level_options :: "feature_level \<Rightarrow> edns_option list" where
  "level_options level = (if level_dnssec_ok level then rfc6975_options else [])"

definition level_flags :: "feature_level \<Rightarrow> u16" where
  "level_flags level = (if level_dnssec_ok level then DNSSEC_OK else 0)"

definition level_query :: "header \<Rightarrow> bytes list \<Rightarrow> u16 \<Rightarrow> u16 \<Rightarrow> feature_level \<Rightarrow> u16 \<Rightarrow> bytes \<Rightarrow> bytes" where
  "level_query h ls t c level sz rd =
     (if uses_edns level
      then plain_query (with_opt_count h) ls t c (opt_bytes (max sz 512) 0 0 (level_flags level) rd)
      else plain_query h ls t c [])"

lemma level_options_encoded:
  obtains rd where "encode_options (level_options level) = Inr rd" "length rd < 50000"
    "parse_options rd = Inr (level_options level)"
proof -
  have "\<exists>rd. encode_options (level_options level) = Inr rd \<and> length rd < 50000"
    by (simp add: level_options_def rfc6975_options_def DNSSEC_ALGORITHMS_def DNSSEC_DIGESTS_def
        NSEC3_ALGORITHMS_def try_from_nat_def)
  then show ?thesis
    using that parse_options_loop_encode[of "level_options level" _ "[]" "[]"]
    by (auto simp: parse_options_def usize_limit_def)
qed

lemma prepare_level_query:
  assumes bare: "bare_query_header h ls"
    and rd0: "encode_options (level_options l0) = Inr rd0" "length rd0 < 60000" "parse_options rd0 = Inr (level_options l0)"
    and rd: "encode_options (level_options l) = Inr rd" "length rd < 50000"
  shows "prepare_query (level_query h ls t c l0 sz0 rd0) l sz =
     Inr \<lparr>pq_packet = level_query h ls t c l sz rd, sent_edns = uses_edns l, managed_opt = True\<rparr>"
proof -
  have enc: "encode_opt (max sz 512) 0 0 (level_flags l) (level_options l) =
      Inr (opt_bytes (max sz 512) 0 0 (level_flags l) rd)"
    by (rule encode_opt_eq) (use rd in simp_all)
  show ?thesis
  proof (cases "uses_edns l0")
    case True
    then show ?thesis
      using opt_scan[OF bare rd0(2,3) refl] enc rd rd0 remove_opt_bare[OF bare rd0(2)]
        replace_span_bare[OF bare _ rd0(2)]
      by (simp add: prepare_query_def level_query_def level_flags_def[symmetric] level_options_def[symmetric] Let_def)
  next
    case False
    then show ?thesis
      using bare_scan[OF bare] enc rd append_opt_bare[OF bare]
      by (simp add: prepare_query_def level_query_def level_flags_def[symmetric] level_options_def[symmetric] Let_def)
  qed
qed

lemma inspect_level_query:
  assumes bare: "bare_query_header h ls"
    and rd: "length rd < 60000" "parse_options rd = Inr (level_options l)"
  shows "inspect_opt (level_query h ls t c l sz rd) = Inr (if uses_edns l
     then Some \<lparr>or_udp_payload_size = max sz 512, or_extended_rcode = 0, or_version = 0,
                or_flags = level_flags l, or_options = level_options l\<rparr> else None)"
proof -
  have "length (wire_of_labels ls) \<le> 255" using bare by (simp add: bare_query_header_def)
  then show ?thesis
    using opt_scan[OF bare rd refl] bare_scan[OF bare] parse_plain_opt[OF _ rd(1)]
    by (auto simp: inspect_opt_def level_query_def opt_rr_def opt_ttl_parts opt_ttl_version)
qed

lemma first_question_level_query:
  assumes "bare_query_header h ls" "length rd < 60000"
  shows "first_question (level_query h ls t c l sz rd) = first_question (plain_query h ls t c [])"
  using assms first_question_plain[of ls h t c "[]"] small_plain[of ls]
    first_question_plain[of ls "with_opt_count h" t c "opt_bytes (max sz 512) 0 0 (level_flags l) rd"]
  by (simp add: level_query_def bare_query_header_def usize_limit_def)

section \<open>Responses to clients without EDNS\<close>

text \<open>
  With an OPT record at the end of the response, a client that sent none gets the packet
  without it; an extended response code, which no longer fits the header, becomes SERVFAIL.
\<close>

lemma response_for_client_strips:
  assumes query: "validate query False = Inr ()" "scan_packet query = Inr \<lparr>pl_opt = None, pl_has_tsig = False\<rparr>"
    and response: "validate (header_bytes h @ body @ opt_bytes sz ext ver flags rd) True = Inr ()"
    and scan: "scan_packet (header_bytes h @ body @ opt_bytes sz ext ver flags rd) =
        Inr \<lparr>pl_opt = Some \<lparr>os_start = 12 + length body, os_end = 23 + length body + length rd,
               os_udp_payload_size = sz, os_flags = flags, os_options = opts\<rparr>, pl_has_tsig = tsig\<rparr>"
    and count: "additional_count h \<noteq> 0" and small: "length body + length rd + 23 \<le> 65535"
  shows "response_for_client query (header_bytes h @ body @ opt_bytes sz ext ver flags rd) =
    Inr (header_bytes (h\<lparr>additional_count := additional_count h - 1,
          h_flags := (if (push_bit 4 (ucast ext) OR response_code h) > 15
                      then h_flags h AND NOT 0x000f OR 2 else h_flags h)\<rparr>) @ body)"
proof -
  let ?r = "header_bytes h @ body @ opt_bytes sz ext ver flags rd"
  have rr: "parse_record ?r (12 + length body) = Inr (opt_rr (12 + length body) sz ext ver flags rd)"
    using parse_opt_record[of "header_bytes h @ body" sz ext ver flags rd "[]"] small
    by (simp add: usize_limit_def)
  have sub: "checked_sub_w (additional_count h) 1 = Some (additional_count h - 1)"
    using count by (simp add: checked_sub_w_def word_le_nat_alt) (metis One_nat_def Suc_leI unat_gt_0)
  have cut: "replace_span ?r (12 + length body) (23 + length body + length rd) [] = Inr (header_bytes h @ body)"
    using small by (simp add: replace_span_def checked_add_usize_def usize_limit_def exceeds_u16_max_def)
  let ?h = "h\<lparr>additional_count := additional_count h - 1\<rparr>"
  have flag_bytes: "u16_from_be ((header_bytes ?h @ body) ! 2) ((header_bytes ?h @ body) ! 3) = h_flags h"
    by (simp add: header_bytes_def u16_to_be_def u16_from_to_be nth_append)
  show ?thesis
    using query response scan rr sub cut flag_bytes header_parse_header_bytes[of h "body @ opt_bytes sz ext ver flags rd"]
      put_at_header_additional[of h body] put_at_header_flags[of ?h body]
    by (simp add: response_for_client_def inspect_opt_def full_rcode_def remove_opt_def opt_rr_def
        opt_ttl_parts opt_ttl_version Let_def)
qed

section \<open>Changing levels\<close>



end
