(* ===== verification/Cache.thy ===== *)
theory Cache
  imports Wire_Packet Server_State "HOL-Library.List_Lexorder" "HOL-Library.Product_Lexorder"
    "HOL-Library.Multiset"
begin

text \<open>
  The answer cache: the sharded \<open>GlobalCache\<close> of \<open>src/src/cache_x.rs\<close> and the packet cache of
  \<open>src/src/cache.rs\<close> on top of it. A shard's hash map is an association list with distinct
  keys; the order in which the hash map is iterated is a parameter \<open>iter\<close> of the eviction,
  of which only \<^term>\<open>\<forall>m. mset (iter m) = mset m\<close> is used. Instants are passed in where the source reads
  the clock, and an \<open>Instant\<close> addition that leaves the clock's range, a panic, is \<open>None\<close>.
\<close>

section \<open>Keys and their hash\<close>

record xkey =
  xk_owner :: bytes
  xk_qtype :: u16
  xk_qclass :: u16

definition FNV_OFFSET :: u64 where "FNV_OFFSET = 0xcbf29ce484222325"
definition FNV_PRIME :: u64 where "FNV_PRIME = 0x100000001b3"

definition hash_byte :: "u64 \<Rightarrow> u8 \<Rightarrow> u64" where
  "hash_byte h b = (h XOR ucast (u8_lower b)) * FNV_PRIME"

text \<open>The loop over the labels; \<open>Inl\<close> is the early return on an invalid length.\<close>

function hash_labels :: "bytes \<Rightarrow> nat \<Rightarrow> u64 \<Rightarrow> u64 + u64" where
  "hash_labels wire i h =
     (if i < length wire then
        let len = unat (wire ! i) in
        if len = 0 then Inr ((h XOR 0xff) * FNV_PRIME)
        else if len > 63 \<or> i + 1 + len > length wire then Inl (h XOR 0xDEADBEEFCAFEBABE)
        else
          let h = foldl hash_byte h (take len (drop (i + 1) wire)) in
          hash_labels wire (i + 1 + len) ((h XOR 0x2e) * FNV_PRIME)
      else Inr h)"
  by pat_completeness auto
termination by (relation "measure (\<lambda>(wire, i, _). length wire - i)") auto

declare hash_labels.simps [simp del]

definition dns_name_hash :: "bytes \<Rightarrow> u64" where
  "dns_name_hash wire =
     (case hash_labels wire 0 FNV_OFFSET of
        Inl poison \<Rightarrow> poison
      | Inr h \<Rightarrow>
          let x = h XOR drop_bit 32 h;
              x = x * 0xe7037ed1a0b428db in
          x XOR drop_bit 32 x)"

datatype name_err = BadLabel | TooLong

fun owner_labels :: "bytes list \<Rightarrow> nat \<Rightarrow> name_err + bytes" where
  "owner_labels [] total_len = Inr [0]"
| "owner_labels (lab # labels) total_len =
     (if lab = [] \<or> length lab > 63 then Inl BadLabel
      else
        let total_len = total_len + length lab + 1 in
        if total_len > 255 then Inl TooLong
        else
          rbind (owner_labels labels total_len) (\<lambda>out.
          Inr (of_nat (length lab) # map u8_lower lab @ out)))"

definition owner_to_wire_lower :: "bytes list \<Rightarrow> name_err + bytes" where
  "owner_to_wire_lower labels = owner_labels labels 0"

lemma hash_byte_lower [simp]: "hash_byte h (u8_lower b) = hash_byte h b"
  by (simp add: hash_byte_def)

lemma foldl_hash_lower [simp]: "foldl hash_byte h (map u8_lower l) = foldl hash_byte h l"
  by (induction l arbitrary: h) simp_all

definition hash_label :: "u64 \<Rightarrow> bytes \<Rightarrow> u64" where
  "hash_label h l = (foldl hash_byte h l XOR 0x2e) * FNV_PRIME"

lemma hash_labels_wire:
  assumes "valid_labels ls"
  shows "hash_labels (pre @ wire_of_labels ls) (length pre) h = Inr ((foldl hash_label h ls XOR 0xff) * FNV_PRIME)"
  using assms
proof (induction ls arbitrary: pre h)
  case Nil
  then show ?case by (simp add: hash_labels.simps)
next
  case (Cons l ls)
  have l: "l \<noteq> []" "length l \<le> 63" "valid_labels ls" using Cons.prems by auto
  let ?w = "pre @ wire_of_labels (l # ls)"
  have u: "unat (of_nat (length l) :: u8) = length l" using l(2) by (rule unat_label_length)
  have "hash_labels ?w (length pre) h = hash_labels ?w (length pre + 1 + length l) (hash_label h l)"
    using l u by (subst hash_labels.simps) (simp add: hash_label_def nth_append Let_def)
  also have "\<dots> = hash_labels ((pre @ of_nat (length l) # l) @ wire_of_labels ls)
      (length (pre @ of_nat (length l) # l)) (hash_label h l)" by simp
  also have "\<dots> = Inr ((foldl hash_label (hash_label h l) ls XOR 0xff) * FNV_PRIME)" by (rule Cons.IH[OF l(3)])
  finally show ?case by simp
qed

text \<open>The hash of a name does not depend on the case of its letters.\<close>

lemma dns_name_hash_lower:
  assumes "valid_labels ls"
  shows "dns_name_hash (wire_of_labels (map (map u8_lower) ls)) = dns_name_hash (wire_of_labels ls)"
proof -
  have "foldl hash_label h (map (map u8_lower) ls) = foldl hash_label h ls" for h
    by (induction ls arbitrary: h) (simp_all add: hash_label_def)
  then show ?thesis
    using hash_labels_wire[of ls "[]"] hash_labels_wire[of "map (map u8_lower) ls" "[]"] assms
    by (simp add: dns_name_hash_def)
qed

lemma owner_labels_step:
  "owner_labels (l # ls) n =
     (if l = [] \<or> length l > 63 then Inl BadLabel else if n + length l + 1 > 255 then Inl TooLong
      else rbind (owner_labels ls (n + length l + 1)) (\<lambda>out. Inr (of_nat (length l) # map u8_lower l @ out)))"
  by (simp add: Let_def)

lemma owner_labels_Inr:
  "n \<le> 255 \<Longrightarrow> owner_labels ls n = Inr w \<longleftrightarrow> valid_labels ls \<and> n + length (wire_of_labels ls) \<le> 256 \<and>
     w = wire_of_labels (map (map u8_lower) ls)"
proof (induction ls arbitrary: n w)
  case (Cons l ls)
  have pos: "1 \<le> length (wire_of_labels ls)" using length_wire_pos[of ls] by linarith
  have size: "length (wire_of_labels (l # ls)) = length l + 1 + length (wire_of_labels ls)" by simp
  have nonempty: "l \<noteq> [] \<longleftrightarrow> 1 \<le> length l" by (cases l) auto
  consider "l = [] \<or> length l > 63" | "1 \<le> length l" "length l \<le> 63" "n + length l + 1 > 255"
    | "1 \<le> length l" "length l \<le> 63" "n + length l + 1 \<le> 255"
    using nonempty by linarith
  then show ?case
  proof cases
    case 1
    then show ?thesis by (auto simp: owner_labels_step simp del: owner_labels.simps)
  next
    case 2
    then have "\<not> n + length (wire_of_labels (l # ls)) \<le> 256" using pos unfolding size by linarith
    then show ?thesis using 2 nonempty by (simp only: owner_labels_step) simp
  next
    case 3
    then have eq: "owner_labels (l # ls) n =
        rbind (owner_labels ls (n + length l + 1)) (\<lambda>out. Inr (of_nat (length l) # map u8_lower l @ out))"
      using nonempty by (simp only: owner_labels_step) simp
    show ?thesis unfolding eq rbind_eq_Inr Cons.IH[OF 3(3)] size using 3 by auto
  qed
qed auto

text \<open>The root label is not counted: a name of 256 octets is accepted.\<close>

lemma owner_to_wire_lower_Inr:
  "owner_to_wire_lower ls = Inr w \<longleftrightarrow> valid_labels ls \<and> length (wire_of_labels ls) \<le> 256 \<and>
     w = wire_of_labels (map (map u8_lower) ls)"
  by (auto simp: owner_to_wire_lower_def owner_labels_Inr)

section \<open>Entries\<close>

record cache_entry =
  e_rcode :: u8
  e_answer :: bytes
  e_inserted :: instant
  e_expires_at :: instant
  e_stale_until :: instant
  e_dnssec_secure :: bool
  e_insert_gen :: u64

definition is_fresh :: "cache_entry \<Rightarrow> instant \<Rightarrow> bool" where
  "is_fresh e now \<longleftrightarrow> now < e_expires_at e"

definition is_servable_stale :: "cache_entry \<Rightarrow> instant \<Rightarrow> bool" where
  "is_servable_stale e now \<longleftrightarrow> now \<ge> e_expires_at e \<and> now < e_stale_until e"

definition clamp_ttl :: "duration \<Rightarrow> u8 \<Rightarrow> duration" where
  "clamp_ttl ttl rcode =
     (let hi = (if rcode = 3 \<or> rcode = 0 then from_secs (if rcode = 3 then 1800 else 3600)
                else from_secs 86400);
          lo = from_secs 1 in
      if ttl < lo then lo else if ttl > hi then hi else ttl)"

section \<open>Shards and eviction\<close>

type_synonym shard_map = "(xkey \<times> cache_entry) list"

record shard =
  sh_map :: shard_map
  sh_live :: u64

text \<open>\<open>retain\<close> with the counter of removed entries, up to the budget.\<close>

fun retain_live :: "instant \<Rightarrow> nat \<Rightarrow> nat \<Rightarrow> shard_map \<Rightarrow> nat \<times> shard_map" where
  "retain_live now budget removed [] = (removed, [])"
| "retain_live now budget removed ((k, e) # m) =
     (if removed \<ge> budget then
        (let (r, m') = retain_live now budget removed m in (r, (k, e) # m'))
      else if \<not> is_fresh e now \<and> \<not> is_servable_stale e now then
        retain_live now budget (removed + 1) m
      else (let (r, m') = retain_live now budget removed m in (r, (k, e) # m')))"

definition remove_keys :: "xkey list \<Rightarrow> shard_map \<Rightarrow> shard_map" where
  "remove_keys ks m = foldl (\<lambda>m k. AList.delete k m) m ks"

definition evict_expired_or_oldest ::
  "(shard_map \<Rightarrow> shard_map) \<Rightarrow> shard_map \<Rightarrow> instant \<Rightarrow> nat \<Rightarrow> shard_map" where
  "evict_expired_or_oldest iter m now budget =
     (let (removed, m) = retain_live now budget 0 (iter m) in
      if removed \<ge> budget \<or> m = [] then m
      else
        let gens = map (\<lambda>(k, e). (e_insert_gen e, k)) (iter m);
            gens = sort_key fst gens in
        remove_keys (map snd (take (budget - removed) gens)) m)"

section \<open>The sharded cache\<close>

record global_cache =
  gc_shards :: "shard list"
  gc_shard_mask :: u64
  gc_max_per_shard :: nat
  gc_stale_window :: duration
  gc_gen :: u64
  gc_hits :: u64
  gc_misses :: u64
  gc_stale_hits :: u64
  gc_coalesced :: u64

definition gc_new :: "nat \<Rightarrow> nat \<Rightarrow> duration \<Rightarrow> global_cache option" where
  "gc_new shard_bits max_per_shard stale_window =
     (if 0 < shard_bits \<and> shard_bits \<le> 12 then
        let n = 2 ^ shard_bits in
        Some \<lparr>gc_shards = replicate n \<lparr>sh_map = [], sh_live = 0\<rparr>, gc_shard_mask = of_nat n - 1,
              gc_max_per_shard = max_per_shard, gc_stale_window = stale_window, gc_gen = 1,
              gc_hits = 0, gc_misses = 0, gc_stale_hits = 0, gc_coalesced = 0\<rparr>
      else None)"

definition shard_idx :: "global_cache \<Rightarrow> xkey \<Rightarrow> nat" where
  "shard_idx c key =
     unat ((dns_name_hash (xk_owner key) XOR push_bit 16 (ucast (xk_qtype key)) XOR ucast (xk_qclass key))
           AND gc_shard_mask c)"

datatype look = Fresh cache_entry | Stale cache_entry | Miss

definition gc_lookup :: "global_cache \<Rightarrow> xkey \<Rightarrow> instant \<Rightarrow> global_cache \<times> look" where
  "gc_lookup c key now =
     (case map_of (sh_map (gc_shards c ! shard_idx c key)) key of
        None \<Rightarrow> (c\<lparr>gc_misses := gc_misses c + 1\<rparr>, Miss)
      | Some e \<Rightarrow>
          if is_fresh e now then (c\<lparr>gc_hits := gc_hits c + 1\<rparr>, Fresh e)
          else if is_servable_stale e now then (c\<lparr>gc_stale_hits := gc_stale_hits c + 1\<rparr>, Stale e)
          else (c\<lparr>gc_misses := gc_misses c + 1\<rparr>, Miss))"

definition make_entry :: "u8 \<Rightarrow> bytes \<Rightarrow> duration \<Rightarrow> bool \<Rightarrow> instant \<Rightarrow> duration \<Rightarrow> u64 \<Rightarrow> cache_entry option" where
  "make_entry rcode answer ttl secure now stale_window gen =
     (case instant_checked_add now ttl of
        None \<Rightarrow> None
      | Some expires \<Rightarrow> (case instant_checked_add expires stale_window of
            None \<Rightarrow> None
          | Some stale_until \<Rightarrow> Some \<lparr>e_rcode = rcode, e_answer = answer, e_inserted = now,
              e_expires_at = expires, e_stale_until = stale_until, e_dnssec_secure = secure,
              e_insert_gen = gen\<rparr>))"

definition shard_insert ::
  "(shard_map \<Rightarrow> shard_map) \<Rightarrow> nat \<Rightarrow> instant \<Rightarrow> xkey \<Rightarrow> cache_entry \<Rightarrow> shard \<Rightarrow> shard" where
  "shard_insert iter max_per_shard now key entry s =
     (let m = (if length (sh_map s) \<ge> max_per_shard
               then evict_expired_or_oldest iter (sh_map s) now (max_per_shard div 16 + 1)
               else sh_map s);
          new = (map_of m key = None) in
      \<lparr>sh_map = AList.update key entry m, sh_live = (if new then sh_live s + 1 else sh_live s)\<rparr>)"

definition gc_put ::
  "(shard_map \<Rightarrow> shard_map) \<Rightarrow> global_cache \<Rightarrow> xkey \<Rightarrow> cache_entry \<Rightarrow> instant \<Rightarrow> global_cache" where
  "gc_put iter c key entry now =
     (let idx = shard_idx c key in
      c\<lparr>gc_gen := gc_gen c + 1,
        gc_shards := (gc_shards c)[idx :=
          shard_insert iter (gc_max_per_shard c) now key entry (gc_shards c ! idx)]\<rparr>)"

definition gc_insert ::
  "(shard_map \<Rightarrow> shard_map) \<Rightarrow> global_cache \<Rightarrow> xkey \<Rightarrow> u8 \<Rightarrow> bytes \<Rightarrow> duration \<Rightarrow> bool \<Rightarrow> instant
   \<Rightarrow> global_cache option" where
  "gc_insert iter c key rcode answer ttl secure now =
     (case make_entry rcode answer (clamp_ttl ttl rcode) secure now (gc_stale_window c) (gc_gen c) of
        None \<Rightarrow> None
      | Some entry \<Rightarrow> Some (gc_put iter c key entry now))"

definition gc_flush :: "global_cache \<Rightarrow> global_cache" where
  "gc_flush c = c\<lparr>gc_shards := map (\<lambda>s. \<lparr>sh_map = [], sh_live = 0\<rparr>) (gc_shards c)\<rparr>"

definition gc_len :: "global_cache \<Rightarrow> nat" where
  "gc_len c = sum_list (map (\<lambda>s. unat (sh_live s)) (gc_shards c))"

definition gc_snapshot ::
  "(shard_map \<Rightarrow> shard_map) \<Rightarrow> global_cache \<Rightarrow> instant \<Rightarrow> (xkey \<times> cache_entry) list" where
  "gc_snapshot iter c now =
     sort_key (\<lambda>(k, e). (xk_owner k, xk_qclass k, xk_qtype k, e_insert_gen e))
       (concat (map (\<lambda>s. filter (\<lambda>(k, e). is_fresh e now \<or> is_servable_stale e now) (iter (sh_map s)))
         (gc_shards c)))"

section \<open>The packet cache\<close>

definition STRANGE_RCODE_TTL :: duration where "STRANGE_RCODE_TTL = from_secs 10"

record cache_key =
  ck_name :: bytes
  ck_rr_type :: u16
  ck_class :: u16
  ck_checking_disabled :: bool
  ck_route :: u64

record cache_snapshot =
  cs_name :: bytes
  cs_rr_type :: u16
  cs_class :: u16
  cs_rcode :: u8
  cs_response :: bytes
  cs_remaining :: duration

record packet_cache =
  pc_global :: global_cache
  pc_capacity :: nat
  pc_maximum_ttl :: duration
  pc_store_negative :: bool

definition cache_new :: "nat \<Rightarrow> duration \<Rightarrow> duration \<Rightarrow> bool \<Rightarrow> packet_cache option" where
  "cache_new capacity maximum_ttl stale_retention store_negative =
     map_option (\<lambda>g. \<lparr>pc_global = g, pc_capacity = capacity, pc_maximum_ttl = maximum_ttl,
         pc_store_negative = store_negative\<rparr>)
       (gc_new 4 (max (capacity div 16) 1) stale_retention)"

definition to_xkey :: "cache_key \<Rightarrow> xkey" where
  "to_xkey key = \<lparr>xk_owner = ck_name key, xk_qtype = ck_rr_type key, xk_qclass = ck_class key\<rparr>"

definition elapsed_secs :: "instant \<Rightarrow> instant \<Rightarrow> u32" where
  "elapsed_secs now inserted =
     (case try_from_nat ((now - inserted) div 1000000000) of None \<Rightarrow> - 1 | Some n \<Rightarrow> n)"

definition cache_get ::
  "packet_cache \<Rightarrow> cache_key \<Rightarrow> u16 \<Rightarrow> bool \<Rightarrow> instant \<Rightarrow> packet_cache \<times> bytes option" where
  "cache_get c key qid allow_stale now =
     (let (g, lookup) = gc_lookup (pc_global c) (to_xkey key) now;
          c = c\<lparr>pc_global := g\<rparr>;
          entry = (case lookup of
             Fresh e \<Rightarrow> Some e
           | Stale e \<Rightarrow> if allow_stale then Some e else None
           | Miss \<Rightarrow> None) in
      (c, case entry of
            None \<Rightarrow> None
          | Some entry \<Rightarrow>
              let is_stale = (now \<ge> e_expires_at entry) in
              result_ok (rbind (rewrite_id (e_answer entry) qid) (\<lambda>packet.
                age_ttls packet (elapsed_secs now (e_inserted entry)) is_stale))))"

text \<open>The time to live of a response, \<open>None\<close> for a response that is not cached.\<close>

definition response_ttl :: "packet_cache \<Rightarrow> bytes \<Rightarrow> wire_error + duration option" where
  "response_ttl c response =
     rbind (header_parse response) (\<lambda>header.
     if \<not> is_response header \<or> truncated header then Inr None
     else
       let rcode = response_code header;
           negative = (rcode \<noteq> 0 \<or> answer_count header = 0) in
       if negative \<and> \<not> pc_store_negative c then Inr None
       else
         rbind (if rcode = 0 \<or> rcode = 3 then
                  rbind (cache_lifetime response) (\<lambda>lifetime.
                  Inr (map_option (\<lambda>ttl_seconds. from_secs (unat ttl_seconds)) lifetime))
                else if rcode = 2 then Inr (Some STRANGE_RCODE_TTL)
                else Inr None) (\<lambda>ttl.
         Inr (case ttl of
                None \<Rightarrow> None
              | Some ttl \<Rightarrow>
                  let ttl = min ttl (pc_maximum_ttl c) in
                  if ttl = 0 \<or> pc_capacity c = 0 then None else Some ttl)))"

definition cache_insert ::
  "(shard_map \<Rightarrow> shard_map) \<Rightarrow> packet_cache \<Rightarrow> cache_key \<Rightarrow> bytes \<Rightarrow> instant
   \<Rightarrow> wire_error + (packet_cache \<times> bool) option" where
  "cache_insert iter c key response now =
     rbind (response_ttl c response) (\<lambda>ttl.
     case ttl of
       None \<Rightarrow> Inr (Some (c, False))
     | Some ttl \<Rightarrow>
         rbind (header_parse response) (\<lambda>header.
         rbind (rewrite_id response 0) (\<lambda>packet.
         Inr (map_option (\<lambda>g. (c\<lparr>pc_global := g\<rparr>, True))
           (gc_insert iter (pc_global c) (to_xkey key) (ucast (response_code header)) packet ttl False now)))))"

definition cache_flush :: "packet_cache \<Rightarrow> packet_cache" where
  "cache_flush c = c\<lparr>pc_global := gc_flush (pc_global c)\<rparr>"

definition cache_len :: "packet_cache \<Rightarrow> nat" where
  "cache_len c = gc_len (pc_global c)"

definition pc_snapshot ::
  "(shard_map \<Rightarrow> shard_map) \<Rightarrow> packet_cache \<Rightarrow> instant \<Rightarrow> cache_snapshot list" where
  "pc_snapshot iter c now =
     map (\<lambda>(key, entry). \<lparr>cs_name = xk_owner key, cs_rr_type = xk_qtype key, cs_class = xk_qclass key,
           cs_rcode = e_rcode entry, cs_response = e_answer entry, cs_remaining = e_expires_at entry - now\<rparr>)
       (gc_snapshot iter (pc_global c) now)"

section \<open>Eviction\<close>

abbreviation live_at :: "instant \<Rightarrow> cache_entry \<Rightarrow> bool" where
  "live_at now e \<equiv> is_fresh e now \<or> is_servable_stale e now"

definition iteration :: "(shard_map \<Rightarrow> shard_map) \<Rightarrow> bool" where
  "iteration iter \<longleftrightarrow> (\<forall>m. mset (iter m) = mset m)"

abbreviation distinct_keys :: "shard_map \<Rightarrow> bool" where
  "distinct_keys m \<equiv> distinct (map fst m)"

lemma retain_live_full: "budget \<le> removed \<Longrightarrow> retain_live now budget removed m = (removed, m)"
  by (induction m) auto

lemma retain_live_spec:
  assumes "retain_live now budget removed m = (r, m')"
  shows "mset m' \<subseteq># mset m \<and> r + length m' = removed + length m \<and> (removed \<le> budget \<longrightarrow> r \<le> budget)
    \<and> (r < budget \<longrightarrow> (\<forall>x \<in> set m'. live_at now (snd x)))
    \<and> (\<forall>x \<in> set m. live_at now (snd x) \<longrightarrow> x \<in> set m')"
  using assms
proof (induction m arbitrary: removed r m')
  case (Cons a m)
  obtain k e where a: "a = (k, e)" by fastforce
  show ?case
  proof (cases "budget \<le> removed")
    case True
    then show ?thesis using Cons.prems by (auto simp: retain_live_full)
  next
    case False
    show ?thesis
    proof (cases "live_at now e")
      case True
      obtain m'' where m'': "retain_live now budget removed m = (r, m'')" "m' = a # m''"
        using Cons.prems False True a by (auto split: prod.splits)
      then show ?thesis using Cons.IH[OF m''(1)] True a by auto
    next
      case gone: False
      then have "retain_live now budget (removed + 1) m = (r, m')"
        using Cons.prems False a by auto
      from Cons.IH[OF this] show ?thesis using gone a False
        by (auto intro: subset_mset.order_trans)
    qed
  qed
qed auto

lemma remove_keys_filter: "remove_keys ks m = filter (\<lambda>p. fst p \<notin> set ks) m"
  unfolding remove_keys_def
  by (induction ks arbitrary: m) (auto simp: AList.delete_eq split_beta intro!: filter_cong)

lemma distinct_keys_submset:
  assumes "mset m' \<subseteq># mset m" "distinct_keys m" shows "distinct_keys m'"
proof -
  have "mset (map fst m') \<subseteq># mset (map fst m)" using assms(1) by (simp add: image_mset_subseteq_mono)
  then have "count (mset (map fst m')) a \<le> count (mset (map fst m)) a" for a
    by (rule mset_subset_eq_count)
  then have "count (mset (map fst m')) a \<le> 1" for a
    using assms(2) by (metis distinct_count_atmost_1 le_trans zero_le order_refl)
  then show ?thesis
    by (simp add: distinct_count_atmost_1) (metis One_nat_def count_mset_gt_0 le_antisym less_eq_Suc_le set_map not_in_iff set_mset_mset mset_map)
qed

lemma map_of_subset:
  assumes "distinct_keys m" "set m' \<subseteq> set m" shows "map_of m' \<subseteq>\<^sub>m map_of m"
proof (unfold map_le_def, rule ballI)
  fix k assume "k \<in> dom (map_of m')"
  then obtain e where e: "map_of m' k = Some e" by auto
  then have "(k, e) \<in> set m" using assms(2) by (auto dest: map_of_SomeD)
  then show "map_of m' k = map_of m k" using e assms(1) by (simp add: map_of_is_SomeI)
qed

lemma length_remove_keys:
  assumes "distinct_keys m" "distinct ks" "set ks \<subseteq> fst ` set m"
  shows "length (filter (\<lambda>p. fst p \<notin> set ks) m) = length m - length ks"
proof -
  have "length (filter (\<lambda>p. fst p \<in> set ks) m) = length (filter (\<lambda>k. k \<in> set ks) (map fst m))"
    by (simp add: filter_map comp_def)
  also have "\<dots> = card (set (filter (\<lambda>k. k \<in> set ks) (map fst m)))"
    using assms(1) by (metis distinct_card distinct_filter)
  also have "set (filter (\<lambda>k. k \<in> set ks) (map fst m)) = set ks" using assms(3) by auto
  also have "card (set ks) = length ks" using assms(2) by (rule distinct_card)
  finally show ?thesis using sum_length_filter_compl[of "\<lambda>p. fst p \<in> set ks" m] by simp
qed

lemma take_drop_sort_key:
  assumes "x \<in> set (take n (sort_key f xs))" "y \<in> set (drop n (sort_key f xs))"
  shows "f x \<le> f y"
proof -
  have "sorted (map f (take n (sort_key f xs) @ drop n (sort_key f xs)))" by simp
  then show ?thesis using assms unfolding map_append sorted_append by auto
qed

text \<open>
  The second phase in isolation: with entries left after the first phase, the \<open>n\<close> entries
  inserted first go.
\<close>

lemma evict_oldest:
  assumes iter: "iteration iter" and dist: "distinct_keys m"
    and ks_def: "ks = map snd (take n (sort_key fst (map (\<lambda>(k, e). (e_insert_gen e, k)) (iter m))))"
  shows "length (remove_keys ks m) = length m - n"
    and "(k, e) \<in> set m \<Longrightarrow> (k, e) \<notin> set (remove_keys ks m) \<Longrightarrow> (k', e') \<in> set (remove_keys ks m) \<Longrightarrow>
         e_insert_gen e \<le> e_insert_gen e'"
proof -
  let ?gens = "map (\<lambda>(k, e). (e_insert_gen e, k)) (iter m)"
  let ?s = "sort_key fst ?gens"
  have perm: "mset (iter m) = mset m" using iter by (simp add: iteration_def)
  have set_iter: "set (iter m) = set m" using perm by (rule mset_eq_setD)
  have len_iter: "length (iter m) = length m" using perm by (rule mset_eq_length)
  have gens: "map snd ?gens = map fst (iter m)" by (simp add: split_beta)
  have "mset (map snd ?s) = mset (map snd ?gens)" by (simp only: mset_map mset_sort)
  also have "\<dots> = mset (map fst m)" unfolding gens using perm by simp
  finally have "mset (map snd ?s) = mset (map fst m)" .
  then have dsnd: "distinct (map snd ?s)" and ssnd: "set (map snd ?s) = set (map fst m)"
    using dist mset_eq_imp_distinct_iff mset_eq_setD by blast+
  have ks: "ks = take n (map snd ?s)" by (simp add: ks_def take_map)
  have dks: "distinct ks" using dsnd unfolding ks by (rule distinct_take)
  have sks: "set ks \<subseteq> fst ` set m" using ssnd set_take_subset[of n "map snd ?s"] unfolding ks by simp
  have len: "length ks = min n (length m)" using len_iter by (simp add: ks_def min.commute)
  show "length (remove_keys ks m) = length m - n"
    using length_remove_keys[OF dist dks sks] len by (simp add: remove_keys_filter)
  assume ke: "(k, e) \<in> set m" "(k, e) \<notin> set (remove_keys ks m)" and ke': "(k', e') \<in> set (remove_keys ks m)"
  have "k \<in> set ks" using ke by (simp add: remove_keys_filter)
  then obtain g where g: "(g, k) \<in> set (take n ?s)" unfolding ks_def by auto
  then have "(g, k) \<in> set ?gens" by (metis in_set_takeD set_sort)
  then obtain e0 where "(k, e0) \<in> set m" "g = e_insert_gen e0" using set_iter by auto
  then have ge: "g = e_insert_gen e" using dist ke(1) eq_key_imp_eq_value by metis
  have k': "(k', e') \<in> set m" "k' \<notin> set ks" using ke' by (simp_all add: remove_keys_filter)
  have "(e_insert_gen e', k') \<in> set ?gens" using k'(1) set_iter by (auto intro: rev_image_eqI)
  then have "(e_insert_gen e', k') \<in> set (take n ?s @ drop n ?s)" by (simp only: append_take_drop_id set_sort)
  moreover have "(e_insert_gen e', k') \<notin> set (take n ?s)"
  proof
    assume "(e_insert_gen e', k') \<in> set (take n ?s)"
    then have "snd (e_insert_gen e', k') \<in> set (map snd (take n ?s))" unfolding set_map by (rule imageI)
    then show False using k'(2) unfolding ks_def snd_conv by (rule notE[rotated])
  qed
  ultimately have "(e_insert_gen e', k') \<in> set (drop n ?s)" by (simp only: set_append Un_iff simp_thms)
  from take_drop_sort_key[OF g this] show "e_insert_gen e \<le> e_insert_gen e'" by (simp add: ge)
qed

lemma evict_spec:
  assumes iter: "iteration iter" and dist: "distinct_keys m"
    and ev: "evict_expired_or_oldest iter m now budget = m'"
  shows "set m' \<subseteq> set m" "distinct_keys m'" "length m' = length m - budget"
    "(k, e) \<in> set m \<Longrightarrow> (k, e) \<notin> set m' \<Longrightarrow> live_at now e \<Longrightarrow> (k', e') \<in> set m' \<Longrightarrow>
       live_at now e' \<and> e_insert_gen e \<le> e_insert_gen e'"
proof -
  obtain r m1 where r: "retain_live now budget 0 (iter m) = (r, m1)" by fastforce
  have perm: "mset (iter m) = mset m" using iter by (simp add: iteration_def)
  note spec = retain_live_spec[OF r]
  have sub1: "mset m1 \<subseteq># mset m" using spec perm by simp
  have d1: "distinct_keys m1" using distinct_keys_submset[OF sub1 dist] .
  have set1: "set m1 \<subseteq> set m" using sub1 by (metis set_mset_mono set_mset_mset)
  have len1: "r + length m1 = length m" using spec perm mset_eq_length[OF perm] by simp
  have live1: "x \<in> set m1" if "x \<in> set m" "live_at now (snd x)" for x
    using spec that mset_eq_setD[OF perm] by blast
  let ?ks = "map snd (take (budget - r) (sort_key fst (map (\<lambda>(k, e). (e_insert_gen e, k)) (iter m1))))"
  note old = evict_oldest[OF iter d1 refl[of ?ks]]
  have m': "m' = (if budget \<le> r \<or> m1 = [] then m1 else remove_keys ?ks m1)"
    using ev unfolding evict_expired_or_oldest_def r Let_def by (simp split del: if_split)
  have sub2: "set (remove_keys ks m1) \<subseteq> set m1" for ks by (auto simp: remove_keys_filter)
  show "set m' \<subseteq> set m" using m' set1 sub2 by (auto split: if_splits)
  show "distinct_keys m'" using m' d1 by (simp add: remove_keys_filter distinct_map_filter)
  have "r \<le> budget" using spec by simp
  then show "length m' = length m - budget" using m' len1 old(1) by (auto split: if_splits)
  assume ke: "(k, e) \<in> set m" "(k, e) \<notin> set m'" "live_at now e" and ke': "(k', e') \<in> set m'"
  have in1: "(k, e) \<in> set m1" using live1[OF ke(1)] ke(3) by simp
  then have second: "m' = remove_keys ?ks m1" "r < budget" using m' ke(2) by (auto split: if_splits)
  have "(k', e') \<in> set m1" using ke' sub2 second(1) by blast
  then have "live_at now e'" using spec second(2) by fastforce
  moreover have "e_insert_gen e \<le> e_insert_gen e'"
    by (rule old(2)[OF in1]) (use ke ke' second in simp_all)
  ultimately show "live_at now e' \<and> e_insert_gen e \<le> e_insert_gen e'" by blast
qed

section \<open>Invariant of the sharded cache\<close>

definition shard_wf :: "global_cache \<Rightarrow> nat \<Rightarrow> shard_map \<Rightarrow> bool" where
  "shard_wf c i m \<longleftrightarrow> distinct_keys m \<and> length m \<le> gc_max_per_shard c \<and> (\<forall>(k, e) \<in> set m. shard_idx c k = i)"

definition gc_wf :: "global_cache \<Rightarrow> bool" where
  "gc_wf c \<longleftrightarrow> (\<exists>b. 0 < b \<and> b \<le> 12 \<and> length (gc_shards c) = 2 ^ b \<and> gc_shard_mask c = mask b) \<and>
     0 < gc_max_per_shard c \<and> (\<forall>i < length (gc_shards c). shard_wf c i (sh_map (gc_shards c ! i)))"

definition content :: "global_cache \<Rightarrow> xkey \<Rightarrow> cache_entry option" where
  "content c k = map_of (sh_map (gc_shards c ! shard_idx c k)) k"

lemma shard_idx_less:
  assumes "gc_wf c" shows "shard_idx c k < length (gc_shards c)"
proof -
  obtain b where b: "length (gc_shards c) = 2 ^ b" "gc_shard_mask c = mask b"
    using assms by (auto simp: gc_wf_def)
  have "unat (w AND mask b) < 2 ^ b" for w :: u64
    by (metis take_bit_eq_mask take_bit_nat_less_exp unsigned_take_bit_eq)
  then show ?thesis by (simp add: shard_idx_def b)
qed

lemma shard_idx_cong: "gc_shard_mask c = gc_shard_mask c' \<Longrightarrow> shard_idx c k = shard_idx c' k"
  by (simp add: shard_idx_def)

lemma gc_new_wf: "gc_new b n w = Some c \<Longrightarrow> 0 < n \<Longrightarrow> gc_wf c"
  by (auto simp: gc_new_def gc_wf_def shard_wf_def Let_def mask_eq_exp_minus_1 split: if_splits)

lemma gc_new_content: "gc_new b n w = Some c \<Longrightarrow> content c k = None"
proof -
  assume new: "gc_new b n w = Some c"
  then have "gc_wf (c\<lparr>gc_max_per_shard := 1\<rparr>)" 
    by (auto simp: gc_new_def gc_wf_def shard_wf_def Let_def mask_eq_exp_minus_1 split: if_splits)
  then have "shard_idx (c\<lparr>gc_max_per_shard := 1\<rparr>) k < length (gc_shards c)" using shard_idx_less by fastforce
  then show ?thesis using new by (auto simp: gc_new_def content_def shard_idx_def Let_def split: if_splits)
qed

lemma gc_lookup_state:
  assumes "gc_lookup c k now = (c', r)"
  shows "gc_shards c' = gc_shards c" "gc_shard_mask c' = gc_shard_mask c"
    "gc_max_per_shard c' = gc_max_per_shard c" "gc_gen c' = gc_gen c" "gc_stale_window c' = gc_stale_window c"
  using assms by (auto simp: gc_lookup_def split: option.splits if_splits)

lemma shard_insert_map:
  assumes iter: "iteration iter" and wf: "shard_wf c i (sh_map s)" and max: "0 < gc_max_per_shard c"
    and idx: "shard_idx c k = i"
  shows "shard_wf c i (sh_map (shard_insert iter (gc_max_per_shard c) now k e s))"
    and "map_of (sh_map (shard_insert iter (gc_max_per_shard c) now k e s)) k = Some e"
    and "k' \<noteq> k \<Longrightarrow> map_of (sh_map (shard_insert iter (gc_max_per_shard c) now k e s)) k' \<in>
           {map_of (sh_map s) k', None}"
    and "length (sh_map s) < gc_max_per_shard c \<Longrightarrow>
         sh_map (shard_insert iter (gc_max_per_shard c) now k e s) = AList.update k e (sh_map s)"
proof -
  let ?b = "gc_max_per_shard c div 16 + 1"
  define m where "m = (if length (sh_map s) \<ge> gc_max_per_shard c
    then evict_expired_or_oldest iter (sh_map s) now ?b else sh_map s)"
  have out: "sh_map (shard_insert iter (gc_max_per_shard c) now k e s) = AList.update k e m"
    by (simp add: shard_insert_def m_def Let_def)
  have dist: "distinct_keys (sh_map s)" using wf by (simp add: shard_wf_def)
  note ev = evict_spec[OF iter dist refl, where now = now and budget = ?b]
  have sub: "set m \<subseteq> set (sh_map s)" and dm: "distinct_keys m" using ev(1,2) dist by (auto simp: m_def)
  have len: "length m < gc_max_per_shard c" using ev(3) max wf by (auto simp: m_def shard_wf_def)
  have "length (AList.update k e m) \<le> Suc (length m)" by (induction m) auto
  moreover have "set (AList.update k e m) \<subseteq> insert (k, e) (set m)" by (induction m) auto
  ultimately show "shard_wf c i (sh_map (shard_insert iter (gc_max_per_shard c) now k e s))"
    using wf sub dm len idx unfolding out shard_wf_def by (auto simp: distinct_update)
  show "map_of (sh_map (shard_insert iter (gc_max_per_shard c) now k e s)) k = Some e"
    by (simp add: out update_conv')
  show "map_of (sh_map (shard_insert iter (gc_max_per_shard c) now k e s)) k' \<in> {map_of (sh_map s) k', None}"
    if "k' \<noteq> k"
    using map_of_subset[OF dist sub] that by (cases "map_of m k'") (auto simp: out update_conv' map_le_def dom_def)
  show "sh_map (shard_insert iter (gc_max_per_shard c) now k e s) = AList.update k e (sh_map s)"
    if "length (sh_map s) < gc_max_per_shard c" using that by (simp add: out m_def)
qed

lemma gc_put_fields [simp]:
  "gc_shard_mask (gc_put iter c k e now) = gc_shard_mask c"
  "gc_max_per_shard (gc_put iter c k e now) = gc_max_per_shard c"
  "gc_stale_window (gc_put iter c k e now) = gc_stale_window c"
  "gc_gen (gc_put iter c k e now) = gc_gen c + 1"
  "length (gc_shards (gc_put iter c k e now)) = length (gc_shards c)"
  "shard_idx (gc_put iter c k e now) k' = shard_idx c k'"
  "gc_shards (gc_put iter c k e now) = (gc_shards c)[shard_idx c k :=
     shard_insert iter (gc_max_per_shard c) now k e (gc_shards c ! shard_idx c k)]"
  by (simp_all add: gc_put_def Let_def shard_idx_def)

lemma shard_wf_cong:
  "gc_shard_mask c' = gc_shard_mask c \<Longrightarrow> gc_max_per_shard c' = gc_max_per_shard c \<Longrightarrow> shard_wf c' i m = shard_wf c i m"
  by (simp add: shard_wf_def shard_idx_def)

lemma gc_put_wf:
  assumes "iteration iter" "gc_wf c" shows "gc_wf (gc_put iter c k e now)"
proof -
  have i: "shard_idx c k < length (gc_shards c)" by (rule shard_idx_less[OF assms(2)])
  have shards: "shard_wf c j (sh_map (gc_shards c ! j))" if "j < length (gc_shards c)" for j
    using assms(2) that by (simp add: gc_wf_def)
  have max: "0 < gc_max_per_shard c" using assms(2) by (simp add: gc_wf_def)
  have "shard_wf c j (sh_map (gc_shards (gc_put iter c k e now) ! j))" if j: "j < length (gc_shards c)" for j
  proof (cases "j = shard_idx c k")
    case True
    then show ?thesis using shard_insert_map(1)[OF assms(1) shards[OF j] max] i by simp
  next
    case False
    then show ?thesis using shards[OF j] by simp
  qed
  then have "\<forall>j < length (gc_shards (gc_put iter c k e now)).
      shard_wf (gc_put iter c k e now) j (sh_map (gc_shards (gc_put iter c k e now) ! j))"
    using shard_wf_cong[of "gc_put iter c k e now" c] by (simp only: gc_put_fields simp_thms length_list_update) blast
  moreover have "\<exists>b. 0 < b \<and> b \<le> 12 \<and> length (gc_shards c) = 2 ^ b \<and> gc_shard_mask c = mask b"
    using assms(2) by (simp only: gc_wf_def)
  ultimately show ?thesis using max unfolding gc_wf_def by (simp only: gc_put_fields simp_thms length_list_update)
qed

lemma gc_put_content:
  assumes "iteration iter" "gc_wf c"
  shows "content (gc_put iter c k e now) k = Some e"
    and "k' \<noteq> k \<Longrightarrow> content (gc_put iter c k e now) k' \<in> {content c k', None}"
proof -
  have i: "shard_idx c k < length (gc_shards c)" by (rule shard_idx_less[OF assms(2)])
  then have wf: "shard_wf c (shard_idx c k) (sh_map (gc_shards c ! shard_idx c k))" "0 < gc_max_per_shard c"
    using assms(2) by (auto simp: gc_wf_def)
  note ins = shard_insert_map[OF assms(1) wf refl]
  show "content (gc_put iter c k e now) k = Some e" using i ins(2) by (simp add: content_def)
  show "content (gc_put iter c k e now) k' \<in> {content c k', None}" if "k' \<noteq> k"
    using i ins(3)[OF that] by (cases "shard_idx c k' = shard_idx c k") (auto simp: content_def)
qed

lemma gc_flush_content: "gc_wf c \<Longrightarrow> content (gc_flush c) k = None"
  using shard_idx_less[of c k] by (simp add: content_def gc_flush_def shard_idx_def)

lemma gc_flush_wf: "gc_wf c \<Longrightarrow> gc_wf (gc_flush c)"
  by (auto simp: gc_wf_def gc_flush_def shard_wf_def)

section \<open>A lossy store refines an unbounded one\<close>

text \<open>
  The contract between the shards and their clients: an insertion is found, other keys keep
  their value or lose it, and clearing removes everything. A store with this contract never
  returns anything but what the unbounded map of all insertions holds.
\<close>

datatype ('k, 'e) store_op = Put 'k 'e nat | Clear

fun spec_op :: "('k, 'e) store_op \<Rightarrow> ('k \<rightharpoonup> 'e) \<Rightarrow> ('k \<rightharpoonup> 'e)" where
  "spec_op (Put k e now) m = m(k \<mapsto> e)"
| "spec_op Clear m = Map.empty"

locale lossy_store =
  fixes good :: "'i \<Rightarrow> bool" and inv :: "'s \<Rightarrow> bool" and lookup :: "'s \<Rightarrow> 'k \<Rightarrow> 'e option"
    and put :: "'i \<Rightarrow> 's \<Rightarrow> 'k \<Rightarrow> 'e \<Rightarrow> nat \<Rightarrow> 's" and clear :: "'s \<Rightarrow> 's"
  assumes put_inv: "good i \<Longrightarrow> inv s \<Longrightarrow> inv (put i s k e now)"
    and put_same: "good i \<Longrightarrow> inv s \<Longrightarrow> lookup (put i s k e now) k = Some e"
    and put_other: "good i \<Longrightarrow> inv s \<Longrightarrow> k' \<noteq> k \<Longrightarrow> lookup (put i s k e now) k' \<in> {lookup s k', None}"
    and clear_inv: "inv s \<Longrightarrow> inv (clear s)"
    and clear_lookup: "inv s \<Longrightarrow> lookup (clear s) k = None"
begin

fun run_op :: "'i \<Rightarrow> ('k, 'e) store_op \<Rightarrow> 's \<Rightarrow> 's" where
  "run_op i (Put k e now) s = put i s k e now"
| "run_op i Clear s = clear s"

lemma run_op_refines:
  assumes "good i" "inv s" "lookup s \<subseteq>\<^sub>m m"
  shows "inv (run_op i op s)" "lookup (run_op i op s) \<subseteq>\<^sub>m spec_op op m"
proof -
  show "inv (run_op i op s)" using assms by (cases op) (auto intro: put_inv clear_inv)
  show "lookup (run_op i op s) \<subseteq>\<^sub>m spec_op op m"
  proof (cases op)
    case (Put k e now)
    have "lookup (put i s k e now) k' = (m(k \<mapsto> e)) k'" if "lookup (put i s k e now) k' \<noteq> None" for k'
      using put_same[OF assms(1,2), of k e now] put_other[OF assms(1,2), of k' k e now] that assms(3)
      by (cases "k' = k") (auto simp: map_le_def dom_def)
    then show ?thesis unfolding Put by (auto simp: map_le_def dom_def)
  qed (use assms clear_lookup in \<open>auto simp: map_le_def dom_def\<close>)
qed

lemma run_refines:
  assumes "good i" "inv s" "lookup s \<subseteq>\<^sub>m m"
  shows "inv (fold (run_op i) ops s) \<and> lookup (fold (run_op i) ops s) \<subseteq>\<^sub>m fold spec_op ops m"
  using assms
proof (induction ops arbitrary: s m)
  case (Cons op ops)
  show ?case using Cons.IH[OF Cons.prems(1) run_op_refines[OF Cons.prems, of op]] by simp
qed simp

end

interpretation gc_store: lossy_store iteration gc_wf content gc_put gc_flush
  by unfold_locales (auto intro: gc_put_wf gc_put_content gc_flush_wf gc_flush_content
      dest: gc_put_content(2) simp del: gc_put_fields(7))

section \<open>Histories of the cache\<close>

datatype cache_op =
    OpInsert xkey u8 bytes duration bool instant
  | OpLookup xkey instant
  | OpFlush

fun gc_op :: "(shard_map \<Rightarrow> shard_map) \<Rightarrow> cache_op \<Rightarrow> global_cache \<Rightarrow> global_cache option" where
  "gc_op iter (OpInsert k rcode answer ttl secure now) c = gc_insert iter c k rcode answer ttl secure now"
| "gc_op iter (OpLookup k now) c = Some (fst (gc_lookup c k now))"
| "gc_op iter OpFlush c = Some (gc_flush c)"

fun gc_run :: "(shard_map \<Rightarrow> shard_map) \<Rightarrow> cache_op list \<Rightarrow> global_cache \<Rightarrow> global_cache option" where
  "gc_run iter [] c = Some c"
| "gc_run iter (op # ops) c = Option.bind (gc_op iter op c) (gc_run iter ops)"

text \<open>The specification: an unbounded map and the generation counter.\<close>

type_synonym cache_spec = "u64 \<times> (xkey \<rightharpoonup> cache_entry)"

fun sp_op :: "duration \<Rightarrow> cache_op \<Rightarrow> cache_spec \<Rightarrow> cache_spec option" where
  "sp_op w (OpInsert k rcode answer ttl secure now) (g, m) =
     map_option (\<lambda>e. (g + 1, m(k \<mapsto> e))) (make_entry rcode answer (clamp_ttl ttl rcode) secure now w g)"
| "sp_op w (OpLookup k now) (g, m) = Some (g, m)"
| "sp_op w OpFlush (g, m) = Some (g, Map.empty)"

fun sp_run :: "duration \<Rightarrow> cache_op list \<Rightarrow> cache_spec \<Rightarrow> cache_spec option" where
  "sp_run w [] s = Some s"
| "sp_run w (op # ops) s = Option.bind (sp_op w op s) (sp_run w ops)"

definition sp_lookup :: "(xkey \<rightharpoonup> cache_entry) \<Rightarrow> xkey \<Rightarrow> instant \<Rightarrow> look" where
  "sp_lookup m k now =
     (case m k of
        None \<Rightarrow> Miss
      | Some e \<Rightarrow> if now < e_expires_at e then Fresh e else if now < e_stale_until e then Stale e else Miss)"

lemma gc_lookup_spec: "snd (gc_lookup c k now) = sp_lookup (content c) k now"
  by (auto simp: gc_lookup_def sp_lookup_def content_def is_fresh_def is_servable_stale_def split: option.splits)

lemma sp_lookup_submap: "m \<subseteq>\<^sub>m m' \<Longrightarrow> sp_lookup m k now \<in> {sp_lookup m' k now, Miss}"
  by (cases "m k") (auto simp: sp_lookup_def map_le_def dom_def)

definition refines :: "duration \<Rightarrow> nat \<Rightarrow> global_cache \<Rightarrow> cache_spec \<Rightarrow> bool" where
  "refines w n c s \<longleftrightarrow> gc_wf c \<and> gc_max_per_shard c = n \<and> gc_stale_window c = w \<and> gc_gen c = fst s \<and>
     content c \<subseteq>\<^sub>m snd s"

lemma gc_lookup_keeps:
  assumes "refines w n c s" shows "refines w n (fst (gc_lookup c k now)) s"
proof -
  obtain c' r where l: "gc_lookup c k now = (c', r)" by fastforce
  note keep = gc_lookup_state[OF l]
  have idx: "shard_idx c' k = shard_idx c k" for k using keep(2) by (rule shard_idx_cong)
  have "content c' = content c" by (rule ext) (simp add: content_def idx keep)
  moreover have "gc_wf c'"
    using assms shard_wf_cong[OF keep(2,3)] by (simp add: refines_def gc_wf_def keep)
  ultimately show ?thesis using assms keep l by (simp add: refines_def)
qed

lemma gc_op_refines:
  assumes iter: "iteration iter" and r: "refines w n c s"
  shows "rel_option (refines w n) (gc_op iter op c) (sp_op w op s)"
proof (cases op)
  case (OpInsert k rcode answer ttl secure now)
  let ?e = "make_entry rcode answer (clamp_ttl ttl rcode) secure now w (gc_gen c)"
  show ?thesis
  proof (cases ?e)
    case None
    then show ?thesis using r OpInsert by (cases s) (simp add: gc_insert_def refines_def)
  next
    case (Some e)
    have "gc_wf c" "content c \<subseteq>\<^sub>m snd s" using r by (simp_all add: refines_def)
    from gc_store.run_op_refines[OF iter this, of "Put k e now"]
    show ?thesis using r OpInsert Some
      by (cases s) (simp add: gc_insert_def refines_def del: gc_put_fields(7))
  qed
next
  case (OpLookup k now)
  then show ?thesis using gc_lookup_keeps[OF r] by (cases s) simp
next
  case OpFlush
  have "gc_wf c" "content c \<subseteq>\<^sub>m snd s" using r by (simp_all add: refines_def)
  from gc_store.run_op_refines[OF iter this, of Clear] show ?thesis
    using r OpFlush by (cases s) (simp add: refines_def gc_flush_def)
qed

lemma gc_run_refines:
  assumes "iteration iter" "refines w n c s"
  shows "rel_option (refines w n) (gc_run iter ops c) (sp_run w ops s)"
  using assms(2)
proof (induction ops arbitrary: c s)
  case (Cons op ops)
  have "rel_option (refines w n) (gc_op iter op c) (sp_op w op s)"
    by (rule gc_op_refines[OF assms(1) Cons.prems])
  then show ?case using Cons.IH by (cases "gc_op iter op c"; cases "sp_op w op s") auto
qed simp

lemma gc_new_refines:
  assumes "gc_new b n w = Some c" "0 < n" shows "refines w n c (1, Map.empty)"
proof -
  have "content c = Map.empty" by (rule ext) (rule gc_new_content[OF assms(1)])
  then show ?thesis using gc_new_wf[OF assms] assms(1)
    by (auto simp: refines_def gc_new_def Let_def split: if_splits)
qed

section \<open>Properties\<close>

text \<open>
  C31: for every history of insertions, lookups and flushes of a new cache, the sharded cache
  and the unbounded map of all insertions panic alike; otherwise every lookup gives what the
  unbounded map gives at that time (fresh, stale or nothing) or misses, the key inserted last
  is never missed, and no shard holds more entries than its capacity.
\<close>

theorem gc_refines_unbounded:
  assumes "iteration iter" "gc_new b n w = Some c0" "0 < n"
  shows "(gc_run iter ops c0 = None \<longleftrightarrow> sp_run w ops (1, Map.empty) = None) \<and>
    (\<forall>c. gc_run iter ops c0 = Some c \<longrightarrow> (\<exists>g m. sp_run w ops (1, Map.empty) = Some (g, m) \<and>
       snd (gc_lookup c k now) \<in> {sp_lookup m k now, Miss} \<and>
       (\<forall>s \<in> set (gc_shards c). length (sh_map s) \<le> n) \<and>
       (\<forall>c'. gc_insert iter c k rcode answer ttl secure t = Some c' \<longrightarrow>
          Some (snd (gc_lookup c' k now)) =
          map_option (\<lambda>e. sp_lookup (m(k \<mapsto> e)) k now)
            (make_entry rcode answer (clamp_ttl ttl rcode) secure t w g))))"
proof -
  have rel: "rel_option (refines w n) (gc_run iter ops c0) (sp_run w ops (1, Map.empty))"
    by (rule gc_run_refines[OF assms(1) gc_new_refines[OF assms(2,3)]])
  have main: "\<exists>g m. sp_run w ops (1, Map.empty) = Some (g, m) \<and> snd (gc_lookup c k now) \<in> {sp_lookup m k now, Miss} \<and>
      (\<forall>s \<in> set (gc_shards c). length (sh_map s) \<le> n) \<and>
      (\<forall>c'. gc_insert iter c k rcode answer ttl secure t = Some c' \<longrightarrow>
          Some (snd (gc_lookup c' k now)) =
          map_option (\<lambda>e. sp_lookup (m(k \<mapsto> e)) k now)
            (make_entry rcode answer (clamp_ttl ttl rcode) secure t w g))"
    if run: "gc_run iter ops c0 = Some c" for c
  proof -
    obtain g m where sp: "sp_run w ops (1, Map.empty) = Some (g, m)" and r: "refines w n c (g, m)"
      using rel run by (auto simp: option_rel_Some1)
    have wf: "gc_wf c" "content c \<subseteq>\<^sub>m m" "gc_max_per_shard c = n" "gc_gen c = g" "gc_stale_window c = w"
      using r by (simp_all add: refines_def)
    have small: "\<forall>s \<in> set (gc_shards c). length (sh_map s) \<le> n"
      using wf(1,3) by (auto simp: gc_wf_def shard_wf_def in_set_conv_nth)
    have found: "Some (snd (gc_lookup c' k now)) =
        map_option (\<lambda>e. sp_lookup (m(k \<mapsto> e)) k now)
          (make_entry rcode answer (clamp_ttl ttl rcode) secure t w g)"
      if ins: "gc_insert iter c k rcode answer ttl secure t = Some c'" for c'
    proof -
      obtain e where e: "make_entry rcode answer (clamp_ttl ttl rcode) secure t w g = Some e"
        and c': "c' = gc_put iter c k e t"
        using ins wf(4,5) by (auto simp: gc_insert_def split: option.splits)
      then show ?thesis using gc_put_content(1)[OF assms(1) wf(1), of k e t]
        by (simp add: gc_lookup_spec sp_lookup_def del: gc_put_fields)
    qed
    show ?thesis using sp small found sp_lookup_submap[OF wf(2), of k now] gc_lookup_spec[of c k now] by auto
  qed
  show ?thesis using main rel
    by (cases "gc_run iter ops c0"; cases "sp_run w ops (1, Map.empty)") auto
qed

theorem gc_refines_unbounded_witness:
  "\<exists>c0 c. gc_new 4 1 0 = Some c0 \<and>
     gc_run rev [OpFlush, OpLookup \<lparr>xk_owner = [0], xk_qtype = 1, xk_qclass = 1\<rparr> 3] c0 = Some c \<and>
     snd (gc_lookup c \<lparr>xk_owner = [0], xk_qtype = 1, xk_qclass = 1\<rparr> 5) = Miss"
proof -
  let ?k = "\<lparr>xk_owner = [0], xk_qtype = 1, xk_qclass = 1\<rparr>"
  obtain c0 where c0: "gc_new 4 1 0 = Some c0" by (simp add: gc_new_def)
  have "iteration rev" by (simp add: iteration_def)
  from gc_refines_unbounded[OF this c0, of "[OpFlush, OpLookup ?k 3]" ?k 5] c0
  show ?thesis by (simp add: sp_lookup_def)
qed

text \<open>
  C33: eviction from a full shard removes exactly the budget, keeps no expired entry while it
  drops one that can still be served, and among those drops the ones inserted first.
\<close>

theorem evict_expired_then_oldest:
  assumes "iteration iter" "distinct_keys m"
  shows "let m' = evict_expired_or_oldest iter m now budget in
    set m' \<subseteq> set m \<and> length m' = length m - budget \<and>
    (\<forall>k e k' e'. (k, e) \<in> set m - set m' \<and> live_at now e \<and> (k', e') \<in> set m' \<longrightarrow>
       live_at now e' \<and> e_insert_gen e \<le> e_insert_gen e')"
  using evict_spec[OF assms refl, where now = now and budget = budget] unfolding Let_def by blast

theorem evict_expired_then_oldest_witness:
  "length (evict_expired_or_oldest rev
     [(\<lparr>xk_owner = [0], xk_qtype = 1, xk_qclass = 1\<rparr>, \<lparr>e_rcode = 0, e_answer = [], e_inserted = 0, e_expires_at = 9,
        e_stale_until = 9, e_dnssec_secure = False, e_insert_gen = 1\<rparr>),
      (\<lparr>xk_owner = [0], xk_qtype = 28, xk_qclass = 1\<rparr>, \<lparr>e_rcode = 0, e_answer = [], e_inserted = 0, e_expires_at = 9,
        e_stale_until = 9, e_dnssec_secure = False, e_insert_gen = 2\<rparr>)] 5 1) = 1"
  using evict_expired_then_oldest[of rev
     "[(\<lparr>xk_owner = [0], xk_qtype = 1, xk_qclass = 1\<rparr>, \<lparr>e_rcode = 0, e_answer = [], e_inserted = 0, e_expires_at = 9,
        e_stale_until = 9, e_dnssec_secure = False, e_insert_gen = 1\<rparr>),
      (\<lparr>xk_owner = [0], xk_qtype = 28, xk_qclass = 1\<rparr>, \<lparr>e_rcode = 0, e_answer = [], e_inserted = 0, e_expires_at = 9,
        e_stale_until = 9, e_dnssec_secure = False, e_insert_gen = 2\<rparr>)]" 5 1]
  by (simp add: iteration_def Let_def)

lemma rewrite_id_twice:
  assumes "rewrite_id p a = Inr p'" shows "rewrite_id p' b = rewrite_id p b"
  using assms by (auto simp: rewrite_id_def write_u16_eq put_at_put_at split: if_splits)

text \<open>
  C32: after a response is stored, a lookup by any key with the same name, type and class,
  whatever its checking-disabled bit and route, returns the response under the new
  identifier with aged TTLs while it lives, with zero TTLs during the stale window if stale
  answers are allowed, and nothing afterwards.
\<close>

theorem cache_get_after_insert:
  assumes "iteration iter" "gc_wf (pc_global c)"
    and "cache_insert iter c key response now = Inr (Some (c', True))"
    and "ck_name key' = ck_name key" "ck_rr_type key' = ck_rr_type key" "ck_class key' = ck_class key"
  shows "\<exists>ttl header. response_ttl c response = Inr (Some ttl) \<and> header_parse response = Inr header \<and>
    (let life = clamp_ttl ttl (ucast (response_code header));
         serve = (\<lambda>stale. result_ok (rbind (rewrite_id response qid) (\<lambda>packet.
                   age_ttls packet (elapsed_secs later now) stale))) in
     snd (cache_get c' key' qid allow later) =
       (if later < now + life then serve False
        else if allow \<and> later < now + life + gc_stale_window (pc_global c) then serve True
        else None))"
proof -
  obtain ttl header packet g where ttl: "response_ttl c response = Inr (Some ttl)"
    and h: "header_parse response = Inr header" and p: "rewrite_id response 0 = Inr packet"
    and g: "gc_insert iter (pc_global c) (to_xkey key) (ucast (response_code header)) packet ttl False now = Some g"
    and c': "c' = c\<lparr>pc_global := g\<rparr>"
    using assms(3) by (auto simp: cache_insert_def result_simps split: option.splits)
  let ?life = "clamp_ttl ttl (ucast (response_code header))"
  obtain e where e: "make_entry (ucast (response_code header)) packet ?life False now
        (gc_stale_window (pc_global c)) (gc_gen (pc_global c)) = Some e"
    and put: "g = gc_put iter (pc_global c) (to_xkey key) e now"
    using g by (auto simp: gc_insert_def split: option.splits)
  have fields: "e_answer e = packet" "e_inserted e = now" "e_expires_at e = now + ?life"
      "e_stale_until e = now + ?life + gc_stale_window (pc_global c)"
    using e by (auto simp: make_entry_def instant_checked_add_def split: option.splits if_splits)
  have key: "to_xkey key' = to_xkey key" using assms(4-6) by (simp add: to_xkey_def)
  have content: "content g (to_xkey key) = Some e" unfolding put by (rule gc_put_content(1)[OF assms(1,2)])
  have look: "snd (gc_lookup g (to_xkey key) later) =
     (if later < now + ?life then Fresh e
      else if later < now + ?life + gc_stale_window (pc_global c) then Stale e else Miss)"
    using content fields by (simp add: gc_lookup_spec sp_lookup_def)
  show ?thesis
    using ttl h look rewrite_id_twice[OF p, of qid] fields
    by (intro exI[of _ ttl] exI[of _ header]) (auto simp: cache_get_def c' key Let_def split_beta)
qed

lemma instant_limit_secs: "instant_limit = 9223372036854775808000000000"
  by (simp add: instant_limit_def from_secs_def)

theorem cache_get_after_insert_witness:
  "\<exists>c c'. cache_new 16 (from_secs 3600) 0 True = Some c \<and>
     cache_insert rev c \<lparr>ck_name = [1, 0x61, 0], ck_rr_type = 1, ck_class = 1, ck_checking_disabled = False, ck_route = 0\<rparr>
       sample_response 5 = Inr (Some (c', True)) \<and>
     snd (cache_get c' \<lparr>ck_name = [1, 0x61, 0], ck_rr_type = 1, ck_class = 1, ck_checking_disabled = True, ck_route = 7\<rparr>
       9 False 6) = result_ok (rbind (rewrite_id sample_response 9) (\<lambda>packet. age_ttls packet 0 False))"
proof -
  let ?key = "\<lparr>ck_name = [1, 0x61, 0], ck_rr_type = 1, ck_class = 1, ck_checking_disabled = False, ck_route = 0\<rparr>"
  let ?key' = "\<lparr>ck_name = [1, 0x61, 0], ck_rr_type = 1, ck_class = 1, ck_checking_disabled = True, ck_route = 7\<rparr>"
  have it: "iteration rev" by (simp add: iteration_def)
  obtain g where g: "gc_new 4 1 0 = Some g" by (simp add: gc_new_def)
  define c where "c = \<lparr>pc_global = g, pc_capacity = 16, pc_maximum_ttl = from_secs 3600, pc_store_negative = True\<rparr>"
  have c: "cache_new 16 (from_secs 3600) 0 True = Some c" using g by (simp add: cache_new_def c_def)
  have wf: "gc_wf (pc_global c)" using gc_new_wf[OF g] by (simp add: c_def)
  have "case header_parse sample_response of
      Inr h \<Rightarrow> is_response h \<and> \<not> truncated h \<and> response_code h = 0 \<and> answer_count h = 1 | _ \<Rightarrow> False" by code_simp
  then obtain h where h: "header_parse sample_response = Inr h" "is_response h" "\<not> truncated h"
    "response_code h = 0" "answer_count h = 1" by (auto split: sum.splits)
  have "cache_lifetime sample_response = Inr (Some 60)" by code_simp
  then have ttl: "response_ttl c sample_response = Inr (Some (from_secs 60))"
    using h by (simp add: response_ttl_def c_def from_secs_def)
  have "is_ok (rewrite_id sample_response 0)" by code_simp
  then obtain p where p: "rewrite_id sample_response 0 = Inr p" by (auto simp: is_ok_iff)
  have life: "clamp_ttl (from_secs 60) 0 = 60000000000" by (simp add: clamp_ttl_def from_secs_def)
  have "gc_stale_window g = 0" using g by (auto simp: gc_new_def Let_def)
  then obtain g' where g': "gc_insert rev g (to_xkey ?key) 0 p (from_secs 60) False 5 = Some g'"
    by (auto simp: gc_insert_def life make_entry_def instant_checked_add_def instant_limit_secs)
  have ins: "cache_insert rev c ?key sample_response 5 = Inr (Some (c\<lparr>pc_global := g'\<rparr>, True))"
    using ttl h p g' by (simp add: cache_insert_def c_def)
  have "elapsed_secs 6 5 = 0" by (simp add: elapsed_secs_def try_from_nat_def)
  then have "snd (cache_get (c\<lparr>pc_global := g'\<rparr>) ?key' 9 False 6) =
      result_ok (rbind (rewrite_id sample_response 9) (\<lambda>packet. age_ttls packet 0 False))"
    using cache_get_after_insert[OF it wf ins, of ?key' 9 6 False] h ttl life
    by (simp add: Let_def from_secs_def)
  then show ?thesis using c ins by blast
qed

end
