(* ===== verification/Net_Parse.thy ===== *)
theory Net_Parse
  imports Net_Types Rust_Parse
begin

text \<open>
  Addresses as text: the grammar that \<open>parse::<IpAddr>()\<close> and \<open>parse::<SocketAddr>()\<close> of the Rust
  standard library accept. A reader consumes a prefix of its input or leaves the input
  unchanged and fails; a whole string is accepted when nothing is left over.
\<close>

section \<open>Readers\<close>

type_synonym 'a reader = "string \<Rightarrow> ('a \<times> string) option"

definition read_given_char :: "char \<Rightarrow> unit reader" where
  "read_given_char c s = (case s of [] \<Rightarrow> None | x # xs \<Rightarrow> if x = c then Some ((), xs) else None)"

definition read_separator :: "char \<Rightarrow> nat \<Rightarrow> 'a reader \<Rightarrow> 'a reader" where
  "read_separator sep index inner s =
     (if index > 0 then Option.bind (read_given_char sep s) (\<lambda>(_, s). inner s) else inner s)"

text \<open>The digits at the front: their value, their number and the rest.\<close>

fun read_digits :: "nat \<Rightarrow> nat \<Rightarrow> nat \<Rightarrow> string \<Rightarrow> nat \<times> nat \<times> string" where
  "read_digits radix acc n [] = (acc, n, [])"
| "read_digits radix acc n (c # cs) =
     (case digit_value radix c of
        None \<Rightarrow> (acc, n, c # cs)
      | Some d \<Rightarrow> read_digits radix (acc * radix + d) (n + 1) cs)"

definition read_number :: "nat \<Rightarrow> nat option \<Rightarrow> bool \<Rightarrow> 'a::len word reader" where
  "read_number radix max_digits allow_zero_prefix s =
     (let has_leading_zero = (s \<noteq> [] \<and> hd s = CHR ''0'');
          (v, digit_count, rest) = read_digits radix 0 0 s in
      if digit_count = 0 then None
      else if (case max_digits of None \<Rightarrow> False | Some m \<Rightarrow> digit_count > m) then None
      else if \<not> allow_zero_prefix \<and> has_leading_zero \<and> digit_count > 1 then None
      else map_option (\<lambda>w. (w, rest)) (try_from_nat v))"

fun read_octets :: "nat \<Rightarrow> nat \<Rightarrow> u8 list reader" where
  "read_octets 0 i s = Some ([], s)"
| "read_octets (Suc n) i s =
     Option.bind (read_separator CHR ''.'' i (read_number 10 (Some 3) False) s) (\<lambda>(b, s).
     Option.bind (read_octets n (i + 1) s) (\<lambda>(bs, s).
     Some (b # bs, s)))"

definition read_ipv4_addr :: "ipv4 reader" where
  "read_ipv4_addr s =
     Option.bind (read_octets 4 0 s) (\<lambda>(bs, s).
     Some (ipv4_new (bs ! 0) (bs ! 1) (bs ! 2) (bs ! 3), s))"

text \<open>\<open>read_groups limit i s\<close>: the groups read from index \<open>i\<close> on and whether they end in IPv4.\<close>

function read_groups :: "nat \<Rightarrow> nat \<Rightarrow> string \<Rightarrow> u16 list \<times> bool \<times> string" where
  "read_groups limit i s =
     (if i < limit then
        case (if i < limit - 1 then read_separator CHR '':'' i read_ipv4_addr s else None) of
          Some (v4, rest) \<Rightarrow>
            (let o4 = v4_octets v4 in
             ([u16_from_be (o4 ! 0) (o4 ! 1), u16_from_be (o4 ! 2) (o4 ! 3)], True, rest))
        | None \<Rightarrow>
            (case read_separator CHR '':'' i (read_number 16 (Some 4) True) s of
               None \<Rightarrow> ([], False, s)
             | Some (g, rest) \<Rightarrow>
                 (let (gs, v4, rest) = read_groups limit (i + 1) rest in (g # gs, v4, rest)))
      else ([], False, s))"
  by pat_completeness auto
termination by (relation "measure (\<lambda>(limit, i, s). limit - i)") auto

declare read_groups.simps [simp del]

definition ipv6_new :: "u16 list \<Rightarrow> ipv6" where
  "ipv6_new gs = fold (\<lambda>g acc. push_bit 16 acc OR ucast g) gs 0"

definition read_ipv6_addr :: "ipv6 reader" where
  "read_ipv6_addr s =
     (let (head, head_ipv4, s) = read_groups 8 0 s in
      if length head = 8 then Some (ipv6_new head, s)
      else if head_ipv4 then None
      else
        Option.bind (read_given_char CHR '':'' s) (\<lambda>(_, s).
        Option.bind (read_given_char CHR '':'' s) (\<lambda>(_, s).
        let (tail, _, s) = read_groups (8 - (length head + 1)) 0 s in
        Some (ipv6_new (head @ replicate (8 - length head - length tail) 0 @ tail), s))))"

definition read_ip_addr :: "ip_addr reader" where
  "read_ip_addr s =
     (case read_ipv4_addr s of
        Some (a, rest) \<Rightarrow> Some (V4 a, rest)
      | None \<Rightarrow> map_option (\<lambda>(a, rest). (V6 a, rest)) (read_ipv6_addr s))"

definition read_port :: "u16 reader" where
  "read_port s = Option.bind (read_given_char CHR '':'' s) (\<lambda>(_, s). read_number 10 None True s)"

definition read_scope_id :: "u32 reader" where
  "read_scope_id s = Option.bind (read_given_char CHR ''%'' s) (\<lambda>(_, s). read_number 10 None True s)"

definition read_socket_addr_v4 :: "socket_addr reader" where
  "read_socket_addr_v4 s =
     Option.bind (read_ipv4_addr s) (\<lambda>(ip, s).
     Option.bind (read_port s) (\<lambda>(port, s).
     Some (SocketV4 ip port, s)))"

definition read_socket_addr_v6 :: "socket_addr reader" where
  "read_socket_addr_v6 s =
     Option.bind (read_given_char CHR ''['' s) (\<lambda>(_, s).
     Option.bind (read_ipv6_addr s) (\<lambda>(ip, s).
     let (scope, s) = (case read_scope_id s of None \<Rightarrow> (0, s) | Some r \<Rightarrow> r) in
     Option.bind (read_given_char CHR '']'' s) (\<lambda>(_, s).
     Option.bind (read_port s) (\<lambda>(port, s).
     Some (SocketV6 ip port 0 scope, s)))))"

definition read_socket_addr :: "socket_addr reader" where
  "read_socket_addr s =
     (case read_socket_addr_v4 s of Some r \<Rightarrow> Some r | None \<Rightarrow> read_socket_addr_v6 s)"

definition parse_all :: "'a reader \<Rightarrow> string \<Rightarrow> 'a option" where
  "parse_all r s = (case r s of Some (a, []) \<Rightarrow> Some a | _ \<Rightarrow> None)"

abbreviation parse_ip_addr :: "string \<Rightarrow> ip_addr option" where
  "parse_ip_addr \<equiv> parse_all read_ip_addr"

abbreviation parse_socket_addr :: "string \<Rightarrow> socket_addr option" where
  "parse_socket_addr \<equiv> parse_all read_socket_addr"

definition show_ipv4 :: "ipv4 \<Rightarrow> string" where
  "show_ipv4 a = join_with ''.'' (map (\<lambda>b. show_dec (unat b)) (v4_octets a))"

section \<open>IPv4 text is read back\<close>

lemma read_digits_append:
  "parse_digits radix acc ds = Some v \<Longrightarrow>
   read_digits radix acc n (ds @ s) = read_digits radix v (n + length ds) s"
  by (induction ds arbitrary: acc n) (auto split: option.splits)

lemma read_digits_stop:
  "s = [] \<or> digit_value radix (hd s) = None \<Longrightarrow> read_digits radix acc n s = (acc, n, s)"
  by (cases s) (auto split: option.splits)

lemma show_dec_step: "10 \<le> n \<Longrightarrow> show_dec n = show_dec (n div 10) @ [hex_char (n mod 10)]"
  by (rule show_radix_big) simp_all

lemma show_dec_length: "n < 1000 \<Longrightarrow> length (show_dec n) \<le> 3"
proof -
  assume n: "n < 1000"
  have one: "length (show_dec m) = 1" if "m < 10" for m using show_radix_small[OF that] by simp
  have two: "length (show_dec m) \<le> 2" if "m < 100" for m
  proof (cases "m < 10")
    case False
    then have "length (show_dec m) = length (show_dec (m div 10)) + 1" using show_dec_step[of m] by simp
    then show ?thesis using one[of "m div 10"] that by simp
  qed (use one[of m] in simp)
  show ?thesis
  proof (cases "n < 10")
    case False
    then have "length (show_dec n) = length (show_dec (n div 10)) + 1" using show_dec_step[of n] by simp
    then show ?thesis using two[of "n div 10"] n by simp
  qed (use one[of n] in simp)
qed

lemma show_dec_leading: "hd (show_dec n) = CHR ''0'' \<Longrightarrow> n = 0"
proof (induction n rule: less_induct)
  case (less n)
  show ?case
  proof (cases "n < 10")
    case True
    then have "hex_char n = CHR ''0''" using less.prems show_radix_small[OF True] by simp
    then have "(of_char (hex_char n) :: nat) = 48" by simp
    then show ?thesis using of_hex_char[of n] True by simp
  next
    case False
    then have "hd (show_dec (n div 10)) = CHR ''0''" using less.prems show_dec_step[of n] by simp
    then have "n div 10 = 0" using less.IH[of "n div 10"] False by simp
    then show ?thesis using False by simp
  qed
qed

lemma read_number_show:
  assumes "n < 1000" "n < 2 ^ LENGTH('a::len)" "s = [] \<or> digit_value 10 (hd s) = None"
  shows "read_number 10 (Some 3) False (show_dec n @ s) = Some (of_nat n :: 'a word, s)"
proof -
  have d: "read_digits 10 0 0 (show_dec n @ s) = (n, length (show_dec n), s)"
    using read_digits_append[OF parse_digits_show[of 10 n], of 0 s] read_digits_stop[OF assms(3)] by simp
  have "hd (show_dec n @ s) = CHR ''0'' \<Longrightarrow> length (show_dec n) = 1"
    using show_dec_leading[of n] by (simp add: show_radix_small)
  then show ?thesis
    using d show_dec_length[OF assms(1)] assms(2)
    by (auto simp: read_number_def try_from_nat_def Let_def)
qed

lemma digit_value_dot: "digit_value 10 CHR ''.'' = None"
  by code_simp

lemma read_octet_first:
  "s = [] \<or> hd s = CHR ''.'' \<Longrightarrow> read_number 10 (Some 3) False (show_dec (unat (b::u8)) @ s) = Some (b, s)"
proof -
  assume stop: "s = [] \<or> hd s = CHR ''.''"
  have "unat b < 1000" "unat b < 2 ^ LENGTH(8)" using unat_lt_256[of b] by (linarith, simp)
  moreover have "s = [] \<or> digit_value 10 (hd s) = None" using stop digit_value_dot by metis
  ultimately show ?thesis using read_number_show[of "unat b" s, where 'a = 8] by simp
qed

lemma read_ipv4_addr_show: "read_ipv4_addr (show_ipv4 a) = Some (a, [])"
proof -
  obtain w x y z where o4: "v4_octets a = [w, x, y, z]"
    using length_v4_octets[of a] by (auto simp: numeral_eq_Suc length_Suc_conv simp del: length_v4_octets)
  have shown: "show_ipv4 a = show_dec (unat w) @ CHR ''.'' # show_dec (unat x) @ CHR ''.'' # show_dec (unat y) @
      CHR ''.'' # show_dec (unat z) @ []"
    by (simp add: show_ipv4_def o4)
  have four: "(4::nat) = Suc (Suc (Suc (Suc 0)))" by simp
  have "read_octets 4 0 (show_ipv4 a) = Some ([w, x, y, z], [])"
    unfolding shown four
    by (simp add: read_separator_def read_octet_first read_given_char_def del: append_Nil2)
  then show ?thesis using ipv4_new_octets[OF o4] by (simp add: read_ipv4_addr_def)
qed

lemma parse_ip_addr_show_ipv4: "parse_ip_addr (show_ipv4 a) = Some (V4 a)"
  by (simp add: parse_all_def read_ip_addr_def read_ipv4_addr_show)

lemma show_ipv4_chars: "c \<in> set (show_ipv4 a) \<Longrightarrow> c = CHR ''.'' \<or> (\<exists>d < 10. c = hex_char d)"
proof -
  assume c: "c \<in> set (show_ipv4 a)"
  obtain w x y z where "v4_octets a = [w, x, y, z]"
    using length_v4_octets[of a] by (auto simp: numeral_eq_Suc length_Suc_conv simp del: length_v4_octets)
  then show ?thesis using c show_radix_chars[of 10 c] by (auto simp: show_ipv4_def)
qed

lemma show_ipv4_not_Nil: "show_ipv4 a \<noteq> []" "hd (show_ipv4 a) \<noteq> CHR ''[''"
proof -
  obtain w x y z where o4: "v4_octets a = [w, x, y, z]"
    using length_v4_octets[of a] by (auto simp: numeral_eq_Suc length_Suc_conv simp del: length_v4_octets)
  then show "show_ipv4 a \<noteq> []" by (simp add: show_ipv4_def)
  then have "hd (show_ipv4 a) \<in> set (show_ipv4 a)" by simp
  from show_ipv4_chars[OF this] show "hd (show_ipv4 a) \<noteq> CHR ''[''"
  proof
    assume "\<exists>d < 10. hd (show_ipv4 a) = hex_char d"
    then obtain d where d: "d < 10" "hd (show_ipv4 a) = hex_char d" by blast
    have "(of_char (hex_char d) :: nat) \<noteq> of_char CHR ''[''" using of_hex_char[of d] d(1) by simp
    then show ?thesis unfolding d(2) by metis
  qed simp
qed

lemma parse_socket_addr_show_ipv4: "parse_socket_addr (show_ipv4 a) = None"
proof -
  have "read_socket_addr_v4 (show_ipv4 a) = None"
    by (simp add: read_socket_addr_v4_def read_ipv4_addr_show read_port_def read_given_char_def)
  moreover have "read_socket_addr_v6 (show_ipv4 a) = None"
    using show_ipv4_not_Nil[of a] by (cases "show_ipv4 a") (simp_all add: read_socket_addr_v6_def read_given_char_def)
  ultimately show ?thesis by (simp add: parse_all_def read_socket_addr_def)
qed

end
