(* ===== verification/Config_Types.thy ===== *)
theory Config_Types
  imports Net_Parse
begin

text \<open>
  The types of \<open>src/src/config_types.rs\<close> that the rest of the daemon shares: the modes with
  their textual forms, server specifications, listeners and routing domains.
\<close>

text \<open>An I/O error is represented by its text.\<close>

datatype config_error =
    ConfigIo string
  | InvalidServer string
  | InvalidValue string
  | ConfigLine nat string

fun config_error_text :: "config_error \<Rightarrow> string" where
  "config_error_text (ConfigIo error) = error"
| "config_error_text (InvalidServer server) = ''invalid DNS server: '' @ server"
| "config_error_text (InvalidValue value) = ''invalid value: '' @ value"
| "config_error_text (ConfigLine line message) = ''line '' @ show_dec line @ '': '' @ message"

section \<open>Modes\<close>

definition is_no :: "string \<Rightarrow> bool" where
  "is_no s \<longleftrightarrow> s \<in> {''no'', ''false'', ''off'', ''0''}"

definition is_yes :: "string \<Rightarrow> bool" where
  "is_yes s \<longleftrightarrow> s \<in> {''yes'', ''true'', ''on'', ''1''}"

datatype support_mode = SupportNo | SupportResolve | SupportYes

definition support_mode_parse :: "string \<Rightarrow> config_error + support_mode" where
  "support_mode_parse value =
     (let v = to_ascii_lowercase (trim value) in
      if is_no v then Inr SupportNo
      else if v = ''resolve'' then Inr SupportResolve
      else if is_yes v then Inr SupportYes
      else Inl (InvalidValue v))"

datatype validation_mode = ValidationNo | AllowDowngrade | ValidationYes

definition validation_mode_parse :: "string \<Rightarrow> config_error + validation_mode" where
  "validation_mode_parse value =
     (let v = to_ascii_lowercase (trim value) in
      if is_no v then Inr ValidationNo
      else if v = ''allow-downgrade'' then Inr AllowDowngrade
      else if is_yes v then Inr ValidationYes
      else Inl (InvalidValue v))"

datatype tls_mode = TlsNo | TlsOpportunistic | TlsYes

definition tls_mode_parse :: "string \<Rightarrow> config_error + tls_mode" where
  "tls_mode_parse value =
     (let v = to_ascii_lowercase (trim value) in
      if is_no v then Inr TlsNo
      else if v = ''opportunistic'' then Inr TlsOpportunistic
      else if is_yes v then Inr TlsYes
      else Inl (InvalidValue v))"

section \<open>Servers and listeners\<close>

record dns_server_spec =
  dss_address :: socket_addr
  dss_interface :: "string option"
  dss_server_name :: "string option"

datatype stub_listener_mode = StubNo | StubUdp | StubTcp | StubYes

definition stub_listener_mode_parse :: "string \<Rightarrow> config_error + stub_listener_mode" where
  "stub_listener_mode_parse value =
     (let v = to_ascii_lowercase (trim value) in
      if is_no v then Inr StubNo
      else if v = ''udp'' then Inr StubUdp
      else if v = ''tcp'' then Inr StubTcp
      else if is_yes v then Inr StubYes
      else Inl (InvalidValue v))"

definition udp_enabled :: "stub_listener_mode \<Rightarrow> bool" where
  "udp_enabled m \<longleftrightarrow> m = StubUdp \<or> m = StubYes"

definition tcp_enabled :: "stub_listener_mode \<Rightarrow> bool" where
  "tcp_enabled m \<longleftrightarrow> m = StubTcp \<or> m = StubYes"

fun stub_listener_mode_str :: "stub_listener_mode \<Rightarrow> string" where
  "stub_listener_mode_str StubNo = ''no''"
| "stub_listener_mode_str StubUdp = ''udp''"
| "stub_listener_mode_str StubTcp = ''tcp''"
| "stub_listener_mode_str StubYes = ''yes''"

record stub_listener_extra =
  sle_address :: socket_addr
  sle_mode :: stub_listener_mode

text \<open>An address with or without a port, 53 by default.\<close>

definition parse_address :: "string \<Rightarrow> socket_addr option" where
  "parse_address s =
     (case parse_socket_addr s of
        Some a \<Rightarrow> Some a
      | None \<Rightarrow> map_option (\<lambda>ip. socket_new ip 53) (parse_ip_addr s))"

definition stub_listener_extra_parse :: "string \<Rightarrow> config_error + stub_listener_extra" where
  "stub_listener_extra_parse value =
     (let value = trim value;
          (mode, address) =
            (case strip_prefix ''udp:'' value of
               Some address \<Rightarrow> (StubUdp, address)
             | None \<Rightarrow> (case strip_prefix ''tcp:'' value of
                 Some address \<Rightarrow> (StubTcp, address)
               | None \<Rightarrow> (StubYes, value))) in
      if address = [] then Inl (InvalidValue value)
      else case parse_address address of
             Some a \<Rightarrow> Inr \<lparr>sle_address = a, sle_mode = mode\<rparr>
           | None \<Rightarrow> Inl (InvalidValue value))"

section \<open>Routing domains\<close>

record domain =
  dom_name :: string
  dom_route_only :: bool

section \<open>Round trip of the listener mode\<close>

lemma stub_listener_mode_roundtrip: "stub_listener_mode_parse (stub_listener_mode_str m) = Inr m"
proof -
  have "list_all (\<lambda>m. stub_listener_mode_parse (stub_listener_mode_str m) = Inr m)
      [StubNo, StubUdp, StubTcp, StubYes]" by code_simp
  then show ?thesis by (cases m) simp_all
qed

end
