(* ===== verification/Routing.thy ===== *)
theory Routing
  imports Config_Types "HOL-Library.Sublist"
begin

text \<open>
  The routing table of \<open>src/src/routing.rs\<close>: the state of every network link, the setters that
  the bus interfaces call, the synchronisation with the kernel's links and the selection of
  the scopes a name is sent to. An interface index is an integer; the \<open>BTreeMap\<close> of links is
  a list sorted by index. A setter returns the table also when it fails, because the source
  may have created the link before it finds the error.
\<close>

section \<open>Ordered maps\<close>

type_synonym 'v btree = "(int \<times> 'v) list"

fun bt_put :: "int \<Rightarrow> 'v \<Rightarrow> 'v btree \<Rightarrow> 'v btree" where
  "bt_put k v [] = [(k, v)]"
| "bt_put k v ((k', v') # m) =
     (if k < k' then (k, v) # (k', v') # m
      else if k = k' then (k, v) # m
      else (k', v') # bt_put k v m)"

abbreviation bt_sorted :: "'v btree \<Rightarrow> bool" where
  "bt_sorted m \<equiv> sorted_wrt (<) (map fst m)"

lemma map_of_bt_put [simp]: "bt_sorted m \<Longrightarrow> map_of (bt_put k v m) = (map_of m)(k \<mapsto> v)"
  by (induction m) (auto simp: fun_eq_iff)

lemma set_bt_put: "set (map fst (bt_put k v m)) = insert k (set (map fst m))"
  by (induction k v m rule: bt_put.induct) (simp_all add: insert_commute)

lemma bt_sorted_put [simp]: "bt_sorted m \<Longrightarrow> bt_sorted (bt_put k v m)"
proof (induction m)
  case (Cons p m)
  obtain k' v' where p: "p = (k', v')" by fastforce
  have keys: "\<forall>x \<in> set (map fst m). k' < x" "bt_sorted m" using Cons.prems p by auto
  show ?case using Cons.IH[OF keys(2)] keys set_bt_put[of k v m] p by auto
qed simp

lemma bt_sorted_distinct: "bt_sorted m \<Longrightarrow> distinct (map fst m)"
  by (simp add: strict_sorted_iff)

lemma bt_in_set: "bt_sorted m \<Longrightarrow> (k, v) \<in> set m \<longleftrightarrow> map_of m k = Some v"
  by (meson bt_sorted_distinct map_of_SomeD map_of_is_SomeI)

lemma bt_sorted_filter [simp]: "bt_sorted m \<Longrightarrow> bt_sorted (filter P m)"
  by (induction m) (auto simp: sorted_wrt_filter)

lemma bt_put_values: "bt_sorted m \<Longrightarrow> (k', v') \<in> set (bt_put k v m) \<longleftrightarrow> (if k' = k then v' = v else (k', v') \<in> set m)"
  by (simp add: bt_in_set eq_commute)

section \<open>Kernel links\<close>

definition IFF_UP :: u32 where "IFF_UP = 0x0001"
definition IFF_LOOPBACK :: u32 where "IFF_LOOPBACK = 0x0008"
definition IFF_RUNNING :: u32 where "IFF_RUNNING = 0x0040"
definition IFF_LOWER_UP :: u32 where "IFF_LOWER_UP = 0x10000"
definition IFF_DORMANT :: u32 where "IFF_DORMANT = 0x20000"
definition IF_OPER_UNKNOWN :: u8 where "IF_OPER_UNKNOWN = 0"
definition IF_OPER_UP :: u8 where "IF_OPER_UP = 6"

datatype scope_kind = ScopeGlobal | ScopeLink int | ScopeFallback

record route_scope =
  scope_kind :: scope_kind
  scope_servers :: "socket_addr list"

record kernel_link =
  kl_ifindex :: int
  kl_ifname :: string
  kl_flags :: u32
  kl_mtu :: u32
  kl_operstate :: u8
  kl_ipv4_global :: bool
  kl_ipv4_link_local :: bool
  kl_ipv6_global :: bool
  kl_ipv6_link_local :: bool

definition has_carrier :: "kernel_link \<Rightarrow> bool" where
  "has_carrier k =
     (if kl_operstate k = IF_OPER_UP then True
      else if kl_operstate k \<noteq> IF_OPER_UNKNOWN then False
      else kl_flags k AND (IFF_LOWER_UP OR IFF_RUNNING) = (IFF_LOWER_UP OR IFF_RUNNING)
           \<and> kl_flags k AND IFF_DORMANT = 0)"

definition ipv4_is_link_local :: "ipv4 \<Rightarrow> bool" where
  "ipv4_is_link_local a \<longleftrightarrow> v4_octets a ! 0 = 169 \<and> v4_octets a ! 1 = 254"

definition ipv6_is_link_local :: "ipv6 \<Rightarrow> bool" where
  "ipv6_is_link_local a \<longleftrightarrow> v6_segment0 a AND 0xffc0 = 0xfe80"

definition relevant_unicast :: "kernel_link \<Rightarrow> socket_addr list \<Rightarrow> bool" where
  "relevant_unicast k servers =
     (if kl_flags k AND (IFF_LOOPBACK OR IFF_DORMANT) \<noteq> 0
         \<or> kl_flags k AND (IFF_UP OR IFF_LOWER_UP) \<noteq> (IFF_UP OR IFF_LOWER_UP)
         \<or> \<not> has_carrier k
      then False
      else
        let allow_ipv4_link_local =
              list_ex (\<lambda>s. case sock_ip s of V4 a \<Rightarrow> ipv4_is_link_local a | V6 a \<Rightarrow> False) servers;
            allow_ipv6_link_local =
              list_ex (\<lambda>s. case sock_ip s of V4 a \<Rightarrow> False | V6 a \<Rightarrow> ipv6_is_link_local a) servers in
        kl_ipv4_global k \<or> kl_ipv6_global k
        \<or> (allow_ipv4_link_local \<and> kl_ipv4_link_local k)
        \<or> (allow_ipv6_link_local \<and> kl_ipv6_link_local k))"

section \<open>Links\<close>

datatype link_error =
    InvalidIfindex int | InvalidDomain string | NoSuchLink int | ManagedLink int

record link_state =
  ls_ifindex :: int
  ls_dns_servers :: "socket_addr list"
  ls_domains :: "domain list"
  ls_default_route :: "bool option"
  ls_llmnr :: support_mode
  ls_multicast_dns :: support_mode
  ls_dns_over_tls :: tls_mode
  ls_dnssec :: validation_mode
  ls_negative_trust_anchors :: "string list"
  ls_kernel :: "kernel_link option"

definition validate_ifindex :: "int \<Rightarrow> link_error + unit" where
  "validate_ifindex ifindex = (if ifindex \<le> 0 then Inl (InvalidIfindex ifindex) else Inr ())"

definition link_default :: "int \<Rightarrow> link_state" where
  "link_default ifindex = \<lparr>ls_ifindex = ifindex, ls_dns_servers = [], ls_domains = [],
     ls_default_route = None, ls_llmnr = SupportYes, ls_multicast_dns = SupportYes,
     ls_dns_over_tls = TlsNo, ls_dnssec = AllowDowngrade, ls_negative_trust_anchors = [],
     ls_kernel = None\<rparr>"

definition link_new :: "int \<Rightarrow> link_error + link_state" where
  "link_new ifindex = rbind (validate_ifindex ifindex) (\<lambda>_. Inr (link_default ifindex))"

definition effective_default_route :: "link_state \<Rightarrow> bool" where
  "effective_default_route l =
     (case ls_default_route l of
        Some b \<Rightarrow> b
      | None \<Rightarrow> \<not> list_ex (\<lambda>d. dom_route_only d \<and> dom_name d \<noteq> ''.'') (ls_domains l))"

definition kernel_relevant_unicast :: "link_state \<Rightarrow> bool" where
  "kernel_relevant_unicast l =
     (case ls_kernel l of None \<Rightarrow> True | Some k \<Rightarrow> relevant_unicast k (ls_dns_servers l))"

record routing_table =
  rt_links :: "link_state btree"
  rt_kernel_synchronized :: bool

definition routing_default :: routing_table where
  "routing_default = \<lparr>rt_links = [], rt_kernel_synchronized = False\<rparr>"

definition rt_link_list :: "routing_table \<Rightarrow> link_state list" where
  "rt_link_list t = map snd (rt_links t)"

definition rt_link :: "routing_table \<Rightarrow> int \<Rightarrow> link_state option" where
  "rt_link t ifindex = map_of (rt_links t) ifindex"

section \<open>Names\<close>

definition normalize_name :: "string \<Rightarrow> link_error + string" where
  "normalize_name name =
     (let name = trim_end_matches CHR ''.'' (trim name) in
      if name = [] \<or> name = ''~'' then Inr ''.''
      else
        let name = (case strip_prefix ''~'' name of Some n \<Rightarrow> n | None \<Rightarrow> name) in
        if name = [] \<or> \<not> is_ascii name \<or> length name > 253
           \<or> list_ex (\<lambda>label. label = [] \<or> length label > 63) (split_on CHR ''.'' name)
        then Inl (InvalidDomain name)
        else Inr (to_ascii_lowercase name))"

definition normalize_domain :: "domain \<Rightarrow> link_error + domain" where
  "normalize_domain d =
     rbind (normalize_name (dom_name d)) (\<lambda>name.
     Inr \<lparr>dom_name = name, dom_route_only = dom_route_only d\<rparr>)"

definition normalize_server :: "int \<Rightarrow> socket_addr \<Rightarrow> socket_addr" where
  "normalize_server ifindex server =
     (case server of
        SocketV4 ip port \<Rightarrow> server
      | SocketV6 ip port flow scope \<Rightarrow>
          if scope \<noteq> 0 \<or> v6_segment0 ip AND 0xffc0 \<noteq> 0xfe80 then server
          else if 0 \<le> ifindex then SocketV6 ip port flow (of_int ifindex)
          else server)"

definition domain_match_labels :: "string \<Rightarrow> string \<Rightarrow> nat option" where
  "domain_match_labels name dname =
     (if dname = ''.'' then Some 0
      else if eq_ignore_ascii_case name dname
              \<or> (case strip_suffix dname name of None \<Rightarrow> False | Some front \<Rightarrow> ends_with_char front CHR ''.'')
      then Some (length (split_on CHR ''.'' dname))
      else None)"

fun max_option :: "nat list \<Rightarrow> nat option" where
  "max_option [] = None"
| "max_option (x # xs) = (case max_option xs of None \<Rightarrow> Some x | Some y \<Rightarrow> Some (max x y))"

definition best_domain_match :: "string \<Rightarrow> domain list \<Rightarrow> nat option" where
  "best_domain_match name domains =
     max_option (List.map_filter (\<lambda>d. domain_match_labels name (dom_name d)) domains)"

section \<open>Setters\<close>

fun collect_normalized :: "('a \<Rightarrow> 'e + 'b) \<Rightarrow> 'a list \<Rightarrow> 'b list \<Rightarrow> 'e + 'b list" where
  "collect_normalized norm [] out = Inr out"
| "collect_normalized norm (x # xs) out =
     rbind (norm x) (\<lambda>y. collect_normalized norm xs (push_new out y))"

definition link_mut :: "routing_table \<Rightarrow> int \<Rightarrow> link_error + routing_table \<times> link_state" where
  "link_mut t ifindex =
     rbind (validate_ifindex ifindex) (\<lambda>_.
     case map_of (rt_links t) ifindex of
       Some l \<Rightarrow> Inr (t, l)
     | None \<Rightarrow>
         if rt_kernel_synchronized t then Inl (NoSuchLink ifindex)
         else rbind (link_new ifindex) (\<lambda>l. Inr (t\<lparr>rt_links := bt_put ifindex l (rt_links t)\<rparr>, l)))"

text \<open>
  \<open>with_link\<close> runs the rest of a setter on the mutable link: it sees the link and gives back
  the link it leaves behind and its result.
\<close>

definition with_link ::
  "routing_table \<Rightarrow> int \<Rightarrow> (link_state \<Rightarrow> link_state \<times> (link_error + bool))
   \<Rightarrow> routing_table \<times> (link_error + bool)" where
  "with_link t ifindex f =
     (case link_mut t ifindex of
        Inl e \<Rightarrow> (t, Inl e)
      | Inr (t, l) \<Rightarrow> (let (l, r) = f l in (t\<lparr>rt_links := bt_put ifindex l (rt_links t)\<rparr>, r)))"

definition set_dns :: "routing_table \<Rightarrow> int \<Rightarrow> socket_addr list \<Rightarrow> routing_table \<times> (link_error + bool)" where
  "set_dns t ifindex servers =
     with_link t ifindex (\<lambda>l.
       let normalized = push_all_new [] (map (normalize_server ifindex) servers) in
       if ls_dns_servers l = normalized then (l, Inr False)
       else (l\<lparr>ls_dns_servers := normalized\<rparr>, Inr True))"

definition set_domains :: "routing_table \<Rightarrow> int \<Rightarrow> domain list \<Rightarrow> routing_table \<times> (link_error + bool)" where
  "set_domains t ifindex domains =
     with_link t ifindex (\<lambda>l.
       case collect_normalized normalize_domain domains [] of
         Inl e \<Rightarrow> (l, Inl e)
       | Inr normalized \<Rightarrow>
           if ls_domains l = normalized then (l, Inr False)
           else (l\<lparr>ls_domains := normalized\<rparr>, Inr True))"

definition set_default_route :: "routing_table \<Rightarrow> int \<Rightarrow> bool option \<Rightarrow> routing_table \<times> (link_error + bool)" where
  "set_default_route t ifindex default_route =
     with_link t ifindex (\<lambda>l.
       if ls_default_route l = default_route then (l, Inr False)
       else (l\<lparr>ls_default_route := default_route\<rparr>, Inr True))"

definition set_llmnr :: "routing_table \<Rightarrow> int \<Rightarrow> support_mode \<Rightarrow> routing_table \<times> (link_error + bool)" where
  "set_llmnr t ifindex mode =
     with_link t ifindex (\<lambda>l.
       if ls_llmnr l = mode then (l, Inr False) else (l\<lparr>ls_llmnr := mode\<rparr>, Inr True))"

definition set_multicast_dns :: "routing_table \<Rightarrow> int \<Rightarrow> support_mode \<Rightarrow> routing_table \<times> (link_error + bool)" where
  "set_multicast_dns t ifindex mode =
     with_link t ifindex (\<lambda>l.
       if ls_multicast_dns l = mode then (l, Inr False) else (l\<lparr>ls_multicast_dns := mode\<rparr>, Inr True))"

definition set_dns_over_tls :: "routing_table \<Rightarrow> int \<Rightarrow> tls_mode \<Rightarrow> routing_table \<times> (link_error + bool)" where
  "set_dns_over_tls t ifindex mode =
     with_link t ifindex (\<lambda>l.
       if ls_dns_over_tls l = mode then (l, Inr False) else (l\<lparr>ls_dns_over_tls := mode\<rparr>, Inr True))"

definition set_dnssec :: "routing_table \<Rightarrow> int \<Rightarrow> validation_mode \<Rightarrow> routing_table \<times> (link_error + bool)" where
  "set_dnssec t ifindex mode =
     with_link t ifindex (\<lambda>l.
       if ls_dnssec l = mode then (l, Inr False) else (l\<lparr>ls_dnssec := mode\<rparr>, Inr True))"

definition set_negative_trust_anchors ::
  "routing_table \<Rightarrow> int \<Rightarrow> string list \<Rightarrow> routing_table \<times> (link_error + bool)" where
  "set_negative_trust_anchors t ifindex anchors =
     with_link t ifindex (\<lambda>l.
       case collect_normalized normalize_name anchors [] of
         Inl e \<Rightarrow> (l, Inl e)
       | Inr normalized \<Rightarrow>
           if ls_negative_trust_anchors l = normalized then (l, Inr False)
           else (l\<lparr>ls_negative_trust_anchors := normalized\<rparr>, Inr True))"

section \<open>Synchronisation with the kernel\<close>

text \<open>The loop over the reported links, with the table, the seen indices and the change flag.\<close>

fun sync_loop ::
  "kernel_link list \<Rightarrow> routing_table \<Rightarrow> int list \<Rightarrow> bool
   \<Rightarrow> routing_table \<times> (link_error + int list \<times> bool)" where
  "sync_loop [] t seen changed = (t, Inr (seen, changed))"
| "sync_loop (klink # ks) t seen changed =
     (case validate_ifindex (kl_ifindex klink) of
        Inl e \<Rightarrow> (t, Inl e)
      | Inr _ \<Rightarrow>
          let i = kl_ifindex klink;
              l = (case map_of (rt_links t) i of Some l \<Rightarrow> l | None \<Rightarrow> link_default i);
              t = t\<lparr>rt_links := bt_put i (l\<lparr>ls_kernel := Some klink\<rparr>) (rt_links t)\<rparr> in
          sync_loop ks t (i # seen) (changed \<or> ls_kernel l \<noteq> Some klink))"

definition sync_kernel_links :: "routing_table \<Rightarrow> kernel_link list \<Rightarrow> routing_table \<times> (link_error + bool)" where
  "sync_kernel_links t kernels =
     (case sync_loop kernels t [] (\<not> rt_kernel_synchronized t) of
        (t, Inl e) \<Rightarrow> (t, Inl e)
      | (t, Inr (seen, changed)) \<Rightarrow>
          let before = length (rt_links t);
              links = filter (\<lambda>(i, l). if i \<in> set seen then True
                        else ls_kernel l = None \<and> \<not> rt_kernel_synchronized t) (rt_links t) in
          (t\<lparr>rt_links := links, rt_kernel_synchronized := True\<rparr>,
           Inr (changed \<or> length links \<noteq> before)))"

definition rt_revert :: "routing_table \<Rightarrow> int \<Rightarrow> routing_table \<times> (link_error + bool)" where
  "rt_revert t ifindex =
     (case rbind (validate_ifindex ifindex) (\<lambda>_. ok_or (map_of (rt_links t) ifindex) (NoSuchLink ifindex)) of
        Inl e \<Rightarrow> (t, Inl e)
      | Inr l \<Rightarrow>
          (case link_new ifindex of
             Inl e \<Rightarrow> (t, Inl e)
           | Inr reset \<Rightarrow>
               let reset = reset\<lparr>ls_kernel := ls_kernel l\<rparr> in
               if l = reset then (t, Inr False)
               else (t\<lparr>rt_links := bt_put ifindex reset (rt_links t)\<rparr>, Inr True)))"

section \<open>Search domains and scopes\<close>

definition append_search_domains :: "domain list \<Rightarrow> domain list \<Rightarrow> domain list" where
  "append_search_domains out source =
     fold (\<lambda>d out. if dom_route_only d \<or> dom_name d = ''.'' \<or> d \<in> set out then out else out @ [d]) source out"

text \<open>The link of an explicit index: absent and 0 mean every link.\<close>

definition explicit_link :: "routing_table \<Rightarrow> int option \<Rightarrow> link_error + link_state option" where
  "explicit_link t ifindex =
     (case ifindex of
        Some i \<Rightarrow>
          if i \<noteq> 0 then
            rbind (validate_ifindex i) (\<lambda>_.
            rbind (ok_or (map_of (rt_links t) i) (NoSuchLink i)) (\<lambda>l. Inr (Some l)))
          else Inr None
      | None \<Rightarrow> Inr None)"

definition search_domains :: "routing_table \<Rightarrow> domain list \<Rightarrow> int option \<Rightarrow> link_error + domain list" where
  "search_domains t global_domains ifindex =
     rbind (explicit_link t ifindex) (\<lambda>link.
     case link of
       Some l \<Rightarrow> Inr (append_search_domains [] (ls_domains l))
     | None \<Rightarrow>
         Inr (fold (\<lambda>l out. append_search_domains out (ls_domains l)) (rt_link_list t)
           (append_search_domains [] global_domains)))"

definition link_usable :: "link_state \<Rightarrow> bool" where
  "link_usable l \<longleftrightarrow> \<not> (ls_dns_servers l = [] \<or> \<not> kernel_relevant_unicast l)"

definition link_scope :: "link_state \<Rightarrow> route_scope" where
  "link_scope l = \<lparr>scope_kind = ScopeLink (ls_ifindex l), scope_servers = ls_dns_servers l\<rparr>"

definition domain_matches ::
  "routing_table \<Rightarrow> string \<Rightarrow> socket_addr list \<Rightarrow> domain list \<Rightarrow> (nat \<times> route_scope) list" where
  "domain_matches t name global_servers global_domains =
     (if global_servers \<noteq> [] then
        (case best_domain_match name global_domains of
           None \<Rightarrow> []
         | Some labels \<Rightarrow> [(labels, \<lparr>scope_kind = ScopeGlobal, scope_servers = global_servers\<rparr>)])
      else []) @
     List.map_filter (\<lambda>l.
       if \<not> link_usable l then None
       else map_option (\<lambda>labels. (labels, link_scope l)) (best_domain_match name (ls_domains l)))
       (rt_link_list t)"

definition default_scopes ::
  "routing_table \<Rightarrow> socket_addr list \<Rightarrow> socket_addr list \<Rightarrow> route_scope list" where
  "default_scopes t global_servers fallback_servers =
     (let scopes =
        (if global_servers \<noteq> [] then [\<lparr>scope_kind = ScopeGlobal, scope_servers = global_servers\<rparr>] else []) @
        map link_scope (filter (\<lambda>l. effective_default_route l \<and> link_usable l) (rt_link_list t)) in
      if scopes = [] \<and> fallback_servers \<noteq> []
      then [\<lparr>scope_kind = ScopeFallback, scope_servers = fallback_servers\<rparr>] else scopes)"

definition rt_select ::
  "routing_table \<Rightarrow> string \<Rightarrow> int option \<Rightarrow> socket_addr list \<Rightarrow> socket_addr list \<Rightarrow> domain list
   \<Rightarrow> link_error + route_scope list" where
  "rt_select t name ifindex global_servers fallback_servers global_domains =
     rbind (explicit_link t ifindex) (\<lambda>link.
     case link of
       Some l \<Rightarrow>
         if \<not> link_usable l then Inr []
         else Inr [\<lparr>scope_kind = ScopeLink (the ifindex), scope_servers = ls_dns_servers l\<rparr>]
     | None \<Rightarrow>
         rbind (normalize_name name) (\<lambda>name.
         let matches = domain_matches t name global_servers global_domains in
         case max_option (map fst matches) of
           Some best \<Rightarrow> Inr (map snd (filter (\<lambda>(labels, scope). labels = best) matches))
         | None \<Rightarrow> Inr (default_scopes t global_servers fallback_servers)))"

end
