(* ===== verification/Routing_Props.thy ===== *)
theory Routing_Props
  imports Routing
begin

text \<open>
  Correctness of the routing table: the contract every setter keeps, as a locale interpreted
  on all eight of them, the invariant of every reachable table, and the selection of scopes
  by the longest matching domain, stated on the labels of names.
\<close>

section \<open>Normal names\<close>

abbreviation name_labels :: "string \<Rightarrow> string list" where
  "name_labels \<equiv> split_on CHR ''.''"

definition normal_name :: "string \<Rightarrow> bool" where
  "normal_name n \<longleftrightarrow> n = ''.'' \<or>
     (n \<noteq> [] \<and> is_ascii n \<and> length n \<le> 253 \<and> to_ascii_lowercase n = n \<and>
      (\<forall>label \<in> set (name_labels n). label \<noteq> [] \<and> length label \<le> 63))"

lemma name_labels_lower: "name_labels (to_ascii_lowercase n) = map to_ascii_lowercase (name_labels n)"
proof -
  have dot: "char_lower CHR ''.'' = CHR ''.''" by (simp add: lower_dot_iff)
  have iff: "char_lower x = char_lower CHR ''.'' \<longleftrightarrow> x = CHR ''.''" for x
    unfolding dot by (rule lower_dot_iff)
  from split_on_map[of char_lower, OF iff, of n] show ?thesis unfolding dot .
qed

lemma is_ascii_lower: "is_ascii n \<Longrightarrow> is_ascii (to_ascii_lowercase n)"
  by (auto simp: is_ascii_def list_all_iff of_char_lower Let_def)

lemma normalize_name_normal: "normalize_name n = Inr m \<Longrightarrow> normal_name m"
  unfolding normalize_name_def Let_def
  by (auto simp: normal_name_def name_labels_lower is_ascii_lower list_ex_iff not_less split: if_splits option.splits)

lemma normal_name_lower: "normal_name n \<Longrightarrow> to_ascii_lowercase n = n"
  by (auto simp: normal_name_def char_lower_def)

section \<open>Well-formed links and tables\<close>

definition link_wf :: "int \<Rightarrow> link_state \<Rightarrow> bool" where
  "link_wf i l \<longleftrightarrow> 0 < i \<and> ls_ifindex l = i \<and>
     distinct (ls_dns_servers l) \<and> (\<forall>s \<in> set (ls_dns_servers l). normalize_server i s = s) \<and>
     distinct (ls_domains l) \<and> (\<forall>d \<in> set (ls_domains l). normal_name (dom_name d)) \<and>
     distinct (ls_negative_trust_anchors l) \<and> (\<forall>n \<in> set (ls_negative_trust_anchors l). normal_name n) \<and>
     (\<forall>k. ls_kernel l = Some k \<longrightarrow> kl_ifindex k = i)"

definition rt_wf :: "routing_table \<Rightarrow> bool" where
  "rt_wf t \<longleftrightarrow> bt_sorted (rt_links t) \<and> (\<forall>i l. rt_link t i = Some l \<longrightarrow> link_wf i l)"

lemma rt_wf_put:
  "rt_wf t \<Longrightarrow> link_wf i l \<Longrightarrow> rt_wf (t\<lparr>rt_links := bt_put i l (rt_links t)\<rparr>)"
  by (auto simp: rt_wf_def rt_link_def)

lemma rt_link_put:
  "rt_wf t \<Longrightarrow> rt_link (t\<lparr>rt_links := bt_put i l (rt_links t)\<rparr>) j = (if j = i then Some l else rt_link t j)"
  by (auto simp: rt_wf_def rt_link_def)

lemma link_default_wf: "0 < i \<Longrightarrow> link_wf i (link_default i)"
  by (simp add: link_wf_def link_default_def)

lemma link_mut_Inr:
  assumes "rt_wf t" "link_mut t i = Inr (t', l)"
  shows "0 < i \<and> rt_wf t' \<and> rt_link t' i = Some l \<and> link_wf i l \<and> (\<forall>j. j \<noteq> i \<longrightarrow> rt_link t' j = rt_link t j) \<and>
     rt_kernel_synchronized t' = rt_kernel_synchronized t \<and>
     (rt_link t i = Some l \<and> t' = t \<or> rt_link t i = None \<and> l = link_default i)"
proof -
  have i: "0 < i" using assms(2) by (auto simp: link_mut_def validate_ifindex_def split: if_splits)
  show ?thesis
  proof (cases "map_of (rt_links t) i")
    case None
    then have "t' = t\<lparr>rt_links := bt_put i (link_default i) (rt_links t)\<rparr>" "l = link_default i"
      using assms(2) i by (auto simp: link_mut_def link_new_def validate_ifindex_def split: if_splits)
    then show ?thesis using i None assms(1) rt_wf_put[OF assms(1) link_default_wf[OF i]]
      by (simp add: rt_link_put link_default_wf) (simp add: rt_link_def)
  next
    case (Some l')
    then have "t' = t" "l = l'" using assms(2) i by (auto simp: link_mut_def validate_ifindex_def)
    then show ?thesis using i Some assms(1) by (auto simp: rt_wf_def rt_link_def)
  qed
qed

lemma bt_put_same: "bt_sorted m \<Longrightarrow> map_of m i = Some l \<Longrightarrow> bt_put i l m = m"
proof (induction m)
  case (Cons p m)
  obtain k v where p: "p = (k, v)" by fastforce
  have "\<not> i < k" using Cons.prems p by (auto dest!: map_of_SomeD split: if_splits)
  then show ?case using Cons p by (auto split: if_splits)
qed simp

lemma rt_put_same: "rt_wf t \<Longrightarrow> rt_link t i = Some l \<Longrightarrow> t\<lparr>rt_links := bt_put i l (rt_links t)\<rparr> = t"
  by (simp add: rt_wf_def rt_link_def bt_put_same)

section \<open>The contract of the setters\<close>

text \<open>
  A setter normalises its argument and stores it in one field of one link. The contract: it
  fails without a trace on a bad index or an unknown link of a synchronised table; otherwise
  the link exists afterwards, other links are untouched, a failing normalisation changes no
  existing link, and on success the field holds the normalised value, so that repeating the
  call changes nothing.
\<close>

locale link_setter =
  fixes setter :: "routing_table \<Rightarrow> int \<Rightarrow> 'v \<Rightarrow> routing_table \<times> (link_error + bool)"
    and norm :: "int \<Rightarrow> 'v \<Rightarrow> link_error + 'w"
    and view :: "link_state \<Rightarrow> 'w" and upd :: "'w \<Rightarrow> link_state \<Rightarrow> link_state"
  assumes setter_eq: "setter t i v = with_link t i (\<lambda>l. case norm i v of Inl e \<Rightarrow> (l, Inl e)
      | Inr w \<Rightarrow> if view l = w then (l, Inr False) else (upd w l, Inr True))"
    and view_upd: "view (upd w l) = w"
    and upd_wf: "norm i v = Inr w \<Longrightarrow> link_wf i l \<Longrightarrow> link_wf i (upd w l)"
begin

lemma setter_cases:
  assumes "rt_wf t" "setter t i v = (t', r)"
  obtains (refused) e where "link_mut t i = Inl e" "t' = t" "r = Inl e"
  | (invalid) e t0 l where "link_mut t i = Inr (t0, l)" "norm i v = Inl e" "t' = t0" "r = Inl e"
  | (same) t0 l w where "link_mut t i = Inr (t0, l)" "norm i v = Inr w" "view l = w" "t' = t0" "r = Inr False"
  | (changed) t0 l w where "link_mut t i = Inr (t0, l)" "norm i v = Inr w" "view l \<noteq> w"
      "t' = t0\<lparr>rt_links := bt_put i (upd w l) (rt_links t0)\<rparr>" "r = Inr True"
proof (cases "link_mut t i")
  case (Inl e)
  then show ?thesis using refused assms(2) by (auto simp: setter_eq with_link_def)
next
  case (Inr p)
  then obtain t0 l where l: "link_mut t i = Inr (t0, l)" by (cases p) auto
  note same0 = rt_put_same[of t0 i l]
  have wf: "rt_wf t0" "rt_link t0 i = Some l" using link_mut_Inr[OF assms(1) l] by auto
  show ?thesis
  proof (cases "norm i v")
    case (Inl e)
    then show ?thesis using invalid[OF l Inl] assms(2) l same0 wf by (auto simp: setter_eq with_link_def)
  next
    case (Inr w)
    then show ?thesis
      using same[OF l Inr] changed[OF l Inr] assms(2) l same0 wf
      by (cases "view l = w") (auto simp: setter_eq with_link_def)
  qed
qed

lemma setter_wf:
  assumes "rt_wf t" "setter t i v = (t', r)" shows "rt_wf t'"
  by (cases rule: setter_cases[OF assms, case_names refused invalid same changed])
    (auto dest!: link_mut_Inr[OF assms(1)] intro!: rt_wf_put upd_wf assms(1))

lemma setter_frame:
  assumes "rt_wf t" "setter t i v = (t', r)" "j \<noteq> i" shows "rt_link t' j = rt_link t j"
proof (cases rule: setter_cases[OF assms(1,2), case_names refused invalid same changed])
  case (changed t0 l w)
  then show ?thesis using link_mut_Inr[OF assms(1) changed(1)] assms(3) by (simp add: rt_link_put)
qed (use link_mut_Inr[OF assms(1)] assms(3) in blast)+

lemma setter_stores:
  assumes "rt_wf t" "setter t i v = (t', Inr b)"
  shows "\<exists>l w. norm i v = Inr w \<and> rt_link t' i = Some l \<and> view l = w"
proof (cases rule: setter_cases[OF assms, case_names refused invalid same changed])
  case (same t0 l w)
  then show ?thesis using link_mut_Inr[OF assms(1) same(1)] by blast
next
  case (changed t0 l w)
  then show ?thesis using link_mut_Inr[OF assms(1) changed(1)] view_upd by (auto simp: rt_link_put)
qed auto

lemma setter_again:
  assumes "rt_wf t" "setter t i v = (t', Inr b)" shows "setter t' i v = (t', Inr False)"
proof -
  obtain l w where s: "norm i v = Inr w" "rt_link t' i = Some l" "view l = w"
    using setter_stores[OF assms] by blast
  have wf: "rt_wf t'" using setter_wf[OF assms] .
  then have "0 < i" using s(2) by (auto simp: rt_wf_def link_wf_def)
  then have "link_mut t' i = Inr (t', l)" using s(2) by (simp add: link_mut_def validate_ifindex_def rt_link_def)
  then show ?thesis using s rt_put_same[OF wf s(2)] by (simp add: setter_eq with_link_def)
qed

lemma setter_error:
  assumes "rt_wf t" "setter t i v = (t', Inl e)"
  shows "rt_link t' i = rt_link t i \<or> (rt_link t i = None \<and> rt_link t' i = Some (link_default i) \<and> \<not> rt_kernel_synchronized t)"
proof (cases rule: setter_cases[OF assms, case_names refused invalid same changed])
  case (invalid e t0 l)
  then show ?thesis using link_mut_Inr[OF assms(1) invalid(1)]
    by (auto simp: link_mut_def rt_link_def validate_ifindex_def split: if_splits option.splits)
qed auto

end

lemma collect_normalized_Inr:
  assumes "collect_normalized norm xs out = Inr ys" "distinct out" "\<forall>y \<in> set out. P y"
    and "\<And>x y. norm x = Inr y \<Longrightarrow> P y"
  shows "distinct ys \<and> (\<forall>y \<in> set ys. P y)"
  using assms(1-3)
proof (induction xs arbitrary: out)
  case (Cons x xs)
  obtain y where y: "norm x = Inr y" "collect_normalized norm xs (push_new out y) = Inr ys"
    using Cons.prems(1) by (auto simp: result_simps)
  show ?case
    by (rule Cons.IH[OF y(2)]) (use Cons.prems assms(4)[OF y(1)] in auto)
qed simp

lemma normalize_server_idem: "normalize_server i (normalize_server i s) = normalize_server i s"
  by (auto simp: normalize_server_def split: socket_addr.splits)

lemma normalized_domains:
  assumes "collect_normalized normalize_domain v [] = Inr w"
  shows "distinct w \<and> (\<forall>d \<in> set w. normal_name (dom_name d))"
proof (rule collect_normalized_Inr[OF assms])
  fix x y assume "normalize_domain x = Inr y"
  then obtain n where "normalize_name (dom_name x) = Inr n" "y = \<lparr>dom_name = n, dom_route_only = dom_route_only x\<rparr>"
    unfolding normalize_domain_def rbind_eq_Inr by blast
  then show "normal_name (dom_name y)" using normalize_name_normal by simp
qed simp_all

lemma normalized_anchors:
  assumes "collect_normalized normalize_name v [] = Inr w"
  shows "distinct w \<and> (\<forall>n \<in> set w. normal_name n)"
  by (rule collect_normalized_Inr[OF assms]) (simp_all add: normalize_name_normal)

lemma normalized_servers:
  "distinct (push_all_new [] (map (normalize_server i) v)) \<and>
   (\<forall>s \<in> set (push_all_new [] (map (normalize_server i) v)). normalize_server i s = s)"
  by (auto simp: normalize_server_idem)

lemma link_wf_upd:
  "link_wf i l \<Longrightarrow> distinct w \<and> (\<forall>d \<in> set w. normal_name (dom_name d)) \<Longrightarrow> link_wf i (l\<lparr>ls_domains := w\<rparr>)"
  "link_wf i l \<Longrightarrow> distinct a \<and> (\<forall>n \<in> set a. normal_name n) \<Longrightarrow> link_wf i (l\<lparr>ls_negative_trust_anchors := a\<rparr>)"
  "link_wf i l \<Longrightarrow> distinct s \<and> (\<forall>x \<in> set s. normalize_server i x = x) \<Longrightarrow> link_wf i (l\<lparr>ls_dns_servers := s\<rparr>)"
  by (simp_all add: link_wf_def)

interpretation dns: link_setter set_dns
  "\<lambda>i servers. Inr (push_all_new [] (map (normalize_server i) servers))"
  ls_dns_servers "\<lambda>w l. l\<lparr>ls_dns_servers := w\<rparr>"
proof
  fix i v w l
  assume "Inr (push_all_new [] (map (normalize_server i) v)) = (Inr w :: link_error + _)" "link_wf i l"
  then show "link_wf i (l\<lparr>ls_dns_servers := w\<rparr>)" using normalized_servers[of i v] link_wf_upd(3) by simp
qed (simp_all add: set_dns_def Let_def)

interpretation domains: link_setter set_domains "\<lambda>i v. collect_normalized normalize_domain v []"
  ls_domains "\<lambda>w l. l\<lparr>ls_domains := w\<rparr>"
  by unfold_locales (simp_all add: set_domains_def normalized_domains link_wf_upd)

interpretation default_route: link_setter set_default_route "\<lambda>i. Inr"
  ls_default_route "\<lambda>w l. l\<lparr>ls_default_route := w\<rparr>"
  by unfold_locales (simp_all add: set_default_route_def link_wf_def)

interpretation llmnr: link_setter set_llmnr "\<lambda>i. Inr" ls_llmnr "\<lambda>w l. l\<lparr>ls_llmnr := w\<rparr>"
  by unfold_locales (simp_all add: set_llmnr_def link_wf_def)

interpretation multicast_dns: link_setter set_multicast_dns "\<lambda>i. Inr"
  ls_multicast_dns "\<lambda>w l. l\<lparr>ls_multicast_dns := w\<rparr>"
  by unfold_locales (simp_all add: set_multicast_dns_def link_wf_def)

interpretation dns_over_tls: link_setter set_dns_over_tls "\<lambda>i. Inr"
  ls_dns_over_tls "\<lambda>w l. l\<lparr>ls_dns_over_tls := w\<rparr>"
  by unfold_locales (simp_all add: set_dns_over_tls_def link_wf_def)

interpretation dnssec: link_setter set_dnssec "\<lambda>i. Inr" ls_dnssec "\<lambda>w l. l\<lparr>ls_dnssec := w\<rparr>"
  by unfold_locales (simp_all add: set_dnssec_def link_wf_def)

interpretation anchors: link_setter set_negative_trust_anchors "\<lambda>i v. collect_normalized normalize_name v []"
  ls_negative_trust_anchors "\<lambda>w l. l\<lparr>ls_negative_trust_anchors := w\<rparr>"
  by unfold_locales (simp_all add: set_negative_trust_anchors_def normalized_anchors link_wf_upd)

section \<open>Reachable tables\<close>

datatype link_setting =
    SDns "socket_addr list" | SDomains "domain list" | SDefaultRoute "bool option" | SLlmnr support_mode
  | SMulticastDns support_mode | SDnsOverTls tls_mode | SDnssec validation_mode | SAnchors "string list"

fun apply_link_setting :: "routing_table \<Rightarrow> int \<Rightarrow> link_setting \<Rightarrow> routing_table \<times> (link_error + bool)" where
  "apply_link_setting t i (SDns v) = set_dns t i v"
| "apply_link_setting t i (SDomains v) = set_domains t i v"
| "apply_link_setting t i (SDefaultRoute v) = set_default_route t i v"
| "apply_link_setting t i (SLlmnr v) = set_llmnr t i v"
| "apply_link_setting t i (SMulticastDns v) = set_multicast_dns t i v"
| "apply_link_setting t i (SDnsOverTls v) = set_dns_over_tls t i v"
| "apply_link_setting t i (SDnssec v) = set_dnssec t i v"
| "apply_link_setting t i (SAnchors v) = set_negative_trust_anchors t i v"

lemma apply_link_setting_wf:
  assumes "rt_wf t" shows "rt_wf (fst (apply_link_setting t i v))"
proof -
  obtain t' r where eq: "apply_link_setting t i v = (t', r)" by fastforce
  have "rt_wf t'"
    by (cases v) (use eq assms in \<open>auto dest: dns.setter_wf domains.setter_wf default_route.setter_wf llmnr.setter_wf
      multicast_dns.setter_wf dns_over_tls.setter_wf dnssec.setter_wf anchors.setter_wf\<close>)
  then show ?thesis using eq by simp
qed

lemma apply_link_setting_frame:
  assumes "rt_wf t" "j \<noteq> i" shows "rt_link (fst (apply_link_setting t i v)) j = rt_link t j"
proof -
  obtain t' r where eq: "apply_link_setting t i v = (t', r)" by fastforce
  have "rt_link t' j = rt_link t j"
    by (cases v) (use eq assms in \<open>auto dest: dns.setter_frame domains.setter_frame default_route.setter_frame
      llmnr.setter_frame multicast_dns.setter_frame dns_over_tls.setter_frame dnssec.setter_frame anchors.setter_frame\<close>)
  then show ?thesis using eq by simp
qed

lemma apply_link_setting_again:
  assumes "rt_wf t" "apply_link_setting t i v = (t', Inr b)"
  shows "apply_link_setting t' i v = (t', Inr False)"
  by (cases v) (use assms in \<open>auto dest: dns.setter_again domains.setter_again default_route.setter_again
      llmnr.setter_again multicast_dns.setter_again dns_over_tls.setter_again dnssec.setter_again anchors.setter_again\<close>)

lemma apply_link_setting_error:
  assumes "rt_wf t" "apply_link_setting t i v = (t', Inl e)"
  shows "rt_link t' i = rt_link t i \<or>
    (rt_link t i = None \<and> rt_link t' i = Some (link_default i) \<and> \<not> rt_kernel_synchronized t)"
  by (cases v) (use assms in \<open>auto dest: dns.setter_error domains.setter_error default_route.setter_error
      llmnr.setter_error multicast_dns.setter_error dns_over_tls.setter_error dnssec.setter_error anchors.setter_error\<close>)

lemma sync_loop_keeps:
  assumes "rt_wf t" "sync_loop ks t seen changed = (t', r)"
  shows "rt_wf t' \<and> rt_kernel_synchronized t' = rt_kernel_synchronized t"
  using assms
proof (induction ks arbitrary: t seen changed)
  case (Cons k ks)
  show ?case
  proof (cases "kl_ifindex k \<le> 0")
    case True
    then show ?thesis using Cons.prems by (simp add: validate_ifindex_def)
  next
    case False
    let ?i = "kl_ifindex k"
    define l where "l = (case map_of (rt_links t) ?i of Some l \<Rightarrow> l | None \<Rightarrow> link_default ?i)"
    have "link_wf ?i l" using Cons.prems(1) False link_default_wf[of ?i]
      by (cases "map_of (rt_links t) ?i") (auto simp: l_def rt_wf_def rt_link_def)
    then have "link_wf ?i (l\<lparr>ls_kernel := Some k\<rparr>)" by (simp add: link_wf_def)
    from rt_wf_put[OF Cons.prems(1) this]
    have "rt_wf (t\<lparr>rt_links := bt_put ?i (l\<lparr>ls_kernel := Some k\<rparr>) (rt_links t)\<rparr>)" .
    from Cons.IH[OF this] Cons.prems(2) False show ?thesis
      unfolding l_def by (simp add: validate_ifindex_def Let_def)
  qed
qed simp

lemma rt_wf_filter:
  assumes "rt_wf t" shows "rt_wf (t\<lparr>rt_links := filter P (rt_links t), rt_kernel_synchronized := b\<rparr>)"
proof -
  have sorted: "bt_sorted (rt_links t)" using assms by (simp add: rt_wf_def)
  have "rt_link t i = Some l" if "map_of (filter P (rt_links t)) i = Some l" for i l
    using that sorted bt_in_set[of "rt_links t"] by (auto simp: rt_link_def dest!: map_of_SomeD)
  then show ?thesis using assms sorted by (simp add: rt_wf_def rt_link_def)
qed

lemma sync_kernel_links_wf: "rt_wf t \<Longrightarrow> rt_wf (fst (sync_kernel_links t ks))"
  using sync_loop_keeps[of t ks] rt_wf_filter
  by (auto simp: sync_kernel_links_def Let_def split: prod.splits sum.splits)

lemma rt_revert_wf:
  assumes "rt_wf t" shows "rt_wf (fst (rt_revert t i))"
proof (cases "0 < i \<and> (\<exists>l. map_of (rt_links t) i = Some l)")
  case True
  then obtain l where l: "map_of (rt_links t) i = Some l" "0 < i" by blast
  have "link_wf i l" using assms l by (simp add: rt_wf_def rt_link_def)
  then have "link_wf i ((link_default i)\<lparr>ls_kernel := ls_kernel l\<rparr>)"
    using link_default_wf[OF l(2)] by (simp add: link_wf_def)
  from rt_wf_put[OF assms this] show ?thesis using l assms
    by (simp add: rt_revert_def validate_ifindex_def link_new_def Let_def)
next
  case False
  then show ?thesis using assms by (cases "map_of (rt_links t) i") (auto simp: rt_revert_def validate_ifindex_def)
qed

inductive rt_reachable :: "routing_table \<Rightarrow> bool" where
  reach_init: "rt_reachable routing_default"
| reach_setting: "rt_reachable t \<Longrightarrow> rt_reachable (fst (apply_link_setting t i v))"
| reach_sync: "rt_reachable t \<Longrightarrow> rt_reachable (fst (sync_kernel_links t ks))"
| reach_revert: "rt_reachable t \<Longrightarrow> rt_reachable (fst (rt_revert t i))"

lemma rt_reachable_wf: "rt_reachable t \<Longrightarrow> rt_wf t"
proof (induction rule: rt_reachable.induct)
  case reach_init
  show ?case by (simp add: rt_wf_def routing_default_def rt_link_def)
qed (simp_all add: apply_link_setting_wf sync_kernel_links_wf rt_revert_wf)

fun holds_setting :: "int \<Rightarrow> link_setting \<Rightarrow> link_state \<Rightarrow> bool" where
  "holds_setting i (SDns v) l \<longleftrightarrow> ls_dns_servers l = push_all_new [] (map (normalize_server i) v)"
| "holds_setting i (SDomains v) l \<longleftrightarrow> collect_normalized normalize_domain v [] = Inr (ls_domains l)"
| "holds_setting i (SDefaultRoute v) l \<longleftrightarrow> ls_default_route l = v"
| "holds_setting i (SLlmnr v) l \<longleftrightarrow> ls_llmnr l = v"
| "holds_setting i (SMulticastDns v) l \<longleftrightarrow> ls_multicast_dns l = v"
| "holds_setting i (SDnsOverTls v) l \<longleftrightarrow> ls_dns_over_tls l = v"
| "holds_setting i (SDnssec v) l \<longleftrightarrow> ls_dnssec l = v"
| "holds_setting i (SAnchors v) l \<longleftrightarrow> collect_normalized normalize_name v [] = Inr (ls_negative_trust_anchors l)"

lemma apply_link_setting_stores:
  assumes "rt_wf t" "apply_link_setting t i v = (t', Inr b)"
  shows "\<exists>l. rt_link t' i = Some l \<and> holds_setting i v l"
  by (cases v) (use assms in \<open>auto dest: dns.setter_stores domains.setter_stores default_route.setter_stores
      llmnr.setter_stores multicast_dns.setter_stores dns_over_tls.setter_stores dnssec.setter_stores anchors.setter_stores\<close>)

text \<open>
  C35: the routing table stays well formed. In every table that any history of setter calls,
  kernel synchronisations and reverts can produce, the links are stored under their own
  positive indices in ascending order; their servers, search domains and negative trust
  anchors have no repetitions; every domain and anchor is in normal form (lower case, labels
  of 1 to 63 octets, at most 253 octets, or the root); link-local servers carry the index of
  the link as their scope; and the kernel's record of a link has the link's index.
\<close>

theorem routing_reachable_invariant:
  assumes "rt_reachable t"
  shows "sorted_wrt (<) (map fst (rt_links t)) \<and>
    (\<forall>(i, l) \<in> set (rt_links t). 0 < i \<and> ls_ifindex l = i \<and> rt_link t i = Some l \<and>
       distinct (ls_dns_servers l) \<and> distinct (ls_domains l) \<and> distinct (ls_negative_trust_anchors l) \<and>
       (\<forall>s \<in> set (ls_dns_servers l). normalize_server i s = s) \<and>
       (\<forall>n \<in> dom_name ` set (ls_domains l) \<union> set (ls_negative_trust_anchors l). normal_name n) \<and>
       (\<forall>k. ls_kernel l = Some k \<longrightarrow> kl_ifindex k = i))"
proof (intro conjI ballI)
  have wf: "rt_wf t" using rt_reachable_wf[OF assms] .
  then show sorted: "sorted_wrt (<) (map fst (rt_links t))" by (simp add: rt_wf_def)
  fix p assume "p \<in> set (rt_links t)"
  then obtain i l where p: "p = (i, l)" "(i, l) \<in> set (rt_links t)" by (metis prod.collapse)
  have link: "rt_link t i = Some l" using bt_in_set[OF sorted] p(2) by (simp add: rt_link_def)
  then have "link_wf i l" using wf by (simp add: rt_wf_def)
  then show "case p of (i, l) \<Rightarrow> 0 < i \<and> ls_ifindex l = i \<and> rt_link t i = Some l \<and>
       distinct (ls_dns_servers l) \<and> distinct (ls_domains l) \<and> distinct (ls_negative_trust_anchors l) \<and>
       (\<forall>s \<in> set (ls_dns_servers l). normalize_server i s = s) \<and>
       (\<forall>n \<in> dom_name ` set (ls_domains l) \<union> set (ls_negative_trust_anchors l). normal_name n) \<and>
       (\<forall>k. ls_kernel l = Some k \<longrightarrow> kl_ifindex k = i)"
    unfolding p(1) prod.case link_wf_def using link by blast
qed

theorem routing_reachable_invariant_witness:
  "\<exists>l. (2, l) \<in> set (rt_links (fst (apply_link_setting routing_default 2 (SLlmnr SupportNo)))) \<and> ls_ifindex l = 2 \<and>
     ls_llmnr l = SupportNo"
proof -
  let ?t = "fst (apply_link_setting routing_default 2 (SLlmnr SupportNo))"
  have "rt_links ?t = [(2, (link_default 2)\<lparr>ls_llmnr := SupportNo\<rparr>)]" by code_simp
  then have l: "(2, (link_default 2)\<lparr>ls_llmnr := SupportNo\<rparr>) \<in> set (rt_links ?t)" by (simp only: list.set_intros)
  from routing_reachable_invariant[OF reach_setting[OF reach_init, of 2 "SLlmnr SupportNo"]] l
  have "ls_ifindex ((link_default 2)\<lparr>ls_llmnr := SupportNo\<rparr>) = 2" by blast
  moreover have "ls_llmnr ((link_default 2)\<lparr>ls_llmnr := SupportNo\<rparr>) = SupportNo" by simp
  ultimately show ?thesis using l by blast
qed

text \<open>
  C36: the contract shared by the eight setters. On a reachable table a call never touches
  another link. If it succeeds, the link exists and holds the normalised value, and repeating
  the call reports no change and changes nothing. If it fails, the link is as before, except
  that on a table that was never synchronised a missing link has been created with default
  settings.
\<close>

theorem link_setting_contract:
  assumes "rt_reachable t" and "apply_link_setting t i v = (t', r)"
  shows "(\<forall>j. j \<noteq> i \<longrightarrow> rt_link t' j = rt_link t j) \<and>
    (case r of
       Inr _ \<Rightarrow> (\<exists>l. rt_link t' i = Some l \<and> holds_setting i v l) \<and> apply_link_setting t' i v = (t', Inr False)
     | Inl _ \<Rightarrow> rt_link t' i = rt_link t i \<or>
         (rt_link t i = None \<and> rt_link t' i = Some (link_default i) \<and> \<not> rt_kernel_synchronized t))"
proof -
  note wf = rt_reachable_wf[OF assms(1)]
  have frame: "\<forall>j. j \<noteq> i \<longrightarrow> rt_link t' j = rt_link t j"
    using apply_link_setting_frame[OF wf, of _ i v] assms(2) by simp
  show ?thesis
  proof (cases r)
    case (Inl e)
    then show ?thesis using frame apply_link_setting_error[OF wf assms(2)[unfolded Inl]] by simp
  next
    case (Inr b)
    note eq = assms(2)[unfolded Inr]
    show ?thesis using frame apply_link_setting_stores[OF wf eq] apply_link_setting_again[OF wf eq] Inr by simp
  qed
qed

theorem link_setting_contract_witness:
  "let (t', r) = apply_link_setting routing_default 2 (SDomains [\<lparr>dom_name = ''~Example.COM.'', dom_route_only = True\<rparr>])
   in r = Inr True \<and> (\<exists>l. rt_link t' 2 = Some l \<and> dom_name (hd (ls_domains l)) = ''example.com'')"
proof -
  let ?v = "[\<lparr>dom_name = ''~Example.COM.'', dom_route_only = True\<rparr>]"
  obtain t' r where eq: "apply_link_setting routing_default 2 (SDomains ?v) = (t', r)" by fastforce
  have "snd (apply_link_setting routing_default 2 (SDomains ?v)) = Inr True" by code_simp
  then have r: "r = Inr True" by (simp only: eq snd_conv)
  have norm: "collect_normalized normalize_domain ?v [] = Inr [\<lparr>dom_name = ''example.com'', dom_route_only = True\<rparr>]"
    by code_simp
  obtain l where l: "rt_link t' 2 = Some l" "holds_setting 2 (SDomains ?v) l"
    using link_setting_contract[OF reach_init eq] unfolding r sum.case by blast
  have "ls_domains l = [\<lparr>dom_name = ''example.com'', dom_route_only = True\<rparr>]"
    using l(2) unfolding holds_setting.simps norm by simp
  then show ?thesis unfolding eq Let_def prod.case using r l(1) by simp
qed

section \<open>Longest match\<close>

lemma split_on_append: "split_on c (a @ c # b) = split_on c a @ split_on c b"
proof (induction a)
  case (Cons x a)
  obtain y ys where "split_on c a = y # ys" by (meson list.exhaust split_on_not_Nil)
  then show ?case using Cons by simp
qed simp

lemma join_with_append:
  "xs \<noteq> [] \<Longrightarrow> ys \<noteq> [] \<Longrightarrow> join_with sep (xs @ ys) = join_with sep xs @ sep @ join_with sep ys"
  by (induction sep xs rule: join_with.induct) (auto simp: join_with_Cons)

lemma suffix_labels_iff:
  "suffix (name_labels d) (name_labels n) \<longleftrightarrow> n = d \<or> (\<exists>front. n = front @ CHR ''.'' # d)"
proof
  assume "suffix (name_labels d) (name_labels n)"
  then obtain front where f: "name_labels n = front @ name_labels d" by (auto simp: suffix_def)
  have "n = join_with ''.'' (front @ name_labels d)" using join_split[of "CHR ''.''" n] f by simp
  then show "n = d \<or> (\<exists>front. n = front @ CHR ''.'' # d)"
    by (cases "front = []") (auto simp: join_with_append)
next
  assume "n = d \<or> (\<exists>front. n = front @ CHR ''.'' # d)"
  then show "suffix (name_labels d) (name_labels n)" by (auto simp: split_on_append suffix_def)
qed

definition covers :: "string \<Rightarrow> domain \<Rightarrow> bool" where
  "covers name d \<longleftrightarrow> dom_name d = ''.'' \<or> suffix (name_labels (dom_name d)) (name_labels name)"

definition depth :: "domain \<Rightarrow> nat" where
  "depth d = (if dom_name d = ''.'' then 0 else length (name_labels (dom_name d)))"

lemma domain_match_covers:
  assumes "to_ascii_lowercase name = name" "to_ascii_lowercase (dom_name d) = dom_name d"
  shows "domain_match_labels name (dom_name d) = (if covers name d then Some (depth d) else None)"
proof -
  have "(case strip_suffix (dom_name d) name of None \<Rightarrow> False | Some front \<Rightarrow> ends_with_char front CHR ''.'') \<longleftrightarrow>
      (\<exists>front. name = front @ CHR ''.'' # dom_name d)"
  proof (cases "strip_suffix (dom_name d) name")
    case None
    then have "\<nexists>t. name = t @ dom_name d" by (simp add: strip_suffix_None)
    then have "name \<noteq> front @ CHR ''.'' # dom_name d" for front
      by (metis append.assoc append_Cons append_Nil)
    then show ?thesis using None by simp
  next
    case (Some front)
    then have eq: "name = front @ dom_name d" by (simp add: strip_suffix_Some)
    have iff: "name = f @ CHR ''.'' # dom_name d \<longleftrightarrow> front = f @ ''.''" for f
    proof -
      have "name = f @ CHR ''.'' # dom_name d \<longleftrightarrow> front @ dom_name d = (f @ ''.'') @ dom_name d" using eq by simp
      then show ?thesis by (simp only: append_same_eq)
    qed
    have "ends_with_char front CHR ''.'' \<longleftrightarrow> (\<exists>f. front = f @ ''.'')"
      unfolding ends_with_char_def by (cases front rule: rev_cases) simp_all
    then show ?thesis unfolding Some option.case iff .
  qed
  moreover have "eq_ignore_ascii_case name (dom_name d) \<longleftrightarrow> name = dom_name d"
    using assms by (simp add: eq_ignore_ascii_case_def)
  ultimately show ?thesis unfolding domain_match_labels_def covers_def depth_def suffix_labels_iff by simp
qed

lemma max_option_None: "max_option xs = None \<longleftrightarrow> xs = []"
  by (cases xs) (auto split: option.splits)

lemma max_option_Some: "max_option xs = Some m \<longleftrightarrow> m \<in> set xs \<and> (\<forall>x \<in> set xs. x \<le> m)"
proof (induction xs arbitrary: m)
  case (Cons x xs)
  show ?case
  proof (cases "max_option xs")
    case None
    then show ?thesis by (auto simp: max_option_None)
  next
    case (Some y)
    then have y: "y \<in> set xs" "\<forall>x \<in> set xs. x \<le> y" using Cons.IH by blast+
    have "max x y = m \<longleftrightarrow> m \<in> set (x # xs) \<and> (\<forall>z \<in> set (x # xs). z \<le> m)"
      using y by (auto simp: max_def intro: order.antisym)
    then show ?thesis using Some by simp
  qed
qed simp

definition candidates ::
  "routing_table \<Rightarrow> socket_addr list \<Rightarrow> domain list \<Rightarrow> (domain list \<times> route_scope) list" where
  "candidates t global_servers global_domains =
     (if global_servers \<noteq> []
      then [(global_domains, \<lparr>scope_kind = ScopeGlobal, scope_servers = global_servers\<rparr>)] else []) @
     map (\<lambda>l. (ls_domains l, link_scope l)) (filter link_usable (rt_link_list t))"

lemma domain_matches_candidates:
  "domain_matches t name gs gd =
     List.map_filter (\<lambda>(ds, s). map_option (\<lambda>k. (k, s)) (best_domain_match name ds)) (candidates t gs gd)"
proof -
  have "List.map_filter (\<lambda>l. if \<not> link_usable l then None
            else map_option (\<lambda>labels. (labels, link_scope l)) (best_domain_match name (ls_domains l))) ls =
        List.map_filter (\<lambda>(ds, s). map_option (\<lambda>k. (k, s)) (best_domain_match name ds))
          (map (\<lambda>l. (ls_domains l, link_scope l)) (filter link_usable ls))" for ls
  proof (induction ls)
    case (Cons l ls)
    then show ?case by (cases "best_domain_match name (ls_domains l)") (simp_all add: List.map_filter_simps)
  qed (simp add: List.map_filter_simps)
  then show ?thesis unfolding domain_matches_def candidates_def
    by (cases "best_domain_match name gd") (simp_all add: List.map_filter_simps)
qed

lemma best_domain_match_covers:
  assumes "to_ascii_lowercase name = name" "\<forall>d \<in> set ds. to_ascii_lowercase (dom_name d) = dom_name d"
  shows "best_domain_match name ds = max_option (map depth (filter (covers name) ds))"
proof -
  have "List.map_filter (\<lambda>d. domain_match_labels name (dom_name d)) ds = map depth (filter (covers name) ds)"
    using assms(2) by (induction ds) (simp_all add: List.map_filter_simps domain_match_covers[OF assms(1)])
  then show ?thesis by (simp add: best_domain_match_def)
qed

lemma filter_map_best:
  "map snd (filter (\<lambda>(k, s). k = b) (List.map_filter (\<lambda>(ds, s). map_option (\<lambda>k. (k, s)) (best ds)) cs)) =
   map snd (filter (\<lambda>(ds, s). best ds = Some b) cs)"
proof (induction cs)
  case (Cons c cs)
  then show ?case by (cases c; cases "best (fst c)") (simp_all add: List.map_filter_simps)
qed (simp add: List.map_filter_simps)

lemma fst_map_best:
  "map fst (List.map_filter (\<lambda>(ds, s). map_option (\<lambda>k. (k, s)) (best ds)) cs) =
   List.map_filter best (map fst cs)"
proof (induction cs)
  case (Cons c cs)
  then show ?case by (cases c; cases "best (fst c)") (simp_all add: List.map_filter_simps)
qed (simp add: List.map_filter_simps)

lemma in_map_filter: "y \<in> set (List.map_filter f xs) \<longleftrightarrow> (\<exists>x \<in> set xs. f x = Some y)"
  by (force simp: List.map_filter_def)

definition covered :: "string \<Rightarrow> (domain list \<times> route_scope) list \<Rightarrow> domain set" where
  "covered name cs = {d. covers name d \<and> (\<exists>(ds, s) \<in> set cs. d \<in> set ds)}"

lemma best_candidates:
  assumes all: "\<forall>c \<in> set cs. best (fst c) = max_option (map depth (filter (covers name) (fst c)))"
    and b: "max_option (List.map_filter best (map fst cs)) = Some b"
  shows "covered name cs \<noteq> {} \<and>
    filter (\<lambda>(ds, s). best ds = Some b) cs =
    filter (\<lambda>(ds, s). \<exists>d \<in> set ds. covers name d \<and> (\<forall>e \<in> covered name cs. depth e \<le> depth d)) cs"
proof -
  have best: "best ds = max_option (map depth (filter (covers name) ds))" if "(ds, s) \<in> set cs" for ds s
    using all that by force
  obtain ds0 s0 where b0: "(ds0, s0) \<in> set cs" "best ds0 = Some b"
    using b unfolding max_option_Some in_map_filter by auto
  have max: "k \<le> b" if "(ds, s) \<in> set cs" "best ds = Some k" for ds s k
  proof -
    have "k \<in> set (List.map_filter best (map fst cs))" unfolding in_map_filter using that by force
    then show ?thesis using b by (simp add: max_option_Some)
  qed
  obtain d0 where d0: "d0 \<in> set ds0" "covers name d0" "depth d0 = b"
    using b0 best[OF b0(1)] by (auto simp: max_option_Some)
  have le: "depth e \<le> b" if e: "(es, s) \<in> set cs" "e \<in> set es" "covers name e" for es s e
  proof -
    have "best es \<noteq> None" unfolding best[OF e(1)] max_option_None using e by (auto simp: filter_empty_conv)
    then obtain k where k: "best es = Some k" by blast
    then have "depth e \<le> k" using best[OF e(1)] e by (auto simp: max_option_Some)
    then show ?thesis using max[OF e(1) k] by simp
  qed
  have d0_in: "d0 \<in> covered name cs" using d0 b0(1) by (auto simp: covered_def)
  have iff: "best ds = Some b \<longleftrightarrow> (\<exists>d \<in> set ds. covers name d \<and> (\<forall>e \<in> covered name cs. depth e \<le> depth d))"
    if c: "(ds, s) \<in> set cs" for ds s
  proof -
    have "best ds = Some b \<longleftrightarrow> (\<exists>d \<in> set ds. covers name d \<and> depth d = b)"
      unfolding best[OF c] max_option_Some using le[OF c] by auto
    moreover have "depth d = b \<longleftrightarrow> (\<forall>e \<in> covered name cs. depth e \<le> depth d)" if "d \<in> set ds" "covers name d" for d
      using le[OF c that] le d0 d0_in by (force simp: covered_def)
    ultimately show ?thesis by blast
  qed
  show ?thesis using d0_in iff by (auto intro!: filter_cong)
qed

lemma no_candidates:
  assumes all: "\<forall>c \<in> set cs. best (fst c) = max_option (map depth (filter (covers name) (fst c)))"
    and "max_option (List.map_filter best (map fst cs)) = None"
  shows "covered name cs = {}"
proof -
  have best: "best ds = max_option (map depth (filter (covers name) ds))" if "(ds, s) \<in> set cs" for ds s
    using all that by force
  have "List.map_filter best (map fst cs) = []" using assms(2) by (simp add: max_option_None)
  then have "\<nexists>y. y \<in> set (List.map_filter best (map fst cs))" by simp
  then have none: "best ds = None" if "(ds, s) \<in> set cs" for ds s
    unfolding in_map_filter using that by (cases "best ds") force+
  show ?thesis using none best by (force simp: covered_def max_option_None filter_empty_conv)
qed

text \<open>
  C34: queries are routed by the longest matching domain. For a valid name on a reachable
  table and lower-case global domains, selection without an interface considers the global
  servers (if any) and every link that has servers and is usable according to the kernel. If
  some domain of these candidates is a suffix of the name on whole labels, or the root, then
  exactly the candidates that have a covering domain of maximal depth are returned, in order;
  otherwise the default scopes. An invalid name is an error.
\<close>

theorem rt_select_longest_match:
  assumes "rt_reachable t" and "\<forall>d \<in> set gd. to_ascii_lowercase (dom_name d) = dom_name d"
  shows "rt_select t name None gs fs gd =
    (case normalize_name name of
       Inl e \<Rightarrow> Inl e
     | Inr n \<Rightarrow>
         let cs = candidates t gs gd; cov = covered n cs in
         Inr (if cov = {} then default_scopes t gs fs
              else map snd (filter (\<lambda>(ds, s). \<exists>d \<in> set ds. covers n d \<and> (\<forall>e \<in> cov. depth e \<le> depth d)) cs)))"
proof (cases "normalize_name name")
  case (Inl e)
  then show ?thesis by (simp add: rt_select_def explicit_link_def)
next
  case (Inr n)
  have wf: "rt_wf t" using rt_reachable_wf[OF assms(1)] .
  have lower: "to_ascii_lowercase n = n" using normal_name_lower normalize_name_normal[OF Inr] by blast
  have "to_ascii_lowercase (dom_name d) = dom_name d" if l: "l \<in> set (rt_link_list t)" and d: "d \<in> set (ls_domains l)" for l d
  proof -
    obtain i where "(i, l) \<in> set (rt_links t)" using l by (auto simp: rt_link_list_def)
    then have "rt_link t i = Some l" using wf bt_in_set[of "rt_links t"] by (simp add: rt_wf_def rt_link_def)
    then have "normal_name (dom_name d)" using wf d by (simp add: rt_wf_def link_wf_def)
    then show ?thesis by (rule normal_name_lower)
  qed
  then have doms: "\<forall>d \<in> set ds. to_ascii_lowercase (dom_name d) = dom_name d" if "(ds, s) \<in> set (candidates t gs gd)" for ds s
    using that assms(2) by (auto simp: candidates_def split: if_splits)
  have best: "\<forall>c \<in> set (candidates t gs gd).
      best_domain_match n (fst c) = max_option (map depth (filter (covers n) (fst c)))"
    by (intro ballI best_domain_match_covers[OF lower]) (metis doms prod.collapse)
  show ?thesis
  proof (cases "max_option (map fst (domain_matches t n gs gd))")
    case None
    have "covered n (candidates t gs gd) = {}"
      by (rule no_candidates[OF best None[unfolded domain_matches_candidates fst_map_best]])
    then show ?thesis using Inr None by (simp add: rt_select_def explicit_link_def Let_def)
  next
    case (Some b)
    note * = best_candidates[OF best Some[unfolded domain_matches_candidates fst_map_best]]
    have "rt_select t name None gs fs gd =
        Inr (map snd (filter (\<lambda>(labels, scope). labels = b) (domain_matches t n gs gd)))"
      using Inr Some by (simp add: rt_select_def explicit_link_def Let_def)
    then show ?thesis
      unfolding domain_matches_candidates filter_map_best *[THEN conjunct2] Inr sum.case Let_def
      using *[THEN conjunct1] by (simp only: if_False)
  qed
qed

theorem rt_select_longest_match_witness:
  "let t = fst (apply_link_setting (fst (apply_link_setting routing_default 2
             (SDomains [\<lparr>dom_name = ''corp.example'', dom_route_only = True\<rparr>])))
             2 (SDns [SocketV4 (ipv4_new 10 0 0 1) 53]));
       gs = [SocketV4 (ipv4_new 9 9 9 9) 53]; gd = [\<lparr>dom_name = ''example'', dom_route_only = False\<rparr>] in
   rt_select t ''Wiki.Corp.Example.'' None gs [] gd =
     Inr [\<lparr>scope_kind = ScopeLink 2, scope_servers = [SocketV4 (ipv4_new 10 0 0 1) 53]\<rparr>] \<and>
   covered ''wiki.corp.example'' (candidates t gs gd) \<noteq> {}"
proof -
  define t where "t = fst (apply_link_setting (fst (apply_link_setting routing_default 2
             (SDomains [\<lparr>dom_name = ''corp.example'', dom_route_only = True\<rparr>])))
             2 (SDns [SocketV4 (ipv4_new 10 0 0 1) 53]))"
  let ?gs = "[SocketV4 (ipv4_new 9 9 9 9) 53]" and ?gd = "[\<lparr>dom_name = ''example'', dom_route_only = False\<rparr>]"
  let ?link = "\<lparr>scope_kind = ScopeLink 2, scope_servers = [SocketV4 (ipv4_new 10 0 0 1) 53]\<rparr>"
  have reach: "rt_reachable t" unfolding t_def by (intro rt_reachable.intros)
  have lower: "\<forall>d \<in> set ?gd. to_ascii_lowercase (dom_name d) = dom_name d" by code_simp
  have n: "normalize_name ''Wiki.Corp.Example.'' = Inr ''wiki.corp.example''" by code_simp
  have sel: "rt_select t ''Wiki.Corp.Example.'' None ?gs [] ?gd = Inr [?link]" unfolding t_def by code_simp
  have def: "default_scopes t ?gs [] \<noteq> [?link]" unfolding t_def by code_simp
  have "covered ''wiki.corp.example'' (candidates t ?gs ?gd) \<noteq> {}"
  proof
    assume "covered ''wiki.corp.example'' (candidates t ?gs ?gd) = {}"
    then show False
      using rt_select_longest_match[OF reach lower, of "''Wiki.Corp.Example.''" ?gs "[]"] sel def
      unfolding n sum.case Let_def by simp
  qed
  then show ?thesis using sel unfolding t_def Let_def by blast
qed

end
