(* ===== verification/Rust_Text.thy ===== *)
theory Rust_Text
  imports Rust_Strings
begin

text \<open>
  Lines and words of a text, as \<open>str::lines\<close> and \<open>str::split_whitespace\<close> give them, and the
  lemmas that let a generated text be read back: lines that end in a line feed and words
  separated by single spaces come back as they were written.
\<close>

abbreviation line_feed :: char where "line_feed \<equiv> CHR 0x0A"
abbreviation carriage_return :: char where "carriage_return \<equiv> CHR 0x0D"

definition strip_cr :: "string \<Rightarrow> string" where
  "strip_cr l = (case strip_suffix [carriage_return] l of None \<Rightarrow> l | Some t \<Rightarrow> t)"

text \<open>Only a line that ends in a line feed loses a carriage return before it.\<close>

definition lines :: "string \<Rightarrow> string list" where
  "lines s =
     (let parts = split_on line_feed s; unterminated = last parts in
      map strip_cr (butlast parts) @ (if unterminated = [] then [] else [unterminated]))"

definition has_whitespace :: "string \<Rightarrow> bool" where
  "has_whitespace s \<longleftrightarrow> snd (take_word s) \<noteq> []"

section \<open>Plain characters\<close>

definition ascii_whitespace :: "char set" where
  "ascii_whitespace = {CHR 0x09, CHR 0x0A, CHR 0x0B, CHR 0x0C, CHR 0x0D, CHR 0x20}"

definition plain_char :: "char \<Rightarrow> bool" where
  "plain_char c \<longleftrightarrow> (of_char c :: nat) < 128 \<and> c \<notin> ascii_whitespace"

definition plain_word :: "string \<Rightarrow> bool" where
  "plain_word w \<longleftrightarrow> w \<noteq> [] \<and> list_all plain_char w"

lemma whitespace_heads:
  "w \<in> set whitespace_encodings \<Longrightarrow> hd w \<in> ascii_whitespace \<or> 128 \<le> (of_char (hd w) :: nat)"
  "w \<in> set whitespace_encodings \<Longrightarrow> last w \<in> ascii_whitespace \<or> 128 \<le> (of_char (last w) :: nat)"
  by (auto simp: whitespace_encodings_def ascii_whitespace_def)

lemma strip_whitespace_plain: "plain_char c \<Longrightarrow> strip_whitespace (c # s) = None"
  using whitespace_heads(1) whitespace_nonempty
  unfolding strip_whitespace_def strip_any_None plain_char_def by (metis append_Cons list.collapse list.inject not_le)

lemma strip_whitespace_rev_plain: "plain_char c \<Longrightarrow> strip_whitespace_rev (c # s) = None"
proof -
  assume c: "plain_char c"
  have "c # s \<noteq> rev w @ t" if "w \<in> set whitespace_encodings" for w t
  proof
    assume eq: "c # s = rev w @ t"
    have "w \<noteq> []" using that by (rule whitespace_nonempty)
    then have "hd (rev w @ t) = last w" by (simp add: hd_append hd_rev)
    then have "c = last w" using arg_cong[OF eq, of hd] by simp
    then show False using c whitespace_heads(2)[OF that] by (simp add: plain_char_def)
  qed
  then show ?thesis by (auto simp: strip_whitespace_rev_def strip_any_None)
qed

lemma strip_whitespace_ascii: "c \<in> ascii_whitespace \<Longrightarrow> strip_whitespace (c # s) \<noteq> None"
proof -
  assume "c \<in> ascii_whitespace"
  then have "[c] \<in> set whitespace_encodings" by (auto simp: ascii_whitespace_def whitespace_encodings_def)
  moreover have "c # s = [c] @ s" by simp
  ultimately show ?thesis unfolding strip_whitespace_def strip_any_None by blast
qed

lemma strip_whitespace_space: "strip_whitespace (CHR '' '' # s) = Some s"
  by (simp add: strip_whitespace_def whitespace_encodings_def)

lemma strip_whitespace_Nil: "strip_whitespace [] = None" "strip_whitespace_rev [] = None"
  using whitespace_nonempty by (auto simp: strip_whitespace_def strip_whitespace_rev_def strip_any_None)

lemma trim_plain: "s \<noteq> [] \<Longrightarrow> plain_char (hd s) \<Longrightarrow> plain_char (last s) \<Longrightarrow> trim s = s"
proof -
  assume s: "s \<noteq> []" "plain_char (hd s)" "plain_char (last s)"
  have "trim_start s = s" using s(1) strip_whitespace_plain[OF s(2), of "tl s"] by (simp add: trim_start.simps[of s])
  moreover have "trim_rev (rev s) = rev s"
  proof -
    have "rev s = last s # rev (butlast s)" using s(1) by (cases s rule: rev_cases) simp_all
    then have "strip_whitespace_rev (rev s) = None" using strip_whitespace_rev_plain[OF s(3)] by metis
    then show ?thesis by (simp add: trim_rev.simps[of "rev s"])
  qed
  ultimately show ?thesis by (simp add: trim_def trim_end_def)
qed

section \<open>Words\<close>

lemma take_word_plain:
  "list_all plain_char w \<Longrightarrow> r = [] \<or> strip_whitespace r \<noteq> None \<Longrightarrow> take_word (w @ r) = (w, r)"
proof (induction w)
  case Nil
  then show ?case by (cases r) auto
next
  case (Cons c w)
  then show ?case using strip_whitespace_plain[of c "w @ r"] by simp
qed

lemma trim_start_word: "plain_word w \<Longrightarrow> trim_start (w @ s) = w @ s"
  by (cases w) (simp_all add: plain_word_def trim_start.simps[of "_ # _"] strip_whitespace_plain)

lemma split_whitespace_Nil [simp]: "split_whitespace [] = []"
  by (simp add: split_whitespace.simps[of "[]"] trim_start.simps[of "[]"] strip_whitespace_Nil)

lemma split_whitespace_word:
  assumes "plain_word w" "r = [] \<or> strip_whitespace r \<noteq> None"
  shows "split_whitespace (w @ r) = w # split_whitespace r"
proof -
  obtain c t where "w = c # t" using assms(1) by (cases w) (auto simp: plain_word_def)
  moreover have "take_word (w @ r) = (w, r)" using assms take_word_plain by (simp add: plain_word_def)
  moreover have "trim_start (w @ r) = w @ r" using assms(1) by (rule trim_start_word)
  ultimately show ?thesis
    by (subst split_whitespace.simps) (simp only: append_Cons list.case Let_def prod.case)
qed

lemma split_whitespace_space [simp]: "split_whitespace (CHR '' '' # s) = split_whitespace s"
  by (simp add: split_whitespace.simps[of "CHR '' '' # s"] split_whitespace.simps[of s]
      trim_start.simps[of "CHR '' '' # s"] strip_whitespace_space)

lemma split_whitespace_join: "\<forall>w \<in> set ws. plain_word w \<Longrightarrow> split_whitespace (join_with '' '' ws) = ws"
proof (induction ws)
  case (Cons w ws)
  have w: "plain_word w" using Cons.prems by simp
  show ?case
  proof (cases ws)
    case Nil
    then show ?thesis using split_whitespace_word[OF w, of "[]"] by simp
  next
    case (Cons v vs)
    then show ?thesis
      using split_whitespace_word[OF w, of "CHR '' '' # join_with '' '' ws"] Cons.IH Cons.prems
      by (simp add: join_with_Cons strip_whitespace_space)
  qed
qed simp

lemma take_word_chars: "take_word s = (w, r) \<Longrightarrow> c \<in> set w \<Longrightarrow> c \<notin> ascii_whitespace"
proof (induction s arbitrary: w)
  case (Cons a s)
  show ?case
  proof (cases "strip_whitespace (a # s)")
    case None
    obtain v where "take_word s = (v, r)" "w = a # v"
      using Cons.prems(1) None by (auto split: prod.splits)
    then show ?thesis using Cons strip_whitespace_ascii[of a s] None by auto
  next
    case (Some x)
    then show ?thesis using Cons.prems by simp
  qed
qed simp

lemma split_whitespace_words: "w \<in> set (split_whitespace s) \<Longrightarrow> w \<noteq> [] \<and> set w \<inter> ascii_whitespace = {}"
proof (induction s rule: split_whitespace.induct)
  case (1 s)
  show ?case
  proof (cases "trim_start s")
    case Nil
    then show ?thesis using 1 by (simp add: split_whitespace.simps[of s])
  next
    case (Cons c t)
    obtain v r where v: "take_word (c # t) = (v, r)" by fastforce
    have "strip_whitespace (c # t) = None" using trim_start_stops[of s] Cons by simp
    then have "v \<noteq> []" using v by (auto split: prod.splits)
    moreover have "w = v \<or> w \<in> set (split_whitespace r)"
      using 1(2) Cons v by (simp add: split_whitespace.simps[of s])
    ultimately show ?thesis using 1(1)[OF Cons v[symmetric] refl] take_word_chars[OF v] by auto
  qed
qed

lemma ascii_word_plain: "w \<in> set (split_whitespace s) \<Longrightarrow> is_ascii w \<Longrightarrow> plain_word w"
  using split_whitespace_words[of w s] by (auto simp: plain_word_def plain_char_def is_ascii_def list_all_iff)

section \<open>Lines\<close>

lemma lines_terminated:
  "\<forall>l \<in> set ls. line_feed \<notin> set l \<and> (l = [] \<or> last l \<noteq> carriage_return) \<Longrightarrow>
   lines (concat (map (\<lambda>l. l @ [line_feed]) ls)) = ls"
proof -
  assume ok: "\<forall>l \<in> set ls. line_feed \<notin> set l \<and> (l = [] \<or> last l \<noteq> carriage_return)"
  have "split_on line_feed (concat (map (\<lambda>l. l @ [line_feed]) ls)) = ls @ [[]]"
    using ok by (induction ls) (simp_all add: split_on_append_sep)
  moreover have "strip_cr l = l" if "l \<in> set ls" for l
  proof -
    have "strip_suffix [carriage_return] l = None" using ok that by (auto simp: strip_suffix_None)
    then show ?thesis by (simp add: strip_cr_def)
  qed
  ultimately show ?thesis by (simp add: lines_def map_idI)
qed

end
