(* ===== verification/Config.thy ===== *)
theory Config
  imports Config_Types Rust_Text
begin

text \<open>
  The configuration of \<open>src/src/config_*.rs\<close>: the parsers of the single values, the assignments
  that add to a list, the settings of a configuration file, loading with its sources in order,
  validation, the projections to the servers in use and the texts of the published
  \<open>resolv.conf\<close> files. File contents are arguments, and so is the conversion of a decimal number
  with a unit to a duration, which the source does in floating point. A Rust panic is the
  value \<open>None\<close>; an operation on a mutable configuration returns it also on error.
\<close>

section \<open>Values\<close>

definition parse_bool :: "string \<Rightarrow> config_error + bool" where
  "parse_bool value =
     (let v = to_ascii_lowercase (trim value) in
      if is_yes v then Inr True else if is_no v then Inr False else Inl (InvalidValue value))"

abbreviation parse_usize :: "string \<Rightarrow> nat option" where
  "parse_usize s \<equiv> map_option unat (from_str_radix 10 s :: u64 option)"

definition parse_cache_size :: "string \<Rightarrow> config_error + nat" where
  "parse_cache_size value = ok_or (parse_usize (trim value)) (InvalidValue value)"

definition parse_cache_mode :: "string \<Rightarrow> config_error + bool \<times> bool" where
  "parse_cache_mode value =
     (let v = to_ascii_lowercase (trim value) in
      if is_yes v then Inr (True, True)
      else if v = ''no-negative'' then Inr (True, False)
      else if is_no v then Inr (False, False)
      else Inl (InvalidValue value))"

datatype duration_unit = Millis | Minutes | Hours | Days | Seconds

text \<open>
  \<open>secs number unit\<close> is the duration in nanoseconds of the text of a finite, non-negative
  number in the given unit, or \<open>None\<close>.
\<close>

type_synonym seconds_f64 = "string \<Rightarrow> duration_unit \<Rightarrow> nat option"

definition parse_duration :: "seconds_f64 \<Rightarrow> string \<Rightarrow> config_error + nat" where
  "parse_duration secs value =
     (let value = trim value;
          (number, unit) =
            (case strip_suffix ''ms'' value of Some n \<Rightarrow> (n, Millis) | None \<Rightarrow>
             case strip_suffix ''min'' value of Some n \<Rightarrow> (n, Minutes) | None \<Rightarrow>
             case strip_suffix ''h'' value of Some n \<Rightarrow> (n, Hours) | None \<Rightarrow>
             case strip_suffix ''d'' value of Some n \<Rightarrow> (n, Days) | None \<Rightarrow>
             case strip_suffix ''s'' value of Some n \<Rightarrow> (n, Seconds) | None \<Rightarrow> (value, Seconds)) in
      ok_or (secs (trim number) unit) (InvalidValue value))"

section \<open>Servers\<close>

definition valid_interface :: "string \<Rightarrow> bool" where
  "valid_interface value \<longleftrightarrow> value \<noteq> [] \<and> is_ascii value \<and> \<not> has_whitespace value
     \<and> CHR ''%'' \<notin> set value \<and> CHR ''#'' \<notin> set value"

definition valid_server_name :: "string \<Rightarrow> bool" where
  "valid_server_name value =
     (let value = (case strip_suffix ''.'' value of Some v \<Rightarrow> v | None \<Rightarrow> value) in
      value \<noteq> [] \<and> is_ascii value \<and> length value \<le> 253
      \<and> CHR ''%'' \<notin> set value \<and> CHR ''#'' \<notin> set value
      \<and> list_all (\<lambda>label. label \<noteq> [] \<and> length label \<le> 63) (split_on CHR ''.'' value))"

definition parse_server_spec :: "string \<Rightarrow> config_error + dns_server_spec" where
  "parse_server_spec value =
     (let original = trim value; invalid = InvalidServer value in
      if original = [] then Inl invalid
      else
        rbind (case split_once CHR ''#'' original of
                 Some (address, name) \<Rightarrow>
                   if valid_server_name name then Inr (address, Some name) else Inl invalid
               | None \<Rightarrow> Inr (original, None)) (\<lambda>(address_and_interface, server_name).
        rbind (case split_once CHR ''%'' address_and_interface of
                 Some (address, interface) \<Rightarrow>
                   if valid_interface interface then Inr (address, Some interface) else Inl invalid
               | None \<Rightarrow> Inr (address_and_interface, None)) (\<lambda>(address, interface).
        if CHR ''#'' \<in> set address \<or> CHR ''%'' \<in> set address then Inl invalid
        else
          rbind (ok_or (parse_address address) invalid) (\<lambda>address.
          Inr \<lparr>dss_address = address, dss_interface = interface, dss_server_name = server_name\<rparr>))))"

definition parse_server :: "string \<Rightarrow> config_error + socket_addr" where
  "parse_server value = rbind (parse_server_spec value) (\<lambda>spec. Inr (dss_address spec))"

fun add_server_specs ::
  "string list \<Rightarrow> socket_addr list \<times> dns_server_spec list
   \<Rightarrow> (socket_addr list \<times> dns_server_spec list) \<times> (config_error + unit)" where
  "add_server_specs [] (addresses, specs) = ((addresses, specs), Inr ())"
| "add_server_specs (token # tokens) (addresses, specs) =
     (case parse_server_spec token of
        Inl e \<Rightarrow> ((addresses, specs), Inl e)
      | Inr spec \<Rightarrow> add_server_specs tokens (push_new addresses (dss_address spec), push_new specs spec))"

definition apply_server_spec_assignment ::
  "socket_addr list \<times> dns_server_spec list \<Rightarrow> string
   \<Rightarrow> (socket_addr list \<times> dns_server_spec list) \<times> (config_error + unit)" where
  "apply_server_spec_assignment dest value =
     (if value = [] then (([], []), Inr ()) else add_server_specs (split_whitespace value) dest)"

definition is_local_stub :: "socket_addr \<Rightarrow> bool" where
  "is_local_stub server =
     (case sock_ip server of
        V4 a \<Rightarrow> a = ipv4_new 127 0 0 53 \<or> a = ipv4_new 127 0 0 54
      | V6 a \<Rightarrow> ip_is_loopback (V6 a))"

definition filtered_servers :: "socket_addr list \<Rightarrow> socket_addr list" where
  "filtered_servers servers =
     fold (\<lambda>s out. if \<not> is_local_stub s \<and> s \<notin> set out then out @ [s] else out) servers []"

definition filtered_server_specs :: "socket_addr list \<Rightarrow> dns_server_spec list \<Rightarrow> dns_server_spec list" where
  "filtered_server_specs addresses specs =
     fold (\<lambda>a out.
       let matching = filter (\<lambda>spec. dss_address spec = a) specs in
       if matching = []
       then out @ [\<lparr>dss_address = a, dss_interface = None, dss_server_name = None\<rparr>]
       else push_all_new out matching)
       (filtered_servers addresses) []"

section \<open>Domains\<close>

fun add_domains :: "string list \<Rightarrow> domain list \<Rightarrow> domain list \<times> (config_error + unit)" where
  "add_domains [] out = (out, Inr ())"
| "add_domains (token # tokens) out =
     (let route_only = (take 1 token = ''~'');
          name = trim_end_matches CHR ''.'' (trim_start_matches CHR ''~'' token);
          name = (if name = [] then ''.'' else name) in
      if \<not> is_ascii name \<or> list_ex (\<lambda>label. length label > 63) (split_on CHR ''.'' name)
      then (out, Inl (InvalidValue token))
      else add_domains tokens
        (push_new out \<lparr>dom_name = to_ascii_lowercase name, dom_route_only = route_only\<rparr>))"

definition apply_domain_assignment :: "domain list \<Rightarrow> string \<Rightarrow> domain list \<times> (config_error + unit)" where
  "apply_domain_assignment dest value =
     (if value = [] then ([], Inr ()) else add_domains (split_whitespace value) dest)"

section \<open>Record types\<close>

definition record_type_names :: "(string \<times> u16) list" where
  "record_type_names =
     [(''A'', 1), (''NS'', 2), (''MD'', 3), (''MF'', 4), (''CNAME'', 5), (''SOA'', 6), (''MB'', 7),
      (''MG'', 8), (''MR'', 9), (''NULL'', 10), (''WKS'', 11), (''PTR'', 12), (''HINFO'', 13),
      (''MINFO'', 14), (''MX'', 15), (''TXT'', 16), (''RP'', 17), (''AFSDB'', 18), (''X25'', 19),
      (''ISDN'', 20), (''RT'', 21), (''NSAP'', 22), (''NSAP-PTR'', 23), (''SIG'', 24), (''KEY'', 25),
      (''PX'', 26), (''GPOS'', 27), (''AAAA'', 28), (''LOC'', 29), (''NXT'', 30), (''EID'', 31),
      (''NIMLOC'', 32), (''SRV'', 33), (''ATMA'', 34), (''NAPTR'', 35), (''KX'', 36), (''CERT'', 37),
      (''A6'', 38), (''DNAME'', 39), (''SINK'', 40), (''OPT'', 41), (''APL'', 42), (''DS'', 43),
      (''SSHFP'', 44), (''IPSECKEY'', 45), (''RRSIG'', 46), (''NSEC'', 47), (''DNSKEY'', 48),
      (''DHCID'', 49), (''NSEC3'', 50), (''NSEC3PARAM'', 51), (''TLSA'', 52), (''SMIMEA'', 53),
      (''HIP'', 55), (''NINFO'', 56), (''RKEY'', 57), (''TALINK'', 58), (''CDS'', 59), (''CDNSKEY'', 60),
      (''OPENPGPKEY'', 61), (''CSYNC'', 62), (''ZONEMD'', 63), (''SVCB'', 64), (''HTTPS'', 65),
      (''SPF'', 99), (''UINFO'', 100), (''UID'', 101), (''GID'', 102), (''UNSPEC'', 103), (''NID'', 104),
      (''L32'', 105), (''L64'', 106), (''LP'', 107), (''EUI48'', 108), (''EUI64'', 109), (''TKEY'', 249),
      (''TSIG'', 250), (''IXFR'', 251), (''AXFR'', 252), (''MAILB'', 253), (''MAILA'', 254), (''ANY'', 255),
      (''URI'', 256), (''CAA'', 257), (''AVC'', 258), (''DOA'', 259), (''AMTRELAY'', 260), (''RESINFO'', 261),
      (''TA'', 32768), (''DLV'', 32769)]"

text \<open>A slice at a byte index inside an encoded character panics.\<close>

definition is_char_boundary :: "string \<Rightarrow> nat \<Rightarrow> bool" where
  "is_char_boundary s i \<longleftrightarrow> i = length s \<or>
     (i < length s \<and> \<not> (0x80 \<le> byte_of_char (s ! i) \<and> byte_of_char (s ! i) < 0xC0))"

definition dns_record_type_from_string :: "string \<Rightarrow> u16 option option" where
  "dns_record_type_from_string value =
     (if length value > 4 \<and> \<not> is_char_boundary value 4 then None
      else if length value > 4 \<and> eq_ignore_ascii_case (take 4 value) ''TYPE''
      then Some (from_str_radix 10 (drop 4 value))
      else Some (map_of record_type_names value))"

fun add_record_types :: "string list \<Rightarrow> u16 set \<Rightarrow> u16 set option" where
  "add_record_types [] dest = Some dest"
| "add_record_types (token # tokens) dest =
     (case dns_record_type_from_string token of
        None \<Rightarrow> None
      | Some None \<Rightarrow> add_record_types tokens dest
      | Some (Some rr_type) \<Rightarrow> add_record_types tokens (insert rr_type dest))"

definition apply_refuse_record_types :: "u16 set \<Rightarrow> string \<Rightarrow> u16 set option" where
  "apply_refuse_record_types dest value =
     (if value = [] then Some {} else add_record_types (split_whitespace value) dest)"

section \<open>The configuration\<close>

record config =
  cfg_upstreams :: "socket_addr list"
  cfg_upstream_specs :: "dns_server_spec list"
  cfg_fallback_upstreams :: "socket_addr list"
  cfg_fallback_upstream_specs :: "dns_server_spec list"
  cfg_listeners :: "socket_addr list"
  cfg_proxy_listeners :: "socket_addr list"
  cfg_dns_stub_listener :: stub_listener_mode
  cfg_dns_stub_listener_extra :: "stub_listener_extra list"
  cfg_domains :: "domain list"
  cfg_refuse_record_types :: "u16 set"
  cfg_varlink_path :: string
  cfg_runtime_directory :: string
  cfg_hosts_path :: string
  cfg_cache :: bool
  cfg_cache_negative :: bool
  cfg_cache_from_localhost :: bool
  cfg_cache_size :: nat
  cfg_llmnr_cache_size :: nat
  cfg_multicast_dns_cache_size :: nat
  cfg_cache_max_ttl :: nat
  cfg_stale_retention :: nat
  cfg_query_timeout :: nat
  cfg_attempts :: nat
  cfg_workers :: nat
  cfg_read_etc_hosts :: bool
  cfg_read_static_records :: bool
  cfg_resolve_unicast_single_label :: bool
  cfg_llmnr :: support_mode
  cfg_multicast_dns :: support_mode
  cfg_dnssec :: validation_mode
  cfg_dns_over_tls :: tls_mode

abbreviation nanos :: "nat \<Rightarrow> nat" where "nanos seconds \<equiv> seconds * 1000000000"

definition config_default :: config where
  "config_default = \<lparr>
     cfg_upstreams = [], cfg_upstream_specs = [],
     cfg_fallback_upstreams =
       [SocketV4 (ipv4_new 1 1 1 1) 53, SocketV4 (ipv4_new 8 8 8 8) 53, SocketV4 (ipv4_new 9 9 9 9) 53,
        SocketV4 (ipv4_new 1 0 0 1) 53, SocketV4 (ipv4_new 8 8 4 4) 53, SocketV4 (ipv4_new 149 112 112 112) 53,
        SocketV6 (ipv6_new [0x2606, 0x4700, 0x4700, 0, 0, 0, 0, 0x1111]) 53 0 0,
        SocketV6 (ipv6_new [0x2001, 0x4860, 0x4860, 0, 0, 0, 0, 0x8888]) 53 0 0,
        SocketV6 (ipv6_new [0x2620, 0xfe, 0, 0, 0, 0, 0, 0xfe]) 53 0 0,
        SocketV6 (ipv6_new [0x2606, 0x4700, 0x4700, 0, 0, 0, 0, 0x1001]) 53 0 0,
        SocketV6 (ipv6_new [0x2001, 0x4860, 0x4860, 0, 0, 0, 0, 0x8844]) 53 0 0,
        SocketV6 (ipv6_new [0x2620, 0xfe, 0, 0, 0, 0, 0, 9]) 53 0 0],
     cfg_fallback_upstream_specs = [],
     cfg_listeners = [SocketV4 (ipv4_new 127 0 0 53) 53],
     cfg_proxy_listeners = [SocketV4 (ipv4_new 127 0 0 54) 53],
     cfg_dns_stub_listener = StubYes, cfg_dns_stub_listener_extra = [],
     cfg_domains = [], cfg_refuse_record_types = {},
     cfg_varlink_path = ''/run/systemd/resolve/io.systemd.Resolve'',
     cfg_runtime_directory = ''/run/systemd/resolve'', cfg_hosts_path = ''/etc/hosts'',
     cfg_cache = True, cfg_cache_negative = True, cfg_cache_from_localhost = False,
     cfg_cache_size = 4096, cfg_llmnr_cache_size = 4096, cfg_multicast_dns_cache_size = 4096,
     cfg_cache_max_ttl = nanos (2 * 60 * 60), cfg_stale_retention = 0, cfg_query_timeout = nanos 5,
     cfg_attempts = 24, cfg_workers = 4,
     cfg_read_etc_hosts = True, cfg_read_static_records = True, cfg_resolve_unicast_single_label = False,
     cfg_llmnr = SupportYes, cfg_multicast_dns = SupportYes,
     cfg_dnssec = AllowDowngrade, cfg_dns_over_tls = TlsNo\<rparr>"

definition validate_config :: "config \<Rightarrow> config_error + unit" where
  "validate_config c =
     (if cfg_attempts c = 0 \<or> cfg_attempts c > 32
      then Inl (InvalidValue ''Attempts must be between 1 and 32'')
      else if cfg_workers c = 0 \<or> cfg_workers c > 4096
      then Inl (InvalidValue ''Workers must be between 1 and 4096'')
      else
        case find (\<lambda>(name, size). size > 2 ^ 24)
               [(''DNSCacheSize'', cfg_cache_size c), (''LLMNRCacheSize'', cfg_llmnr_cache_size c),
                (''MulticastDNSCacheSize'', cfg_multicast_dns_cache_size c)] of
          Some (name, _) \<Rightarrow> Inl (InvalidValue (name @ '' must not exceed 16777216''))
        | None \<Rightarrow>
            if cfg_query_timeout c = 0
            then Inl (InvalidValue ''QueryTimeoutSec must be greater than zero'')
            else Inr ())"

text \<open>\<open>assign\<close> stores a parsed value, \<open>settle\<close> a list that is updated also on error.\<close>

type_synonym setting_result = "(config \<times> (config_error + unit)) option"

definition assign :: "config \<Rightarrow> config_error + 'a \<Rightarrow> ('a \<Rightarrow> config) \<Rightarrow> setting_result" where
  "assign c r store = Some (case r of Inl e \<Rightarrow> (c, Inl e) | Inr v \<Rightarrow> (store v, Inr ()))"

definition settle :: "'a \<times> (config_error + unit) \<Rightarrow> ('a \<Rightarrow> config) \<Rightarrow> setting_result" where
  "settle r store = Some (store (fst r), snd r)"

definition apply_setting :: "seconds_f64 \<Rightarrow> config \<Rightarrow> string \<Rightarrow> string \<Rightarrow> setting_result" where
  "apply_setting secs c key value =
     (if key = ''DNS'' then
        settle (apply_server_spec_assignment (cfg_upstreams c, cfg_upstream_specs c) value)
          (\<lambda>(a, s). c\<lparr>cfg_upstreams := a, cfg_upstream_specs := s\<rparr>)
      else if key = ''FallbackDNS'' then
        settle (apply_server_spec_assignment (cfg_fallback_upstreams c, cfg_fallback_upstream_specs c) value)
          (\<lambda>(a, s). c\<lparr>cfg_fallback_upstreams := a, cfg_fallback_upstream_specs := s\<rparr>)
      else if key = ''Domains'' then
        settle (apply_domain_assignment (cfg_domains c) value) (\<lambda>d. c\<lparr>cfg_domains := d\<rparr>)
      else if key = ''RefuseRecordTypes'' then
        map_option (\<lambda>ts. (c\<lparr>cfg_refuse_record_types := ts\<rparr>, Inr ()))
          (apply_refuse_record_types (cfg_refuse_record_types c) value)
      else if key = ''Cache'' then
        assign c (parse_cache_mode value) (\<lambda>(b, n). c\<lparr>cfg_cache := b, cfg_cache_negative := n\<rparr>)
      else if key = ''CacheFromLocalhost'' then
        assign c (parse_bool value) (\<lambda>v. c\<lparr>cfg_cache_from_localhost := v\<rparr>)
      else if key = ''DNSCacheSize'' then
        assign c (parse_cache_size value) (\<lambda>v. c\<lparr>cfg_cache_size := v\<rparr>)
      else if key = ''LLMNRCacheSize'' then
        assign c (parse_cache_size value) (\<lambda>v. c\<lparr>cfg_llmnr_cache_size := v\<rparr>)
      else if key = ''MulticastDNSCacheSize'' then
        assign c (parse_cache_size value) (\<lambda>v. c\<lparr>cfg_multicast_dns_cache_size := v\<rparr>)
      else if key = ''CacheMaxTTL'' \<or> key = ''CacheMaxTTLSec'' then
        assign c (parse_duration secs value) (\<lambda>v. c\<lparr>cfg_cache_max_ttl := v\<rparr>)
      else if key = ''StaleRetentionSec'' then
        assign c (parse_duration secs value) (\<lambda>v. c\<lparr>cfg_stale_retention := v\<rparr>)
      else if key = ''QueryTimeoutSec'' then
        assign c (parse_duration secs value) (\<lambda>v. c\<lparr>cfg_query_timeout := v\<rparr>)
      else if key = ''Attempts'' then
        assign c (ok_or (parse_usize value) (InvalidValue value)) (\<lambda>v. c\<lparr>cfg_attempts := v\<rparr>)
      else if key = ''Workers'' then
        assign c (ok_or (parse_usize value) (InvalidValue value)) (\<lambda>v. c\<lparr>cfg_workers := v\<rparr>)
      else if key = ''LLMNR'' then
        assign c (support_mode_parse value) (\<lambda>v. c\<lparr>cfg_llmnr := v\<rparr>)
      else if key = ''MulticastDNS'' then
        assign c (support_mode_parse value) (\<lambda>v. c\<lparr>cfg_multicast_dns := v\<rparr>)
      else if key = ''DNSSEC'' then
        assign c (validation_mode_parse value) (\<lambda>v. c\<lparr>cfg_dnssec := v\<rparr>)
      else if key = ''DNSOverTLS'' then
        assign c (tls_mode_parse value) (\<lambda>v. c\<lparr>cfg_dns_over_tls := v\<rparr>)
      else if key = ''ReadEtcHosts'' then
        assign c (parse_bool value) (\<lambda>v. c\<lparr>cfg_read_etc_hosts := v\<rparr>)
      else if key = ''ReadStaticRecords'' then
        assign c (parse_bool value) (\<lambda>v. c\<lparr>cfg_read_static_records := v\<rparr>)
      else if key = ''ResolveUnicastSingleLabel'' then
        assign c (parse_bool value) (\<lambda>v. c\<lparr>cfg_resolve_unicast_single_label := v\<rparr>)
      else if key = ''DNSStubListener'' then
        assign c (stub_listener_mode_parse value) (\<lambda>v. c\<lparr>cfg_dns_stub_listener := v\<rparr>)
      else if key = ''DNSStubListenerExtra'' then
        (if value = [] then Some (c\<lparr>cfg_dns_stub_listener_extra := []\<rparr>, Inr ())
         else assign c (stub_listener_extra_parse value)
           (\<lambda>l. c\<lparr>cfg_dns_stub_listener_extra := push_new (cfg_dns_stub_listener_extra c) l\<rparr>))
      else Some (c, Inr ()))"

record config_assignments =
  asg_dns :: bool
  asg_domains :: bool

definition no_assignments :: config_assignments where
  "no_assignments = \<lparr>asg_dns = False, asg_domains = False\<rparr>"

definition merge_assignments :: "config_assignments \<Rightarrow> config_assignments \<Rightarrow> config_assignments" where
  "merge_assignments a b = \<lparr>asg_dns = (asg_dns a \<or> asg_dns b), asg_domains = (asg_domains a \<or> asg_domains b)\<rparr>"

type_synonym text_result = "(config \<times> (config_error + config_assignments)) option"

definition is_skipped :: "string \<Rightarrow> bool" where
  "is_skipped line \<longleftrightarrow> line = [] \<or> hd line = CHR ''#'' \<or> hd line = CHR '';''"

text \<open>The lines from the given index on, with the section flag and the assignments so far.\<close>

fun apply_lines ::
  "seconds_f64 \<Rightarrow> nat \<Rightarrow> string list \<Rightarrow> bool \<Rightarrow> config_assignments \<Rightarrow> config \<Rightarrow> text_result" where
  "apply_lines secs index [] resolve_section asg c =
     Some (c, rbind (validate_config c) (\<lambda>_. Inr asg))"
| "apply_lines secs index (raw_line # ls) resolve_section asg c =
     (let line = trim raw_line in
      if is_skipped line then apply_lines secs (index + 1) ls resolve_section asg c
      else if hd line = CHR ''['' \<and> last line = CHR '']'' then
        apply_lines secs (index + 1) ls (butlast (tl line) = ''Resolve'') asg c
      else if \<not> resolve_section then apply_lines secs (index + 1) ls resolve_section asg c
      else
        case split_once CHR ''='' line of
          None \<Rightarrow> Some (c, Inl (ConfigLine (index + 1) ''expected key=value''))
        | Some (key, value) \<Rightarrow>
            (let key = trim key in
             case apply_setting secs c key (trim value) of
               None \<Rightarrow> None
             | Some (c, Inl e) \<Rightarrow> Some (c, Inl (ConfigLine (index + 1) (config_error_text e)))
             | Some (c, Inr _) \<Rightarrow>
                 apply_lines secs (index + 1) ls resolve_section
                   (if key = ''DNS'' then asg\<lparr>asg_dns := True\<rparr>
                    else if key = ''Domains'' then asg\<lparr>asg_domains := True\<rparr> else asg) c))"

definition apply_text_tracking :: "seconds_f64 \<Rightarrow> config \<Rightarrow> string \<Rightarrow> text_result" where
  "apply_text_tracking secs c text_arg = apply_lines secs 0 (lines text_arg) False no_assignments c"

definition apply_text :: "seconds_f64 \<Rightarrow> config \<Rightarrow> string \<Rightarrow> setting_result" where
  "apply_text secs c text_arg =
     map_option (\<lambda>(c, r). (c, rbind r (\<lambda>_. Inr ()))) (apply_text_tracking secs c text_arg)"

section \<open>Loading\<close>

record resolv_conf =
  rc_servers :: "socket_addr list"
  rc_domains :: "domain list"

definition resolv_conf_default :: resolv_conf where
  "resolv_conf_default = \<lparr>rc_servers = [], rc_domains = []\<rparr>"

definition resolv_conf_line :: "string \<Rightarrow> resolv_conf \<Rightarrow> resolv_conf" where
  "resolv_conf_line raw_line out =
     (let line = trim raw_line in
      if is_skipped line then out
      else
        case split_whitespace line of
          [] \<Rightarrow> out
        | keyword # rest \<Rightarrow>
            if keyword = ''nameserver'' then
              (case rest of
                 [] \<Rightarrow> out
               | value # _ \<Rightarrow>
                   (case parse_server value of
                      Inl _ \<Rightarrow> out
                    | Inr server \<Rightarrow>
                        if \<not> is_local_stub server \<and> server \<notin> set (rc_servers out)
                        then out\<lparr>rc_servers := rc_servers out @ [server]\<rparr> else out))
            else if keyword = ''domain'' \<or> keyword = ''search'' then
              (let value = join_with '' '' rest in
               if value = [] then out
               else out\<lparr>rc_domains := fst (apply_domain_assignment (rc_domains out) value)\<rparr>)
            else out)"

text \<open>What reading a file gives: its text, that it does not exist, or an error.\<close>

datatype file_read = FileText string | FileMissing | FileError string

definition discover_resolv_conf_state :: "file_read \<Rightarrow> config_error + resolv_conf" where
  "discover_resolv_conf_state file =
     (case file of
        FileText t \<Rightarrow> Inr (fold resolv_conf_line (lines t) resolv_conf_default)
      | FileMissing \<Rightarrow> Inr resolv_conf_default
      | FileError e \<Rightarrow> Inl (ConfigIo e))"

definition discover_resolv_conf :: "file_read \<Rightarrow> config_error + socket_addr list" where
  "discover_resolv_conf file = rbind (discover_resolv_conf_state file) (\<lambda>rc. Inr (rc_servers rc))"

definition apply_optional_file :: "seconds_f64 \<Rightarrow> config \<Rightarrow> file_read \<Rightarrow> text_result" where
  "apply_optional_file secs c file =
     (case file of
        FileText t \<Rightarrow> apply_text_tracking secs c t
      | FileMissing \<Rightarrow> Some (c, Inr no_assignments)
      | FileError e \<Rightarrow> Some (c, Inl (ConfigIo e)))"

fun apply_drop_ins ::
  "seconds_f64 \<Rightarrow> file_read list \<Rightarrow> config_assignments \<Rightarrow> config \<Rightarrow> text_result" where
  "apply_drop_ins secs [] asg c = Some (c, Inr asg)"
| "apply_drop_ins secs (file # files) asg c =
     (case apply_optional_file secs c file of
        None \<Rightarrow> None
      | Some (c, Inl e) \<Rightarrow> Some (c, Inl e)
      | Some (c, Inr a) \<Rightarrow> apply_drop_ins secs files (merge_assignments asg a) c)"

text \<open>The texts of the two credentials, if they can be read; errors in them are ignored.\<close>

definition apply_credentials :: "string option \<Rightarrow> string option \<Rightarrow> config \<Rightarrow> config \<times> bool" where
  "apply_credentials dns domains c =
     (let present = dns \<noteq> None \<or> domains \<noteq> None;
          c = (case dns of None \<Rightarrow> c | Some dns \<Rightarrow>
                 let (a, s) = fst (apply_server_spec_assignment (cfg_upstreams c, cfg_upstream_specs c) (trim dns)) in
                 c\<lparr>cfg_upstreams := a, cfg_upstream_specs := s\<rparr>);
          c = (case domains of None \<Rightarrow> c | Some domains \<Rightarrow>
                 c\<lparr>cfg_domains := fst (apply_domain_assignment (cfg_domains c) (trim domains))\<rparr>) in
      (c, present))"

text \<open>
  The environment of a load: the main file, the drop-in files in order of their names (or the
  error of listing them), the credentials and the system's \<open>resolv.conf\<close>.
\<close>

record config_sources =
  src_main :: file_read
  src_drop_ins :: "config_error + file_read list"
  src_credential_dns :: "string option"
  src_credential_domains :: "string option"
  src_resolv_conf :: file_read

definition load_external :: "config_sources \<Rightarrow> config_assignments \<Rightarrow> config \<Rightarrow> config_error + config" where
  "load_external src asg c =
     (let may_read_external_configuration = \<not> asg_dns asg \<and> \<not> asg_domains asg;
          (c, credentials_present) =
            (if may_read_external_configuration
             then apply_credentials (src_credential_dns src) (src_credential_domains src) c
             else (c, False)) in
      rbind
        (if may_read_external_configuration \<and> \<not> credentials_present then
           rbind (discover_resolv_conf_state (src_resolv_conf src)) (\<lambda>discovered.
           let c = (if cfg_upstreams c = [] then c\<lparr>cfg_upstreams := rc_servers discovered\<rparr> else c);
               c = (if cfg_domains c = [] then c\<lparr>cfg_domains := rc_domains discovered\<rparr> else c) in
           Inr c)
         else Inr c) (\<lambda>c.
      rbind (validate_config c) (\<lambda>_. Inr c)))"

definition config_load :: "seconds_f64 \<Rightarrow> config_sources \<Rightarrow> (config_error + config) option" where
  "config_load secs src =
     (case apply_optional_file secs config_default (src_main src) of
        None \<Rightarrow> None
      | Some (c, Inl e) \<Rightarrow> Some (Inl e)
      | Some (c, Inr asg) \<Rightarrow>
          (case src_drop_ins src of
             Inl e \<Rightarrow> Some (Inl e)
           | Inr files \<Rightarrow>
               (case apply_drop_ins secs files asg c of
                  None \<Rightarrow> None
                | Some (c, Inl e) \<Rightarrow> Some (Inl e)
                | Some (c, Inr asg) \<Rightarrow> Some (load_external src asg c))))"

section \<open>Servers in use\<close>

definition configured_upstreams :: "config \<Rightarrow> socket_addr list" where
  "configured_upstreams c = filtered_servers (cfg_upstreams c)"

definition configured_upstream_specs :: "config \<Rightarrow> dns_server_spec list" where
  "configured_upstream_specs c = filtered_server_specs (cfg_upstreams c) (cfg_upstream_specs c)"

definition configured_fallback_upstreams :: "config \<Rightarrow> socket_addr list" where
  "configured_fallback_upstreams c = filtered_servers (cfg_fallback_upstreams c)"

definition configured_fallback_upstream_specs :: "config \<Rightarrow> dns_server_spec list" where
  "configured_fallback_upstream_specs c =
     filtered_server_specs (cfg_fallback_upstreams c) (cfg_fallback_upstream_specs c)"

definition effective_upstreams :: "config \<Rightarrow> socket_addr list" where
  "effective_upstreams c =
     (let upstreams = configured_upstreams c in
      if upstreams = [] then configured_fallback_upstreams c else upstreams)"

definition effective_upstream_specs :: "config \<Rightarrow> dns_server_spec list" where
  "effective_upstream_specs c =
     (let upstreams = configured_upstream_specs c in
      if upstreams = [] then configured_fallback_upstream_specs c else upstreams)"

section \<open>Texts of addresses\<close>

text \<open>\<open>Display\<close> of an IPv6 address: the first longest run of at least two zero groups is elided.\<close>

definition v6_segments :: "ipv6 \<Rightarrow> u16 list" where
  "v6_segments a = map (\<lambda>i. ucast (drop_bit (16 * (7 - i)) a)) [0..<8]"

fun longest_zero_run :: "nat \<Rightarrow> u16 list \<Rightarrow> nat \<times> nat \<Rightarrow> nat \<times> nat \<Rightarrow> nat \<times> nat" where
  "longest_zero_run i [] longest current = longest"
| "longest_zero_run i (g # gs) longest current =
     (if g = 0 then
        (let current = (if snd current = 0 then i else fst current, snd current + 1) in
         longest_zero_run (i + 1) gs (if snd current > snd longest then current else longest) current)
      else longest_zero_run (i + 1) gs longest (0, 0))"

definition show_groups :: "u16 list \<Rightarrow> string" where
  "show_groups gs = join_with '':'' (map (\<lambda>g. show_hex (unat g)) gs)"

definition show_ipv6 :: "ipv6 \<Rightarrow> string" where
  "show_ipv6 a =
     (let gs = v6_segments a in
      if take 6 gs = [0, 0, 0, 0, 0, 0xffff] then ''::ffff:'' @ show_ipv4 (ucast a)
      else
        let (start, len) = longest_zero_run 0 gs (0, 0) (0, 0) in
        if len > 1 then show_groups (take start gs) @ ''::'' @ show_groups (drop (start + len) gs)
        else show_groups gs)"

definition show_ip_addr :: "ip_addr \<Rightarrow> string" where
  "show_ip_addr ip = (case ip of V4 a \<Rightarrow> show_ipv4 a | V6 a \<Rightarrow> show_ipv6 a)"

section \<open>Published files\<close>

abbreviation managed_comment :: string where
  "managed_comment \<equiv> ''# This file is managed by systemd-resolved-rs.''"

abbreviation text_line :: "string \<Rightarrow> string" where "text_line l \<equiv> l @ [line_feed]"

definition published_search :: "config \<Rightarrow> string list" where
  "published_search c = map dom_name (filter (\<lambda>d. \<not> dom_route_only d \<and> dom_name d \<noteq> ''.'') (cfg_domains c))"

definition search_line :: "string list \<Rightarrow> string" where
  "search_line domains = (if domains = [] then [] else text_line (''search '' @ join_with '' '' domains))"

definition stub_resolv_conf_text :: "config \<Rightarrow> string" where
  "stub_resolv_conf_text c =
     text_line managed_comment @ text_line ''nameserver 127.0.0.53'' @ text_line ''options edns0 trust-ad'' @
     search_line (published_search c)"

definition uplink_resolv_conf_text :: "config \<Rightarrow> string" where
  "uplink_resolv_conf_text c =
     text_line managed_comment @
     concat (map (\<lambda>s. text_line (''nameserver '' @ show_ip_addr (sock_ip s))) (effective_upstreams c)) @
     search_line (published_search c)"

end
