(* ===== verification/Config_Props.thy ===== *)
theory Config_Props
  imports Config
begin

text \<open>
  Correctness of the configuration: what every loaded configuration satisfies, how the lists of
  servers in use relate to their specifications, the published \<open>resolv.conf\<close> files read back,
  and the inputs on which the parser of record types panics.
\<close>

section \<open>Well-formed configurations\<close>

definition spec_wf :: "dns_server_spec \<Rightarrow> bool" where
  "spec_wf s \<longleftrightarrow> (\<forall>i. dss_interface s = Some i \<longrightarrow> valid_interface i) \<and>
     (\<forall>n. dss_server_name s = Some n \<longrightarrow> valid_server_name n)"

definition servers_wf :: "socket_addr list \<Rightarrow> dns_server_spec list \<Rightarrow> bool" where
  "servers_wf addresses specs \<longleftrightarrow> distinct addresses \<and> distinct specs \<and>
     (\<forall>s \<in> set specs. dss_address s \<in> set addresses \<and> spec_wf s)"

definition domain_wf :: "domain \<Rightarrow> bool" where
  "domain_wf d \<longleftrightarrow> dom_name d = ''.'' \<or>
     (plain_word (dom_name d) \<and> to_ascii_lowercase (dom_name d) = dom_name d \<and>
      hd (dom_name d) \<noteq> CHR ''~'' \<and> last (dom_name d) \<noteq> CHR ''.'' \<and>
      (\<forall>label \<in> set (split_on CHR ''.'' (dom_name d)). length label \<le> 63))"

definition domains_wf :: "domain list \<Rightarrow> bool" where
  "domains_wf ds \<longleftrightarrow> distinct ds \<and> (\<forall>d \<in> set ds. domain_wf d)"

definition config_wf :: "config \<Rightarrow> bool" where
  "config_wf c \<longleftrightarrow>
     servers_wf (cfg_upstreams c) (cfg_upstream_specs c) \<and>
     servers_wf (cfg_fallback_upstreams c) (cfg_fallback_upstream_specs c) \<and>
     domains_wf (cfg_domains c) \<and> distinct (cfg_dns_stub_listener_extra c) \<and>
     (cfg_cache_negative c \<longrightarrow> cfg_cache c)"

lemma servers_wf_Nil [simp]: "servers_wf [] []"
  by (simp add: servers_wf_def)

lemma domains_wf_Nil [simp]: "domains_wf []"
  by (simp add: domains_wf_def)

lemma parse_server_spec_wf: "parse_server_spec val = Inr spec \<Longrightarrow> spec_wf spec"
  unfolding parse_server_spec_def Let_def
  by (auto simp: spec_wf_def result_simps split: if_splits option.splits prod.splits)

lemma add_server_specs_wf:
  "servers_wf (fst dest) (snd dest) \<Longrightarrow>
   servers_wf (fst (fst (add_server_specs tokens dest))) (snd (fst (add_server_specs tokens dest)))"
proof (induction tokens dest rule: add_server_specs.induct)
  case (2 token tokens addresses specs)
  show ?case
  proof (cases "parse_server_spec token")
    case (Inl e)
    then show ?thesis using 2 by simp
  next
    case (Inr spec)
    have "servers_wf (push_new addresses (dss_address spec)) (push_new specs spec)"
      using 2(2) parse_server_spec_wf[OF Inr] by (auto simp: servers_wf_def)
    then show ?thesis using 2(1)[OF Inr] Inr by simp
  qed
qed simp

lemma apply_server_spec_assignment_wf:
  "servers_wf a s \<Longrightarrow> fst (apply_server_spec_assignment (a, s) val) = (a', s') \<Longrightarrow> servers_wf a' s'"
proof (cases "val = []")
  case False
  moreover assume "servers_wf a s" "fst (apply_server_spec_assignment (a, s) val) = (a', s')"
  ultimately show ?thesis
    using add_server_specs_wf[of "(a, s)" "split_whitespace val"] by (simp add: apply_server_spec_assignment_def)
qed (simp add: apply_server_spec_assignment_def)

lemma char_lower_tilde: "char_lower c = CHR ''~'' \<longleftrightarrow> c = CHR ''~''"
  by (simp add: char_eq_iff_nat of_char_lower Let_def)

lemma plain_char_lower: "plain_char c \<Longrightarrow> plain_char (char_lower c)"
  by (auto simp: plain_char_def ascii_whitespace_def char_eq_iff_nat of_char_lower Let_def)

lemma trim_start_matches_hd: "trim_start_matches c s \<noteq> [] \<Longrightarrow> hd (trim_start_matches c s) \<noteq> c"
  using hd_dropWhile[of "\<lambda>x. x = c" s] unfolding trim_start_matches_def by blast

lemma trim_end_matches_prefix: "\<exists>t. s = trim_end_matches c s @ t"
proof (induction s rule: rev_induct)
  case (snoc x s)
  show ?case
  proof (cases "x = c")
    case True
    then show ?thesis using snoc by (metis append.assoc trim_end_matches_snoc)
  next
    case False
    then show ?thesis by (simp add: trim_end_matches_id)
  qed
qed (simp add: trim_end_matches_def)

lemma token_name_wf:
  assumes token: "token \<in> set (split_whitespace val)"
    and name: "name = trim_end_matches CHR ''.'' (trim_start_matches CHR ''~'' token)"
    and ok: "is_ascii name" "name \<noteq> []" "\<not> list_ex (\<lambda>label. length label > 63) (split_on CHR ''.'' name)"
  shows "domain_wf \<lparr>dom_name = to_ascii_lowercase name, dom_route_only = r\<rparr>"
proof -
  let ?t = "trim_start_matches CHR ''~'' token"
  obtain rest where rest: "?t = name @ rest" using trim_end_matches_prefix name by metis
  have "?t \<noteq> []" using rest ok(2) by simp
  then have hd_name: "hd name \<noteq> CHR ''~''" using trim_start_matches_hd[of "CHR ''~''" token] rest ok(2) by simp
  have last_name: "last name \<noteq> CHR ''.''" using trim_end_matches_last[of "CHR ''.''" ?t] ok(2) name by simp
  have "set name \<subseteq> set token"
    using rest set_dropWhileD[of _ "\<lambda>x. x = CHR ''~''" token] by (fastforce simp: trim_start_matches_def)
  then have plain: "list_all plain_char name"
    using split_whitespace_words[OF token] ok(1) by (fastforce simp: list_all_iff is_ascii_def plain_char_def)
  have lower: "list_all plain_char (to_ascii_lowercase name)"
    using plain by (auto simp: list_all_iff intro: plain_char_lower)
  have dot: "char_lower CHR ''.'' = CHR ''.''" by (simp add: lower_dot_iff)
  have labels: "split_on CHR ''.'' (to_ascii_lowercase name) = map to_ascii_lowercase (split_on CHR ''.'' name)"
    using split_on_map[of char_lower "CHR ''.''" name] lower_dot_iff unfolding dot by blast
  have "to_ascii_lowercase (to_ascii_lowercase name) = to_ascii_lowercase name" by simp
  moreover have "hd (to_ascii_lowercase name) \<noteq> CHR ''~''" "last (to_ascii_lowercase name) \<noteq> CHR ''.''"
    using hd_name last_name ok(2) by (simp_all add: hd_map last_map char_lower_tilde lower_dot_iff)
  moreover have "\<forall>label \<in> set (map to_ascii_lowercase (split_on CHR ''.'' name)). length label \<le> 63"
    using ok(3) by (auto simp: list_ex_iff not_less)
  ultimately show ?thesis
    unfolding domain_wf_def plain_word_def using lower ok(2) labels by (auto simp del: map_map)
qed

lemma add_domains_wf:
  assumes "set tokens \<subseteq> set (split_whitespace val)" "domains_wf out"
  shows "domains_wf (fst (add_domains tokens out))"
  using assms
proof (induction tokens arbitrary: out)
  case (Cons token tokens)
  let ?n = "trim_end_matches CHR ''.'' (trim_start_matches CHR ''~'' token)"
  let ?name = "if ?n = [] then ''.'' else ?n"
  let ?d = "\<lparr>dom_name = to_ascii_lowercase ?name, dom_route_only = take 1 token = ''~''\<rparr>"
  show ?case
  proof (cases "\<not> is_ascii ?name \<or> list_ex (\<lambda>label. length label > 63) (split_on CHR ''.'' ?name)")
    case True
    then show ?thesis unfolding add_domains.simps Let_def using Cons.prems by (simp only: if_True fst_conv)
  next
    case False
    have "domain_wf ?d"
    proof (cases "?n = []")
      case True
      have "char_lower CHR ''.'' = CHR ''.''" by (simp add: lower_dot_iff)
      then show ?thesis using True by (simp add: domain_wf_def)
    next
      case ne: False
      then show ?thesis using False token_name_wf[of token val ?n] Cons.prems(1) by simp
    qed
    then have "domains_wf (push_new out ?d)" using Cons.prems(2) by (auto simp: domains_wf_def)
    with Cons.IH Cons.prems(1) have "domains_wf (fst (add_domains tokens (push_new out ?d)))" by simp
    then show ?thesis unfolding add_domains.simps Let_def if_not_P[OF False] .
  qed
qed simp

lemma apply_domain_assignment_wf: "domains_wf ds \<Longrightarrow> domains_wf (fst (apply_domain_assignment ds val))"
  using add_domains_wf[of "split_whitespace val" val ds] by (simp add: apply_domain_assignment_def)

lemma assignD: "assign c r store = Some (c', x) \<Longrightarrow> c' = c \<or> (\<exists>v. r = Inr v \<and> c' = store v)"
  by (auto simp: assign_def split: sum.splits)

lemma settleD: "settle r store = Some (c', x) \<Longrightarrow> c' = store (fst r)"
  by (simp add: settle_def)

lemma parse_cache_mode_wf: "parse_cache_mode val = Inr (b, n) \<Longrightarrow> n \<Longrightarrow> b"
  by (auto simp: parse_cache_mode_def Let_def split: if_splits)

lemma config_wf_servers:
  "config_wf c \<Longrightarrow> fst (apply_server_spec_assignment (cfg_upstreams c, cfg_upstream_specs c) val) = (a, s) \<Longrightarrow>
     config_wf (c\<lparr>cfg_upstreams := a, cfg_upstream_specs := s\<rparr>)"
  "config_wf c \<Longrightarrow> fst (apply_server_spec_assignment (cfg_fallback_upstreams c, cfg_fallback_upstream_specs c) val) = (a, s) \<Longrightarrow>
     config_wf (c\<lparr>cfg_fallback_upstreams := a, cfg_fallback_upstream_specs := s\<rparr>)"
  using apply_server_spec_assignment_wf by (auto simp: config_wf_def)

lemma config_wf_domains:
  "config_wf c \<Longrightarrow> config_wf (c\<lparr>cfg_domains := fst (apply_domain_assignment (cfg_domains c) val)\<rparr>)"
  by (simp add: config_wf_def apply_domain_assignment_wf)

lemma if_elim: "(if b then x else y) = z \<Longrightarrow> (x = z \<Longrightarrow> P) \<Longrightarrow> (y = z \<Longrightarrow> P) \<Longrightarrow> P"
  by (simp split: if_splits)

lemma assign_wf:
  "assign c x store = Some (c', r) \<Longrightarrow> config_wf c \<Longrightarrow> (\<And>v. x = Inr v \<Longrightarrow> config_wf (store v)) \<Longrightarrow> config_wf c'"
  using assignD by blast

text \<open>The fields that the invariant does not mention.\<close>

lemma config_wf_other:
  assumes "config_wf c"
  shows "config_wf (c\<lparr>cfg_refuse_record_types := t\<rparr>)" "config_wf (c\<lparr>cfg_cache_from_localhost := b\<rparr>)"
    "config_wf (c\<lparr>cfg_cache_size := n\<rparr>)" "config_wf (c\<lparr>cfg_llmnr_cache_size := n\<rparr>)"
    "config_wf (c\<lparr>cfg_multicast_dns_cache_size := n\<rparr>)" "config_wf (c\<lparr>cfg_cache_max_ttl := n\<rparr>)"
    "config_wf (c\<lparr>cfg_stale_retention := n\<rparr>)" "config_wf (c\<lparr>cfg_query_timeout := n\<rparr>)"
    "config_wf (c\<lparr>cfg_attempts := n\<rparr>)" "config_wf (c\<lparr>cfg_workers := n\<rparr>)" "config_wf (c\<lparr>cfg_llmnr := m\<rparr>)"
    "config_wf (c\<lparr>cfg_multicast_dns := m\<rparr>)" "config_wf (c\<lparr>cfg_dnssec := d\<rparr>)" "config_wf (c\<lparr>cfg_dns_over_tls := l\<rparr>)"
    "config_wf (c\<lparr>cfg_read_etc_hosts := b\<rparr>)" "config_wf (c\<lparr>cfg_read_static_records := b\<rparr>)"
    "config_wf (c\<lparr>cfg_resolve_unicast_single_label := b\<rparr>)" "config_wf (c\<lparr>cfg_dns_stub_listener := s\<rparr>)"
    "config_wf (c\<lparr>cfg_dns_stub_listener_extra := []\<rparr>)"
    "config_wf (c\<lparr>cfg_dns_stub_listener_extra := push_new (cfg_dns_stub_listener_extra c) e\<rparr>)"
  using assms by (simp_all add: config_wf_def)

lemma settle_servers_wf:
  "settle (apply_server_spec_assignment (cfg_upstreams c, cfg_upstream_specs c) val)
     (\<lambda>(a, s). c\<lparr>cfg_upstreams := a, cfg_upstream_specs := s\<rparr>) = Some (c', r) \<Longrightarrow> config_wf c \<Longrightarrow> config_wf c'"
  "settle (apply_server_spec_assignment (cfg_fallback_upstreams c, cfg_fallback_upstream_specs c) val)
     (\<lambda>(a, s). c\<lparr>cfg_fallback_upstreams := a, cfg_fallback_upstream_specs := s\<rparr>) = Some (c', r) \<Longrightarrow>
     config_wf c \<Longrightarrow> config_wf c'"
  by (auto dest!: settleD intro: config_wf_servers split: prod.splits)

lemma settle_domains_wf:
  "settle (apply_domain_assignment (cfg_domains c) val) (\<lambda>d. c\<lparr>cfg_domains := d\<rparr>) = Some (c', r) \<Longrightarrow>
   config_wf c \<Longrightarrow> config_wf c'"
  by (auto dest!: settleD intro: config_wf_domains)

lemma refuse_wf:
  "map_option (\<lambda>ts. (c\<lparr>cfg_refuse_record_types := ts\<rparr>, Inr ())) x = Some (c', r) \<Longrightarrow> config_wf c \<Longrightarrow> config_wf c'"
  by (auto intro: config_wf_other)

lemma cache_mode_wf:
  "assign c (parse_cache_mode val) (\<lambda>(b, n). c\<lparr>cfg_cache := b, cfg_cache_negative := n\<rparr>) = Some (c', r) \<Longrightarrow>
   config_wf c \<Longrightarrow> config_wf c'"
  by (erule assign_wf, assumption) (use parse_cache_mode_wf in \<open>auto simp: config_wf_def\<close>)

lemma stored_wf: "Some (d, r') = Some (c', r) \<Longrightarrow> config_wf d \<Longrightarrow> config_wf c'"
  by simp

lemma apply_setting_wf:
  assumes "apply_setting secs c key val = Some (c', r)" and wf: "config_wf c"
  shows "config_wf c'"
  using assms(1) unfolding apply_setting_def
  by (elim if_elim) (erule settle_servers_wf[OF _ wf] settle_domains_wf[OF _ wf] refuse_wf[OF _ wf] cache_mode_wf[OF _ wf]
      | (erule assign_wf[OF _ wf], intro config_wf_other wf) | (erule stored_wf, intro config_wf_other wf)
      | erule stored_wf[OF _ wf])+

lemma apply_lines_wf:
  "apply_lines secs index ls sect asg c = Some (c', r) \<Longrightarrow> config_wf c \<Longrightarrow>
   config_wf c' \<and> (\<forall>a. r = Inr a \<longrightarrow> validate_config c' = Inr ())"
proof (induction secs index ls sect asg c rule: apply_lines.induct)
  case (1 secs index sect asg c)
  then show ?case by (auto simp: result_simps)
next
  case (2 secs index raw ls sect asg c)
  let ?line = "trim raw"
  show ?case
  proof (cases "is_skipped ?line \<or> hd ?line = CHR ''['' \<and> last ?line = CHR '']'' \<or> \<not> sect")
    case True
    then show ?thesis using 2(1-3) 2(5,6) unfolding apply_lines.simps Let_def by (simp split: if_splits)
  next
    case False
    have f: "\<not> is_skipped ?line" "\<not> (hd ?line = CHR ''['' \<and> last ?line = CHR '']'')" "\<not> \<not> sect"
      using False by blast+
    note eq = 2(5)[unfolded apply_lines.simps Let_def if_not_P[OF f(1)] if_not_P[OF f(2)] if_not_P[OF f(3)]]
    show ?thesis
    proof (cases "split_once CHR ''='' ?line")
      case None
      then show ?thesis using eq 2(6) by auto
    next
      case (Some kv)
      obtain key v where kv: "kv = (key, v)" by fastforce
      note eq = eq[unfolded Some kv option.case prod.case]
      show ?thesis
      proof (cases "apply_setting secs c (trim key) (trim v)")
        case None
        then show ?thesis using eq by simp
      next
        case set: (Some p)
        obtain d x where p: "p = (d, x)" by fastforce
        note eq = eq[unfolded set p option.case prod.case]
        have wf: "config_wf d" using apply_setting_wf[OF set[unfolded p] 2(6)] .
        show ?thesis
        proof (cases x)
          case (Inl e)
          then show ?thesis using eq wf by auto
        next
          case (Inr u)
          show ?thesis by (rule 2(4)[OF refl f Some kv[symmetric] refl set p[symmetric] Inr _ wf]) (use eq[unfolded Inr sum.case] in simp)
        qed
      qed
    qed
  qed
qed

lemma apply_optional_file_wf:
  assumes "apply_optional_file secs c fl = Some (c', r)" "config_wf c"
  shows "config_wf c'"
  using assms apply_lines_wf by (cases fl) (auto simp: apply_optional_file_def apply_text_tracking_def)

lemma apply_drop_ins_wf:
  "apply_drop_ins secs files asg c = Some (c', r) \<Longrightarrow> config_wf c \<Longrightarrow> config_wf c'"
proof (induction files arbitrary: asg c)
  case (Cons fl files)
  obtain d x where first: "apply_optional_file secs c fl = Some (d, x)"
    using Cons.prems(1) by (cases "apply_optional_file secs c fl") auto
  have "config_wf d" using apply_optional_file_wf[OF first Cons.prems(2)] .
  then show ?case using Cons first by (cases x) auto
qed simp

lemma apply_credentials_wf: "config_wf c \<Longrightarrow> config_wf (fst (apply_credentials dns domains c))"
proof -
  assume wf: "config_wf c"
  have servers: "config_wf (let (a, s) = fst (apply_server_spec_assignment (cfg_upstreams c, cfg_upstream_specs c) (trim d)) in
      c\<lparr>cfg_upstreams := a, cfg_upstream_specs := s\<rparr>)" for d
    using config_wf_servers(1)[OF wf] by (auto split: prod.splits)
  show ?thesis using wf servers config_wf_domains
    by (cases dns; cases domains) (simp_all add: apply_credentials_def Let_def)
qed

lemma resolv_conf_line_wf:
  assumes "distinct (rc_servers out) \<and> domains_wf (rc_domains out)"
  shows "distinct (rc_servers (resolv_conf_line raw out)) \<and> domains_wf (rc_domains (resolv_conf_line raw out))"
  unfolding resolv_conf_line_def Let_def
  using assms by (auto simp: apply_domain_assignment_wf split: list.splits sum.splits)

lemma resolv_conf_lines_wf:
  "distinct (rc_servers out) \<and> domains_wf (rc_domains out) \<Longrightarrow>
   distinct (rc_servers (fold resolv_conf_line ls out)) \<and> domains_wf (rc_domains (fold resolv_conf_line ls out))"
  by (induction ls arbitrary: out) (simp_all add: resolv_conf_line_wf)

lemma discover_resolv_conf_state_wf:
  "discover_resolv_conf_state fl = Inr rc \<Longrightarrow> distinct (rc_servers rc) \<and> domains_wf (rc_domains rc)"
  using resolv_conf_lines_wf[of resolv_conf_default]
  by (cases fl) (auto simp: discover_resolv_conf_state_def resolv_conf_default_def)

lemma config_wf_discovered:
  "config_wf c \<Longrightarrow> cfg_upstreams c = [] \<Longrightarrow> distinct a \<Longrightarrow> config_wf (c\<lparr>cfg_upstreams := a\<rparr>)"
  "config_wf c \<Longrightarrow> domains_wf d \<Longrightarrow> config_wf (c\<lparr>cfg_domains := d\<rparr>)"
  by (auto simp: config_wf_def servers_wf_def)

lemma load_external_wf:
  assumes "load_external src asg c = Inr c'" "config_wf c"
  shows "config_wf c' \<and> validate_config c' = Inr ()"
proof -
  let ?ext = "\<not> asg_dns asg \<and> \<not> asg_domains asg"
  obtain d p where d: "(if ?ext then apply_credentials (src_credential_dns src) (src_credential_domains src) c
      else (c, False)) = (d, p)" by fastforce
  have wf: "config_wf d" using d assms(2) apply_credentials_wf[OF assms(2)] by (metis fst_conv)
  show ?thesis
  proof (cases "?ext \<and> \<not> p")
    case False
    then show ?thesis using assms(1) d wf unfolding load_external_def Let_def by (auto simp: result_simps)
  next
    case True
    then obtain rc where rc: "discover_resolv_conf_state (src_resolv_conf src) = Inr rc"
      using assms(1) d unfolding load_external_def Let_def by (auto simp: result_simps)
    let ?e = "if cfg_upstreams d = [] then d\<lparr>cfg_upstreams := rc_servers rc\<rparr> else d"
    let ?f = "if cfg_domains ?e = [] then ?e\<lparr>cfg_domains := rc_domains rc\<rparr> else ?e"
    have "config_wf ?f"
      using wf discover_resolv_conf_state_wf[OF rc] config_wf_discovered by auto
    moreover have "rbind (validate_config ?f) (\<lambda>_. Inr ?f) = Inr c'"
      using assms(1) d True rc unfolding load_external_def Let_def by simp
    ultimately show ?thesis by (auto simp: result_simps)
  qed
qed

lemma config_default_wf: "config_wf config_default"
proof -
  have "distinct (cfg_fallback_upstreams config_default)"
    unfolding config_default_def config.select_convs by code_simp
  then show ?thesis by (simp add: config_wf_def config_default_def servers_wf_def)
qed

lemma config_load_wf:
  assumes "config_load secs src = Some (Inr c)"
  shows "config_wf c \<and> validate_config c = Inr ()"
proof -
  obtain c1 asg1 where main: "apply_optional_file secs config_default (src_main src) = Some (c1, Inr asg1)"
    using assms by (auto simp: config_load_def split: option.splits sum.splits prod.splits)
  obtain files where files: "src_drop_ins src = Inr files"
    using assms main by (auto simp: config_load_def split: sum.splits)
  obtain c2 asg2 where drop: "apply_drop_ins secs files asg1 c1 = Some (c2, Inr asg2)"
    using assms main files by (auto simp: config_load_def split: option.splits sum.splits prod.splits)
  have "load_external src asg2 c2 = Inr c" using assms main files drop by (simp add: config_load_def)
  moreover have "config_wf c2"
    using apply_drop_ins_wf[OF drop] apply_optional_file_wf[OF main config_default_wf] by blast
  ultimately show ?thesis by (rule load_external_wf)
qed

section \<open>Servers in use\<close>

lemma filtered_servers_eq: "filtered_servers servers = push_all_new [] (filter (\<lambda>s. \<not> is_local_stub s) servers)"
proof -
  have "fold (\<lambda>s out. if \<not> is_local_stub s \<and> s \<notin> set out then out @ [s] else out) servers out =
      push_all_new out (filter (\<lambda>s. \<not> is_local_stub s) servers)" for out
    by (induction servers arbitrary: out) (simp_all add: push_new_def)
  then show ?thesis by (simp add: filtered_servers_def)
qed

lemma filtered_specs_addresses:
  "dss_address ` set (fold (\<lambda>a out.
       let matching = filter (\<lambda>spec. dss_address spec = a) specs in
       if matching = []
       then out @ [\<lparr>dss_address = a, dss_interface = None, dss_server_name = None\<rparr>]
       else push_all_new out matching) as out) = dss_address ` set out \<union> set as"
proof (induction "as" arbitrary: out)
  case (Cons a as)
  have "dss_address ` set (filter (\<lambda>spec. dss_address spec = a) specs) = {a}"
    if "filter (\<lambda>spec. dss_address spec = a) specs \<noteq> []"
    using that by (force simp: filter_empty_conv)
  then show ?case using Cons by (auto simp: Let_def image_Un)
qed simp

lemma filtered_server_specs_addresses:
  "dss_address ` set (filtered_server_specs addresses specs) = set (filtered_servers addresses)"
  by (simp only: filtered_server_specs_def filtered_specs_addresses) simp

lemma effective_upstreams_cases:
  "\<exists>servers specs. effective_upstreams c = filtered_servers servers \<and>
     effective_upstream_specs c = filtered_server_specs servers specs"
proof -
  have "filtered_server_specs (cfg_upstreams c) (cfg_upstream_specs c) = [] \<longleftrightarrow> filtered_servers (cfg_upstreams c) = []"
    using filtered_server_specs_addresses[of "cfg_upstreams c" "cfg_upstream_specs c"] by (metis image_is_empty set_empty)
  then show ?thesis
    by (auto simp: effective_upstreams_def effective_upstream_specs_def configured_upstreams_def
        configured_upstream_specs_def configured_fallback_upstreams_def configured_fallback_upstream_specs_def Let_def)
qed

text \<open>
  C37: every configuration that loads is well formed, whatever the files, drop-ins, credentials
  and \<open>resolv.conf\<close> contain. Attempts, workers, cache sizes and timeout are in range; the
  negative cache is on only with the cache; servers, specifications, domains and extra
  listeners have no repetitions; every specification belongs to a listed server and has a
  valid interface and server name; every domain is in normal form; and the servers in use are
  distinct, never the daemon's own stub, and exactly the addresses of the specifications in
  use.
\<close>

theorem config_load_well_formed:
  assumes "config_load secs src = Some (Inr c)"
  shows "cfg_attempts c \<in> {1..32} \<and> cfg_workers c \<in> {1..4096} \<and> 0 < cfg_query_timeout c \<and>
    cfg_cache_size c \<le> 2 ^ 24 \<and> cfg_llmnr_cache_size c \<le> 2 ^ 24 \<and> cfg_multicast_dns_cache_size c \<le> 2 ^ 24 \<and>
    config_wf c \<and>
    distinct (effective_upstreams c) \<and> (\<forall>s \<in> set (effective_upstreams c). \<not> is_local_stub s) \<and>
    dss_address ` set (effective_upstream_specs c) = set (effective_upstreams c)"
proof -
  have wf: "config_wf c" and valid: "validate_config c = Inr ()" using config_load_wf[OF assms] by auto
  obtain servers specs where eff: "effective_upstreams c = filtered_servers servers"
    "effective_upstream_specs c = filtered_server_specs servers specs" using effective_upstreams_cases by blast
  have "cfg_attempts c \<in> {1..32}" "cfg_workers c \<in> {1..4096}" "0 < cfg_query_timeout c"
    using valid by (auto simp: validate_config_def split: if_splits option.splits)
  moreover have "cfg_cache_size c \<le> 2 ^ 24" "cfg_llmnr_cache_size c \<le> 2 ^ 24" "cfg_multicast_dns_cache_size c \<le> 2 ^ 24"
    using valid by (auto simp: validate_config_def split: if_splits)
  moreover have "distinct (filtered_servers servers)" "\<forall>s \<in> set (filtered_servers servers). \<not> is_local_stub s"
    by (auto simp: filtered_servers_eq)
  ultimately show ?thesis using wf filtered_server_specs_addresses[of servers specs] unfolding eff by blast
qed

definition sample_sources :: config_sources where
  "sample_sources = \<lparr>src_main = FileText (text_line ''[Resolve]'' @ text_line ''DNS=9.9.9.9'' @ text_line ''Attempts=3''),
     src_drop_ins = Inr [FileMissing], src_credential_dns = None, src_credential_domains = None,
     src_resolv_conf = FileMissing\<rparr>"

definition sample_config :: config where
  "sample_config = config_default\<lparr>cfg_upstreams := [SocketV4 (ipv4_new 9 9 9 9) 53],
     cfg_upstream_specs := [\<lparr>dss_address = SocketV4 (ipv4_new 9 9 9 9) 53, dss_interface = None, dss_server_name = None\<rparr>],
     cfg_attempts := 3\<rparr>"

lemma sample_sources_load: "config_load (\<lambda>_ _. None) sample_sources = Some (Inr sample_config)"
proof -
  have l: "lines (text_line ''[Resolve]'' @ text_line ''DNS=9.9.9.9'' @ text_line ''Attempts=3'') =
      [''[Resolve]'', ''DNS=9.9.9.9'', ''Attempts=3'']" by code_simp
  have t: "trim ''[Resolve]'' = ''[Resolve]''" "trim ''Attempts=3'' = ''Attempts=3''" "trim ''Attempts'' = ''Attempts''"
    "trim ''3'' = ''3''" "trim ''DNS=9.9.9.9'' = ''DNS=9.9.9.9''" "trim ''DNS'' = ''DNS''" "trim ''9.9.9.9'' = ''9.9.9.9''"
    by code_simp+
  have sp: "split_once CHR ''='' ''Attempts=3'' = Some (''Attempts'', ''3'')"
    "split_once CHR ''='' ''DNS=9.9.9.9'' = Some (''DNS'', ''9.9.9.9'')" by code_simp+
  have u: "parse_usize ''3'' = Some 3" by code_simp
  have attempts: "apply_setting secs c ''Attempts'' ''3'' = Some (c\<lparr>cfg_attempts := 3\<rparr>, Inr ())" for secs c
    unfolding apply_setting_def assign_def u by simp
  have "apply_server_spec_assignment ([], []) ''9.9.9.9'' =
      (([SocketV4 (ipv4_new 9 9 9 9) 53],
        [\<lparr>dss_address = SocketV4 (ipv4_new 9 9 9 9) 53, dss_interface = None, dss_server_name = None\<rparr>]), Inr ())"
    by code_simp
  then have dns: "apply_setting secs config_default ''DNS'' ''9.9.9.9'' =
      Some (config_default\<lparr>cfg_upstreams := [SocketV4 (ipv4_new 9 9 9 9) 53],
        cfg_upstream_specs := [\<lparr>dss_address = SocketV4 (ipv4_new 9 9 9 9) 53, dss_interface = None, dss_server_name = None\<rparr>]\<rparr>, Inr ())" for secs
    unfolding apply_setting_def settle_def by (simp add: config_default_def)
  have v: "validate_config sample_config = Inr ()"
    by (simp add: validate_config_def sample_config_def config_default_def)
  have main: "apply_optional_file (\<lambda>_ _. None) config_default (src_main sample_sources) =
      Some (sample_config, Inr \<lparr>asg_dns = True, asg_domains = False\<rparr>)"
    unfolding sample_sources_def apply_optional_file_def apply_text_tracking_def config_sources.select_convs file_read.case l
    using v by (simp add: t sp attempts dns is_skipped_def no_assignments_def Let_def sample_config_def)
  have "apply_drop_ins (\<lambda>_ _. None) [FileMissing] asg c = Some (c, Inr (merge_assignments asg no_assignments))" for asg c
    by (simp add: apply_optional_file_def)
  moreover have "load_external sample_sources asg c = rbind (validate_config c) (\<lambda>_. Inr c)" if "asg_dns asg" for asg c
    using that by (simp add: load_external_def Let_def)
  moreover have "src_drop_ins sample_sources = Inr [FileMissing]" by (simp add: sample_sources_def)
  ultimately show ?thesis using v main by (simp add: config_load_def merge_assignments_def del: apply_drop_ins.simps)
qed

theorem config_load_well_formed_witness:
  "\<exists>c. config_load (\<lambda>_ _. None) sample_sources = Some (Inr c) \<and> c = sample_config \<and> cfg_attempts c \<in> {1..32} \<and>
     config_wf c"
  using config_load_well_formed[OF sample_sources_load] sample_sources_load by blast

section \<open>Published files are read back\<close>

lemma show_ipv4_plain: "c \<in> set (show_ipv4 a) \<Longrightarrow> plain_char c \<and> c \<noteq> CHR ''#'' \<and> c \<noteq> CHR ''%''"
proof -
  assume c: "c \<in> set (show_ipv4 a)"
  have "plain_char (hex_char d) \<and> hex_char d \<noteq> CHR ''#'' \<and> hex_char d \<noteq> CHR ''%''" if "d < 10" for d
    using of_hex_char[of d] that by (auto simp: plain_char_def ascii_whitespace_def char_eq_iff_nat)
  moreover have "plain_char CHR ''.''" by (simp add: plain_char_def ascii_whitespace_def)
  ultimately show ?thesis using show_ipv4_chars[OF c] by auto
qed

lemma show_ipv4_word: "plain_word (show_ipv4 a)"
  using show_ipv4_plain show_ipv4_not_Nil(1) by (simp add: plain_word_def list_all_iff)

lemma trim_word: "plain_word w \<Longrightarrow> trim w = w"
  by (rule trim_plain) (auto simp: plain_word_def list_all_iff)

lemma parse_server_show_ipv4: "parse_server (show_ipv4 a) = Inr (SocketV4 a 53)"
proof -
  have "CHR ''#'' \<notin> set (show_ipv4 a)" "CHR ''%'' \<notin> set (show_ipv4 a)" using show_ipv4_plain by blast+
  moreover from this have "split_once CHR ''#'' (show_ipv4 a) = None" "split_once CHR ''%'' (show_ipv4 a) = None"
    by (simp_all add: split_once_None)
  moreover have "parse_address (show_ipv4 a) = Some (SocketV4 a 53)"
    by (simp add: parse_address_def parse_socket_addr_show_ipv4 parse_ip_addr_show_ipv4 socket_new_def)
  ultimately show ?thesis using show_ipv4_not_Nil(1)[of a] trim_word[OF show_ipv4_word]
    by (simp add: parse_server_def parse_server_spec_def Let_def)
qed

lemma join_words_plain:
  assumes "\<forall>w \<in> set ws. plain_word w" "ws \<noteq> []"
  shows "join_with '' '' ws \<noteq> [] \<and> hd (join_with '' '' ws) = hd (hd ws) \<and> plain_char (hd (join_with '' '' ws)) \<and>
    plain_char (last (join_with '' '' ws)) \<and> line_feed \<notin> set (join_with '' '' ws)"
  using assms
proof (induction ws)
  case (Cons w ws)
  have w: "w \<noteq> []" "plain_char (hd w)" "plain_char (last w)" "line_feed \<notin> set w"
    using Cons.prems(1) by (auto simp: plain_word_def list_all_iff plain_char_def ascii_whitespace_def)
  then show ?case using Cons by (cases ws) (auto simp: join_with_Cons)
qed simp

lemma words_line:
  assumes "\<forall>w \<in> set (k # ws). plain_word w" "hd k \<noteq> CHR ''#''" "hd k \<noteq> CHR '';''"
  shows "trim (join_with '' '' (k # ws)) = join_with '' '' (k # ws)" "\<not> is_skipped (join_with '' '' (k # ws))"
  using join_words_plain[OF assms(1)] assms(2,3) trim_plain by (auto simp: is_skipped_def)

lemma keyword_words: "plain_word ''nameserver''" "plain_word ''search''" "plain_word ''options''"
  by (simp_all add: plain_word_def plain_char_def ascii_whitespace_def)

lemma resolv_conf_words:
  assumes "\<forall>w \<in> set (k # ws). plain_word w" "hd k \<noteq> CHR ''#''" "hd k \<noteq> CHR '';''"
  shows "resolv_conf_line (join_with '' '' (k # ws)) out =
    (if k = ''nameserver'' then
       (case ws of [] \<Rightarrow> out
        | w # _ \<Rightarrow> (case parse_server w of Inl _ \<Rightarrow> out
            | Inr server \<Rightarrow> if \<not> is_local_stub server \<and> server \<notin> set (rc_servers out)
                then out\<lparr>rc_servers := rc_servers out @ [server]\<rparr> else out))
     else if k = ''domain'' \<or> k = ''search'' then
       (if join_with '' '' ws = [] then out
        else out\<lparr>rc_domains := fst (apply_domain_assignment (rc_domains out) (join_with '' '' ws))\<rparr>)
     else out)"
  unfolding resolv_conf_line_def Let_def words_line(1)[OF assms] if_not_P[OF words_line(2)[OF assms]]
    split_whitespace_join[OF assms(1)] list.case by (rule refl)

lemma nameserver_line:
  "resolv_conf_line (join_with '' '' [''nameserver'', show_ipv4 a]) out =
     (if \<not> is_local_stub (SocketV4 a 53) \<and> SocketV4 a 53 \<notin> set (rc_servers out)
      then out\<lparr>rc_servers := rc_servers out @ [SocketV4 a 53]\<rparr> else out)"
proof -
  have ws: "\<forall>w \<in> set [''nameserver'', show_ipv4 a]. plain_word w" using keyword_words show_ipv4_word by simp
  have "resolv_conf_line (join_with '' '' [''nameserver'', show_ipv4 a]) out =
      (case parse_server (show_ipv4 a) of Inl _ \<Rightarrow> out
       | Inr server \<Rightarrow> if \<not> is_local_stub server \<and> server \<notin> set (rc_servers out)
           then out\<lparr>rc_servers := rc_servers out @ [server]\<rparr> else out)"
    using resolv_conf_words[OF ws] by (simp del: join_with.simps)
  then show ?thesis unfolding parse_server_show_ipv4 sum.case .
qed

lemma nameserver_lines:
  assumes "distinct servers" "set servers \<inter> set (rc_servers out) = {}"
    and "\<forall>s \<in> set servers. \<not> is_local_stub s \<and> (\<exists>a. s = SocketV4 a 53)"
  shows "fold resolv_conf_line (map (\<lambda>s. join_with '' '' [''nameserver'', show_ip_addr (sock_ip s)]) servers) out =
    out\<lparr>rc_servers := rc_servers out @ servers\<rparr>"
  using assms
proof (induction servers arbitrary: out)
  case (Cons s servers)
  obtain a where a: "s = SocketV4 a 53" using Cons.prems(3) by auto
  have "resolv_conf_line (join_with '' '' [''nameserver'', show_ip_addr (sock_ip s)]) out =
      out\<lparr>rc_servers := rc_servers out @ [s]\<rparr>"
    using Cons.prems a nameserver_line[of a out] by (simp add: show_ip_addr_def del: join_with.simps)
  moreover have "set servers \<inter> set (rc_servers (out\<lparr>rc_servers := rc_servers out @ [s]\<rparr>)) = {}"
    using Cons.prems(1,2) by auto
  ultimately show ?case using Cons.IH Cons.prems(1,3) by (simp del: join_with.simps)
qed simp

lemma add_domains_published:
  assumes "distinct ds" "set ds \<inter> set out = {}"
    and "\<forall>d \<in> set ds. domain_wf d \<and> dom_name d \<noteq> ''.'' \<and> \<not> dom_route_only d"
  shows "add_domains (map dom_name ds) out = (out @ ds, Inr ())"
  using assms
proof (induction ds arbitrary: out)
  case (Cons d ds)
  have d: "domain_wf d" "dom_name d \<noteq> ''.''" "\<not> dom_route_only d" using Cons.prems(3) by auto
  let ?n = "dom_name d"
  have n: "?n \<noteq> []" "is_ascii ?n" "to_ascii_lowercase ?n = ?n" "hd ?n \<noteq> CHR ''~''" "last ?n \<noteq> CHR ''.''"
    "\<forall>label \<in> set (split_on CHR ''.'' ?n). length label \<le> 63"
    using d(1,2) by (auto simp: domain_wf_def plain_word_def plain_char_def is_ascii_def list_all_iff)
  have trimmed: "trim_end_matches CHR ''.'' (trim_start_matches CHR ''~'' ?n) = ?n"
  proof -
    have "trim_start_matches CHR ''~'' ?n = ?n" using n(1,4) by (cases ?n) (simp_all add: trim_start_matches_def)
    then show ?thesis using n(5) by (simp add: trim_end_matches_id)
  qed
  have tilde: "take 1 ?n \<noteq> ''~''" using n(1,4) by (cases ?n) auto
  have rec: "\<lparr>dom_name = ?n, dom_route_only = False\<rparr> = d" using d(3) by (cases d) simp
  have long: "\<not> list_ex (\<lambda>label. length label > 63) (split_on CHR ''.'' ?n)" using n(6) by (auto simp: list_ex_iff not_less)
  have "add_domains (map dom_name (d # ds)) out = add_domains (map dom_name ds) (push_new out d)"
    using n(1,2,3) trimmed tilde rec long by (simp add: Let_def)
  moreover have "push_new out d = out @ [d]" using Cons.prems(2) by (auto simp: push_new_def)
  moreover have "set ds \<inter> set (out @ [d]) = {}" using Cons.prems(1,2) by auto
  ultimately show ?case using Cons.IH[of "out @ [d]"] Cons.prems(1,3) by simp
qed simp

abbreviation published_domains :: "config \<Rightarrow> domain list" where
  "published_domains c \<equiv> filter (\<lambda>d. \<not> dom_route_only d \<and> dom_name d \<noteq> ''.'') (cfg_domains c)"

abbreviation search_lines :: "config \<Rightarrow> string list" where
  "search_lines c \<equiv>
     (if published_search c = [] then [] else [join_with '' '' (''search'' # published_search c)])"

lemma published_search_words:
  assumes "config_wf c" shows "\<forall>w \<in> set (''search'' # published_search c). plain_word w"
  using assms keyword_words(2) by (auto simp: published_search_def config_wf_def domains_wf_def domain_wf_def)

lemma search_line_lines: "search_line (published_search c) = concat (map text_line (search_lines c))"
  by (simp add: search_line_def join_with_Cons)

lemma search_lines_effect:
  assumes "config_wf c" "rc_domains out = []"
  shows "fold resolv_conf_line (search_lines c) out = out\<lparr>rc_domains := published_domains c\<rparr>"
proof (cases "published_search c = []")
  case True
  then show ?thesis using assms(2) by (cases out) (simp add: published_search_def)
next
  case False
  note words = published_search_words[OF assms(1)]
  have ne: "join_with '' '' (published_search c) \<noteq> []"
    using join_words_plain[of "published_search c"] words False by simp
  have "add_domains (map dom_name (published_domains c)) [] = ([] @ published_domains c, Inr ())"
    by (rule add_domains_published) (use assms(1) in \<open>auto simp: config_wf_def domains_wf_def\<close>)
  moreover have "split_whitespace (join_with '' '' (published_search c)) = map dom_name (published_domains c)"
    using split_whitespace_join[of "published_search c"] words by (simp add: published_search_def)
  ultimately have "fst (apply_domain_assignment [] (join_with '' '' (published_search c))) = published_domains c"
    using ne by (simp add: apply_domain_assignment_def)
  then show ?thesis using resolv_conf_words[OF words] ne False assms(2) by (simp del: join_with.simps)
qed

lemma plain_line: "plain_char (last l) \<Longrightarrow> l \<noteq> [] \<Longrightarrow> last l \<noteq> carriage_return"
  by (auto simp: plain_char_def ascii_whitespace_def)

lemma words_terminated:
  "\<forall>w \<in> set ws. plain_word w \<Longrightarrow> ws \<noteq> [] \<Longrightarrow>
   line_feed \<notin> set (join_with '' '' ws) \<and> (join_with '' '' ws = [] \<or> last (join_with '' '' ws) \<noteq> carriage_return)"
  using join_words_plain plain_line by blast

lemma managed_comment_line:
  "line_feed \<notin> set managed_comment \<and> (managed_comment = [] \<or> last managed_comment \<noteq> carriage_return)"
  "resolv_conf_line managed_comment out = out"
proof -
  have "trim managed_comment = managed_comment"
    by (rule trim_plain) (simp_all add: plain_char_def ascii_whitespace_def)
  then show "resolv_conf_line managed_comment out = out" by (simp add: resolv_conf_line_def is_skipped_def)
qed simp

lemma search_lines_terminated:
  "config_wf c \<Longrightarrow> l \<in> set (search_lines c) \<Longrightarrow> line_feed \<notin> set l \<and> (l = [] \<or> last l \<noteq> carriage_return)"
  using words_terminated[OF published_search_words] by (auto split: if_splits simp del: join_with.simps)

abbreviation uplink_lines :: "config \<Rightarrow> string list" where
  "uplink_lines c \<equiv> managed_comment #
     map (\<lambda>s. join_with '' '' [''nameserver'', show_ip_addr (sock_ip s)]) (effective_upstreams c) @ search_lines c"

abbreviation stub_lines :: "config \<Rightarrow> string list" where
  "stub_lines c \<equiv> [managed_comment, join_with '' '' [''nameserver'', ''127.0.0.53''],
     join_with '' '' [''options'', ''edns0'', ''trust-ad'']] @ search_lines c"

lemma resolv_conf_texts:
  "uplink_resolv_conf_text c = concat (map text_line (uplink_lines c))"
  "stub_resolv_conf_text c = concat (map text_line (stub_lines c))"
  unfolding uplink_resolv_conf_text_def stub_resolv_conf_text_def search_line_lines
  by (simp_all add: comp_def)



section \<open>Record types\<close>

abbreviation cut_character :: "string \<Rightarrow> bool" where
  "cut_character t \<equiv> 4 < length t \<and> 0x80 \<le> byte_of_char (t ! 4) \<and> byte_of_char (t ! 4) < 0xC0"

lemma record_type_panic: "dns_record_type_from_string t = None \<longleftrightarrow> cut_character t"
  by (auto simp: dns_record_type_from_string_def is_char_boundary_def)

lemma add_record_types_exact:
  "add_record_types ts dest =
     (if list_ex cut_character ts then None
      else Some (dest \<union> {ty. \<exists>t \<in> set ts. dns_record_type_from_string t = Some (Some ty)}))"
proof (induction ts arbitrary: dest)
  case (Cons t ts)
  show ?case
  proof (cases "dns_record_type_from_string t")
    case None
    then show ?thesis using record_type_panic[of t] by simp
  next
    case (Some x)
    then have "\<not> cut_character t" using record_type_panic[of t] by simp
    then show ?thesis using Some Cons.IH by (cases x) auto
  qed
qed simp

definition accented_sources :: config_sources where
  "accented_sources = \<lparr>src_main = FileText (text_line ''[Resolve]'' @
       text_line (''RefuseRecordTypes=abc'' @ [CHR 0xC3, CHR 0xA9])),
     src_drop_ins = Inr [], src_credential_dns = None, src_credential_domains = None,
     src_resolv_conf = FileMissing\<rparr>"

text \<open>
  C39: what \<open>RefuseRecordTypes=\<close> does. An empty value clears the set; otherwise the types of all
  recognised words are added and other words are ignored, except that a word of more than four
  bytes whose fifth byte continues a character makes the source slice inside that character
  and panic. So loading a configuration file with the word \<open>abc\<close> followed by an accented
  letter aborts the daemon instead of ignoring the word.
\<close>

theorem refuse_record_types_exact:
  "apply_refuse_record_types dest v =
     (if v = [] then Some {}
      else if \<exists>t \<in> set (split_whitespace v). 4 < length t \<and> 0x80 \<le> byte_of_char (t ! 4) \<and> byte_of_char (t ! 4) < 0xC0
      then None
      else Some (dest \<union> {ty. \<exists>t \<in> set (split_whitespace v). dns_record_type_from_string t = Some (Some ty)})) \<and>
   config_load secs accented_sources = None"
proof
  show "apply_refuse_record_types dest v = (if v = [] then Some {}
      else if \<exists>t \<in> set (split_whitespace v). cut_character t then None
      else Some (dest \<union> {ty. \<exists>t \<in> set (split_whitespace v). dns_record_type_from_string t = Some (Some ty)}))"
    unfolding apply_refuse_record_types_def add_record_types_exact by (simp only: list_ex_iff)
  let ?w = "''abc'' @ [CHR 0xC3, CHR 0xA9]" and ?l = "''RefuseRecordTypes=abc'' @ [CHR 0xC3, CHR 0xA9]"
  have l: "lines (text_line ''[Resolve]'' @ text_line ?l) = [''[Resolve]'', ?l]" by code_simp
  have t: "trim ''[Resolve]'' = ''[Resolve]''" "trim ?l = ?l" "trim ''RefuseRecordTypes'' = ''RefuseRecordTypes''"
    "trim ?w = ?w" by code_simp+
  have sp: "split_once CHR ''='' ?l = Some (''RefuseRecordTypes'', ?w)" by code_simp
  have "split_whitespace ?w = [?w]" by code_simp
  then have "apply_refuse_record_types types ?w = add_record_types [?w] types" for types
    unfolding apply_refuse_record_types_def by simp
  moreover have "list_ex cut_character [?w]" by code_simp
  ultimately have "apply_refuse_record_types types ?w = None" for types
    unfolding add_record_types_exact by (simp only: if_True)
  then have set: "apply_setting secs c ''RefuseRecordTypes'' ?w = None" for c
    by (simp add: apply_setting_def)
  have "\<not> is_skipped ''[Resolve]''" "\<not> is_skipped ?l" "hd ''[Resolve]'' = CHR ''[''" "last ''[Resolve]'' = CHR '']''"
    "hd ?l \<noteq> CHR ''[''" "butlast (tl ''[Resolve]'') = ''Resolve''" by (simp_all add: is_skipped_def)
  then have "apply_lines secs 0 [''[Resolve]'', ?l] False no_assignments config_default = None"
    unfolding apply_lines.simps Let_def t by (simp only: sp option.case prod.case t set if_False if_True simp_thms)
  then show "config_load secs accented_sources = None"
    unfolding config_load_def accented_sources_def apply_optional_file_def apply_text_tracking_def
      config_sources.select_convs file_read.case l by simp
qed

end
