(* ===== verification/Hosts.thy ===== *)
theory Hosts
  imports Wire_Records Net_Parse Rust_Text
begin

text \<open>
  The hosts file of \<open>src/src/hosts.rs\<close>: parsing into the two maps from names to addresses and
  back, and the local answers to questions. The maps are association lists with the text of
  the file as argument. The theorem relates every lookup to the pairs the file lists.
\<close>

section \<open>Parsing\<close>

record hosts =
  by_name :: "(string \<times> ip_addr list) list"
  by_address :: "(ip_addr \<times> string list) list"

definition hosts_default :: hosts where
  "hosts_default = \<lparr>by_name = [], by_address = []\<rparr>"

definition canonical_name :: "string \<Rightarrow> string" where
  "canonical_name name = to_ascii_lowercase (trim_end_matches CHR ''.'' name)"

text \<open>\<open>entry(key).or_default()\<close> followed by a push unless the value is there.\<close>

definition entry_push :: "'k \<Rightarrow> 'v \<Rightarrow> ('k \<times> 'v list) list \<Rightarrow> ('k \<times> 'v list) list" where
  "entry_push k v m = AList.update k (push_new (case map_of m k of None \<Rightarrow> [] | Some vs \<Rightarrow> vs) v) m"

definition add_host :: "ip_addr \<Rightarrow> string \<Rightarrow> hosts \<Rightarrow> hosts" where
  "add_host address name h =
     (let canonical = canonical_name name in
      if canonical = [] then h
      else h\<lparr>by_name := entry_push canonical address (by_name h),
             by_address := entry_push address canonical (by_address h)\<rparr>)"

definition add_host_line :: "string \<Rightarrow> hosts \<Rightarrow> hosts" where
  "add_host_line raw_line h =
     (let line = (case split_once CHR ''#'' raw_line of None \<Rightarrow> raw_line | Some (head, _) \<Rightarrow> head) in
      case split_whitespace line of
        [] \<Rightarrow> h
      | field # names \<Rightarrow>
          (case parse_ip_addr field of
             None \<Rightarrow> h
           | Some address \<Rightarrow> fold (add_host address) names h))"

definition hosts_parse :: "string \<Rightarrow> hosts" where
  "hosts_parse s = fold add_host_line (lines s) hosts_default"

section \<open>Lookup\<close>

definition synthetic_addresses :: "string \<Rightarrow> ip_addr list" where
  "synthetic_addresses name =
     (if name = ''localhost'' \<or> name = ''localhost.localdomain'' then [V4 V4_LOCALHOST, V6 V6_LOCALHOST]
      else if name = ''localhost4'' \<or> name = ''localhost4.localdomain4'' then [V4 V4_LOCALHOST]
      else if name = ''localhost6'' \<or> name = ''localhost6.localdomain6'' then [V6 V6_LOCALHOST]
      else if name = ''_localdnsstub'' then [V4 (ipv4_new 127 0 0 53)]
      else if name = ''_localdnsproxy'' then [V4 (ipv4_new 127 0 0 54)]
      else [])"

definition synthetic_names :: "ip_addr \<Rightarrow> string list" where
  "synthetic_names address =
     (if address = V4 V4_LOCALHOST then [''localhost'']
      else if address = V6 V6_LOCALHOST then [''localhost'']
      else if address = V4 (ipv4_new 127 0 0 53) then [''_localdnsstub'']
      else if address = V4 (ipv4_new 127 0 0 54) then [''_localdnsproxy'']
      else [])"

fun address_record :: "u16 \<Rightarrow> ip_addr \<Rightarrow> local_record option" where
  "address_record t (V4 a) = (if t = TYPE_A \<or> t = 255 then Some (LocalA a) else None)"
| "address_record t (V6 a) = (if t = TYPE_AAAA \<or> t = 255 then Some (LocalAaaa a) else None)"

definition lookup_forward :: "hosts \<Rightarrow> question \<Rightarrow> local_record list option" where
  "lookup_forward h q =
     (let name = canonical_name (name_text (q_name q));
          addresses = synthetic_addresses name;
          addresses = (case parse_ip_addr name of None \<Rightarrow> addresses | Some a \<Rightarrow> addresses @ [a]);
          addresses = (case map_of (by_name h) name of None \<Rightarrow> addresses
                       | Some host_addresses \<Rightarrow> push_all_new addresses host_addresses) in
      if addresses = [] then None
      else Some (List.map_filter (address_record (q_type q)) addresses))"

definition lookup_reverse :: "hosts \<Rightarrow> question \<Rightarrow> local_record list option" where
  "lookup_reverse h q =
     Option.bind (parse_reverse_name (name_text (q_name q))) (\<lambda>address.
     let names = synthetic_names address;
         names = (case map_of (by_address h) address of None \<Rightarrow> names
                  | Some host_names \<Rightarrow> push_all_new names host_names) in
     if names = [] then None else Some (map LocalPtr names))"

definition known_name :: "hosts \<Rightarrow> string \<Rightarrow> bool" where
  "known_name h name =
     (let name = canonical_name name in
      map_of (by_name h) name \<noteq> None \<or> synthetic_addresses name \<noteq> [] \<or> parse_ip_addr name \<noteq> None)"

definition hosts_lookup :: "hosts \<Rightarrow> question \<Rightarrow> local_record list option" where
  "hosts_lookup h q =
     (if q_class q \<noteq> CLASS_IN \<and> q_class q \<noteq> CLASS_ANY then None
      else if q_type q = TYPE_A \<or> q_type q = TYPE_AAAA \<or> q_type q = 255 then lookup_forward h q
      else if q_type q = TYPE_PTR then lookup_reverse h q
      else if known_name h (name_text (q_name q)) then Some [] else None)"

section \<open>The pairs of a file\<close>

definition line_pairs :: "string \<Rightarrow> (ip_addr \<times> string) list" where
  "line_pairs raw_line =
     (case split_whitespace (hd (split_on CHR ''#'' raw_line)) of
        [] \<Rightarrow> []
      | field # names \<Rightarrow>
          (case parse_ip_addr field of
             None \<Rightarrow> []
           | Some a \<Rightarrow> map (Pair a) (filter (\<lambda>n. n \<noteq> []) (map canonical_name names))))"

definition file_pairs :: "string \<Rightarrow> (ip_addr \<times> string) list" where
  "file_pairs s = concat (map line_pairs (lines s))"

text \<open>The values listed with a key, each once, in the order of their first occurrence.\<close>

definition listed :: "('k \<times> 'v) list \<Rightarrow> 'k \<Rightarrow> 'v list" where
  "listed ps k = push_all_new [] (map snd (filter (\<lambda>p. fst p = k) ps))"

abbreviation swapped :: "('a \<times> 'b) list \<Rightarrow> ('b \<times> 'a) list" where
  "swapped ps \<equiv> map (\<lambda>(a, b). (b, a)) ps"

definition holds_pairs :: "('k \<times> 'v list) list \<Rightarrow> ('k \<times> 'v) list \<Rightarrow> bool" where
  "holds_pairs m ps \<longleftrightarrow> (\<forall>k. map_of m k = (if k \<in> fst ` set ps then Some (listed ps k) else None))"

lemma listed_snoc: "listed (ps @ [(k, v)]) k' = (if k' = k then push_new (listed ps k') v else listed ps k')"
  by (simp add: listed_def push_all_new_append)

lemma listed_notin: "k \<notin> fst ` set ps \<Longrightarrow> listed ps k = []"
proof -
  assume "k \<notin> fst ` set ps"
  then have "filter (\<lambda>p. fst p = k) ps = []" by (force simp: filter_empty_conv)
  then show ?thesis by (simp add: listed_def)
qed

lemma entry_push_holds:
  assumes "holds_pairs m ps" shows "holds_pairs (entry_push k v m) (ps @ [(k, v)])"
proof -
  have "(case map_of m k of None \<Rightarrow> [] | Some vs \<Rightarrow> vs) = listed ps k"
    using assms listed_notin[of k ps] by (simp add: holds_pairs_def)
  then show ?thesis using assms
    by (auto simp: holds_pairs_def entry_push_def update_conv listed_snoc)
qed

definition hosts_hold :: "hosts \<Rightarrow> (ip_addr \<times> string) list \<Rightarrow> bool" where
  "hosts_hold h ps \<longleftrightarrow> holds_pairs (by_name h) (swapped ps) \<and> holds_pairs (by_address h) ps"

lemma add_hosts_hold:
  "hosts_hold h ps \<Longrightarrow> hosts_hold (fold (add_host a) names h)
     (ps @ map (Pair a) (filter (\<lambda>n. n \<noteq> []) (map canonical_name names)))"
proof (induction names arbitrary: h ps)
  case (Cons name names)
  let ?n = "canonical_name name"
  have "hosts_hold (add_host a name h) (ps @ (if ?n = [] then [] else [(a, ?n)]))"
    using Cons.prems by (auto simp: add_host_def hosts_hold_def Let_def intro: entry_push_holds)
  from Cons.IH[OF this] show ?case by (cases "?n = []") simp_all
qed simp

lemma comment_stripped: "(case split_once c s of None \<Rightarrow> s | Some (head, _) \<Rightarrow> head) = hd (split_on c s)"
proof (cases "split_once c s")
  case None
  then have "c \<notin> set s" by (simp add: split_once_None)
  then show ?thesis using None by (simp add: split_on_notin)
next
  case (Some p)
  then obtain a b where "p = (a, b)" "s = a @ c # b" "c \<notin> set a" by (cases p) (auto dest: split_once_SomeD)
  then show ?thesis using Some by (simp add: split_on_append_sep)
qed

lemma add_host_line_holds: "hosts_hold h ps \<Longrightarrow> hosts_hold (add_host_line l h) (ps @ line_pairs l)"
  using add_hosts_hold unfolding add_host_line_def line_pairs_def comment_stripped Let_def
  by (auto split: list.splits option.splits)

lemma hosts_parse_holds: "hosts_hold (hosts_parse s) (file_pairs s)"
proof -
  have "hosts_hold h ps \<Longrightarrow> hosts_hold (fold add_host_line ls h) (ps @ concat (map line_pairs ls))" for ls h ps
  proof (induction ls arbitrary: h ps)
    case (Cons l ls)
    from Cons.IH[OF add_host_line_holds[OF Cons.prems, of l]] show ?case by simp
  qed simp
  from this[of hosts_default "[]" "lines s"] show ?thesis
    by (simp add: hosts_parse_def file_pairs_def hosts_default_def hosts_hold_def holds_pairs_def)
qed

lemma push_all_new_listed:
  fixes acc :: "'v list"
  shows "push_all_new acc (listed ps k) = push_all_new acc (map snd (filter (\<lambda>p. fst p = k) ps))"
proof -
  have "push_all_new acc (push_all_new [] xs) = push_all_new acc xs" for xs :: "'v list"
  proof (induction xs rule: rev_induct)
    case (snoc x xs)
    then show ?case by (auto simp: push_all_new_append push_new_def)
  qed simp
  then show ?thesis by (simp add: listed_def)
qed

text \<open>
  C40: local answers are what the hosts file says. For every text and every question of class
  IN or ANY: an A, AAAA or ANY question is answered by the synthetic addresses of its name,
  the address the name itself spells, and all addresses the file lists with the name, in file
  order without repetition, restricted to the queried family; a PTR question by the synthetic
  names of the address and all names listed with it. There is no answer exactly when nothing
  applies, and an empty answer for other types of a known name.
\<close>

theorem hosts_lookup_exact:
  assumes "q_class q = CLASS_IN \<or> q_class q = CLASS_ANY"
  shows "let name = canonical_name (name_text (q_name q)); pairs = file_pairs s;
             addresses = push_all_new (synthetic_addresses name @ (case parse_ip_addr name of None \<Rightarrow> [] | Some a \<Rightarrow> [a]))
               (map fst (filter (\<lambda>p. snd p = name) pairs)) in
    hosts_lookup (hosts_parse s) q =
      (if q_type q \<in> {TYPE_A, TYPE_AAAA, 255} then
         (if addresses = [] then None else Some (List.map_filter (address_record (q_type q)) addresses))
       else if q_type q = TYPE_PTR then
         (case parse_reverse_name (name_text (q_name q)) of
            None \<Rightarrow> None
          | Some a \<Rightarrow>
              let names = push_all_new (synthetic_names a) (map snd (filter (\<lambda>p. fst p = a) pairs)) in
              if names = [] then None else Some (map LocalPtr names))
       else if addresses = [] then None else Some [])"
proof -
  let ?name = "canonical_name (name_text (q_name q))"
  have hold: "map_of (by_name (hosts_parse s)) n =
      (if n \<in> fst ` set (swapped (file_pairs s)) then Some (listed (swapped (file_pairs s)) n) else None)"
    "map_of (by_address (hosts_parse s)) a =
      (if a \<in> fst ` set (file_pairs s) then Some (listed (file_pairs s) a) else None)" for n a
    using hosts_parse_holds[of s] unfolding hosts_hold_def holds_pairs_def by blast+
  have swap: "map snd (filter (\<lambda>p. fst p = n) (swapped ps)) = map fst (filter (\<lambda>p. snd p = n) ps)" for n and ps :: "(ip_addr \<times> string) list"
    by (induction ps) auto
  have merge: "(case (if k \<in> fst ` set ps then Some (listed ps k) else None) of None \<Rightarrow> acc | Some vs \<Rightarrow> push_all_new acc vs) =
      push_all_new acc (map snd (filter (\<lambda>p. fst p = k) ps))" for k :: 'k and ps :: "('k \<times> 'v) list" and acc
  proof (cases "k \<in> fst ` set ps")
    case False
    then have "filter (\<lambda>p. fst p = k) ps = []" by (force simp: filter_empty_conv)
    then show ?thesis using False by simp
  qed (simp add: push_all_new_listed)
  have known: "known_name (hosts_parse s) (name_text (q_name q)) \<longleftrightarrow>
      push_all_new (synthetic_addresses ?name @ (case parse_ip_addr ?name of None \<Rightarrow> [] | Some a \<Rightarrow> [a]))
        (map fst (filter (\<lambda>p. snd p = ?name) (file_pairs s))) \<noteq> []"
  proof -
    have "push_all_new acc xs = [] \<longleftrightarrow> acc = [] \<and> xs = []" for acc xs :: "ip_addr list"
      by (metis Un_empty set_empty set_push_all_new)
    moreover have "map fst (filter (\<lambda>p. snd p = ?name) (file_pairs s)) = [] \<longleftrightarrow> ?name \<notin> fst ` set (swapped (file_pairs s))"
      by (force simp: filter_empty_conv)
    ultimately show ?thesis unfolding known_name_def Let_def hold by (auto split: option.splits)
  qed
  have fwd: "lookup_forward (hosts_parse s) q =
      (let addresses = push_all_new (synthetic_addresses ?name @ (case parse_ip_addr ?name of None \<Rightarrow> [] | Some a \<Rightarrow> [a]))
         (map fst (filter (\<lambda>p. snd p = ?name) (file_pairs s))) in
       if addresses = [] then None else Some (List.map_filter (address_record (q_type q)) addresses))"
    unfolding lookup_forward_def Let_def hold merge swap by (cases "parse_ip_addr ?name") simp_all
  have rev: "lookup_reverse (hosts_parse s) q = (case parse_reverse_name (name_text (q_name q)) of None \<Rightarrow> None
      | Some a \<Rightarrow> let names = push_all_new (synthetic_names a) (map snd (filter (\<lambda>p. fst p = a) (file_pairs s))) in
          if names = [] then None else Some (map LocalPtr names))"
    unfolding lookup_reverse_def Let_def hold merge by (cases "parse_reverse_name (name_text (q_name q))") simp_all
  have cls: "\<not> (q_class q \<noteq> CLASS_IN \<and> q_class q \<noteq> CLASS_ANY)" using assms by blast
  have types: "q_type q \<in> {TYPE_A, TYPE_AAAA, 255} \<longleftrightarrow> q_type q = TYPE_A \<or> q_type q = TYPE_AAAA \<or> q_type q = 255" by simp
  have flip: "(if \<not> b then x else y) = (if b then y else x)" for b and x y :: "local_record list option" by simp
  show ?thesis unfolding hosts_lookup_def fwd rev Let_def known if_not_P[OF cls] types flip ..
qed

theorem hosts_lookup_exact_witness:
  "let s = ''192.0.2.10 Host.Example.  alias # x'' @ [line_feed] @ ''192.0.2.11 alias'' @ [line_feed];
       q = \<lparr>q_name = \<lparr>name_text = ''ALIAS.'', canonical_wire = []\<rparr>, q_type = TYPE_A, q_class = CLASS_IN, q_next_offset = 0\<rparr> in
   hosts_lookup (hosts_parse s) q = Some [LocalA (ipv4_new 192 0 2 10), LocalA (ipv4_new 192 0 2 11)]"
proof -
  let ?s = "''192.0.2.10 Host.Example.  alias # x'' @ [line_feed] @ ''192.0.2.11 alias'' @ [line_feed]"
  let ?q = "\<lparr>q_name = \<lparr>name_text = ''ALIAS.'', canonical_wire = []\<rparr>, q_type = TYPE_A, q_class = CLASS_IN, q_next_offset = 0\<rparr>"
  have pairs: "file_pairs ?s = [(V4 (ipv4_new 192 0 2 10), ''host.example''), (V4 (ipv4_new 192 0 2 10), ''alias''),
      (V4 (ipv4_new 192 0 2 11), ''alias'')]" by code_simp
  have name: "canonical_name ''ALIAS.'' = ''alias''" by code_simp
  have more: "synthetic_addresses ''alias'' = []" "parse_ip_addr ''alias'' = None" by code_simp+
  have ne: "V4 (ipv4_new 192 0 2 10) \<noteq> V4 (ipv4_new 192 0 2 11)" by code_simp
  have "q_class ?q = CLASS_IN \<or> q_class ?q = CLASS_ANY" by simp
  from hosts_lookup_exact[OF this, of ?s] show ?thesis
    unfolding Let_def pairs question.select_convs dns_name.select_convs name more
    using ne by (simp add: push_new_def List.map_filter_simps)
qed

end
