(* ===== verification/Upstream.thy ===== *)
theory Upstream
  imports Edns Wire_Dnssec Routing
begin

text \<open>
  One exchange with an upstream server, from \<open>src/src/resolver_edns.rs\<close>,
  \<open>src/src/resolver_methods_04.rs\<close>, \<open>src/src/resolver_prelude.rs\<close> and \<open>src/src/tls.rs\<close>: the attempt budget, the
  TLS capability, framing and matching of responses, and the loop that adapts feature level
  and transport to what the server answers. The network and the clock are operations on an
  abstract world that the exchange threads through; everything else is computed as in the
  source. The state of the server is passed along and returned in every case.
\<close>

section \<open>Errors\<close>

datatype io_kind = IoTimedOut | IoWouldBlock | IoOther

datatype resolve_error =
    ReIo io_kind string
  | ReWire wire_error
  | ReLink link_error
  | NoNameServers
  | NoSuchResourceRecord
  | DnsError u16 string
  | DnssecValidationFailed string "u16 option" "string option"
  | NoTrustAnchor
  | QueryAborted
  | QueryRefused
  | ResourceRecordTypeObsolete
  | InconsistentServiceRecords
  | StubLoop
  | UnsupportedFamily int
  | Protocol string

fun is_timeout :: "resolve_error \<Rightarrow> bool" where
  "is_timeout (ReIo k _) = (k = IoTimedOut \<or> k = IoWouldBlock)"
| "is_timeout _ = False"

fun varlink_id :: "resolve_error \<Rightarrow> string" where
  "varlink_id NoNameServers = ''io.systemd.Resolve.NoNameServers''"
| "varlink_id NoSuchResourceRecord = ''io.systemd.Resolve.NoSuchResourceRecord''"
| "varlink_id (DnsError _ _) = ''io.systemd.Resolve.DNSError''"
| "varlink_id (DnssecValidationFailed _ _ _) = ''io.systemd.Resolve.DNSSECValidationFailed''"
| "varlink_id NoTrustAnchor = ''io.systemd.Resolve.NoTrustAnchor''"
| "varlink_id QueryAborted = ''io.systemd.Resolve.QueryAborted''"
| "varlink_id QueryRefused = ''io.systemd.Resolve.QueryRefused''"
| "varlink_id ResourceRecordTypeObsolete = ''io.systemd.Resolve.ResourceRecordTypeObsolete''"
| "varlink_id InconsistentServiceRecords = ''io.systemd.Resolve.InconsistentServiceRecords''"
| "varlink_id StubLoop = ''io.systemd.Resolve.StubLoop''"
| "varlink_id (UnsupportedFamily _) = ''io.systemd.Resolve.BadAddressSize''"
| "varlink_id (ReLink e) =
     (case e of NoSuchLink _ \<Rightarrow> ''io.systemd.Resolve.NoSuchLink'' | _ \<Rightarrow> ''io.systemd.Resolve.InvalidParameter'')"
| "varlink_id (ReWire e) =
     (if e = CnameLoop then ''io.systemd.Resolve.CNAMELoop'' else ''io.systemd.Resolve.MaxAttemptsReached'')"
| "varlink_id (ReIo k _) =
     (if k = IoTimedOut \<or> k = IoWouldBlock then ''io.systemd.Resolve.QueryTimedOut''
      else ''io.systemd.Resolve.MaxAttemptsReached'')"
| "varlink_id (Protocol _) = ''io.systemd.Resolve.MaxAttemptsReached''"

abbreviation wire_result :: "wire_error + 'a \<Rightarrow> resolve_error + 'a" where
  "wire_result \<equiv> map_err ReWire"

section \<open>TLS capability\<close>

definition TLS_FEATURE_GRACE_PERIOD_MIN :: duration where
  "TLS_FEATURE_GRACE_PERIOD_MIN = from_secs (5 * 60)"

definition TLS_FEATURE_GRACE_PERIOD_MAX :: duration where
  "TLS_FEATURE_GRACE_PERIOD_MAX = from_secs (6 * 60 * 60)"

record tls_capability =
  tc_possible :: bool
  tc_verified :: bool
  tc_retry_after :: "instant option"
  tc_grace_period :: duration

definition tls_default :: tls_capability where
  "tls_default = \<lparr>tc_possible = True, tc_verified = False, tc_retry_after = None,
     tc_grace_period = TLS_FEATURE_GRACE_PERIOD_MIN\<rparr>"

definition tls_possible :: "tls_capability \<Rightarrow> bool \<Rightarrow> instant \<Rightarrow> tls_capability \<times> bool" where
  "tls_possible c strict now =
     (if strict then (c, True)
      else
        let c = (if \<not> tc_possible c \<and> (case tc_retry_after c of None \<Rightarrow> False | Some t \<Rightarrow> t \<le> now)
                 then c\<lparr>tc_possible := True, tc_retry_after := None,
                        tc_grace_period := min (duration_saturating_mul (tc_grace_period c) 2)
                                             TLS_FEATURE_GRACE_PERIOD_MAX\<rparr>
                 else c) in
        (c, tc_possible c))"

definition tls_record_success :: "tls_capability \<Rightarrow> tls_capability" where
  "tls_record_success c = c\<lparr>tc_possible := True, tc_verified := True, tc_retry_after := None\<rparr>"

definition tls_record_failure :: "tls_capability \<Rightarrow> bool \<Rightarrow> instant \<Rightarrow> tls_capability" where
  "tls_record_failure c strict now =
     (if strict then c
      else c\<lparr>tc_possible := False, tc_retry_after := instant_checked_add now (tc_grace_period c)\<rparr>)"

section \<open>Servers\<close>

record server_key =
  sk_scope :: int
  sk_server :: socket_addr
  sk_slot :: nat

definition key_with_slot :: "scope_kind \<Rightarrow> socket_addr \<Rightarrow> nat \<Rightarrow> server_key" where
  "key_with_slot scope server slot =
     \<lparr>sk_scope = (case scope of ScopeGlobal \<Rightarrow> 0 | ScopeFallback \<Rightarrow> -1 | ScopeLink i \<Rightarrow> i),
      sk_server = server, sk_slot = slot\<rparr>"

definition key_scope_kind :: "server_key \<Rightarrow> scope_kind" where
  "key_scope_kind k =
     (if sk_scope k > 0 then ScopeLink (sk_scope k) else if sk_scope k < 0 then ScopeFallback else ScopeGlobal)"

definition key_ifindex :: "server_key \<Rightarrow> int option" where
  "key_ifindex k = (if sk_scope k > 0 then Some (sk_scope k) else None)"

text \<open>The round-trip average is a floating-point number of type \<open>'f\<close>.\<close>

record 'f server_metric =
  sm_round_trip :: 'f
  sm_failures :: int
  sm_feature_level :: int
  sm_cooldown_ms :: int

record 'f server_state =
  ss_metric :: "'f server_metric"
  ss_cooldown_until :: "instant option"
  ss_features :: feature_state
  ss_tls :: tls_capability
  ss_transport :: transport_state
  ss_missing_root_rrsig :: bool
  ss_packet_do_off :: bool
  ss_packet_invalid :: bool

section \<open>The attempt budget\<close>

definition DNS_TRANSACTION_ATTEMPTS_MAX :: nat where "DNS_TRANSACTION_ATTEMPTS_MAX = 24"
definition DNS_QUERY_TIMEOUT :: duration where "DNS_QUERY_TIMEOUT = from_secs 120"
definition DNS_TRANSACTION_UDP_TIMEOUT :: duration where "DNS_TRANSACTION_UDP_TIMEOUT = from_secs 5"
definition DNS_TRANSACTION_TCP_TIMEOUT :: duration where "DNS_TRANSACTION_TCP_TIMEOUT = from_secs 10"

record attempt_budget =
  ab_attempts :: nat
  ab_deadline :: instant

definition budget_new :: "instant \<Rightarrow> attempt_budget" where
  "budget_new now = \<lparr>ab_attempts = 0,
     ab_deadline = (case instant_checked_add now DNS_QUERY_TIMEOUT of None \<Rightarrow> now | Some t \<Rightarrow> t)\<rparr>"

definition query_timed_out :: resolve_error where
  "query_timed_out = ReIo IoTimedOut ''DNS query timed out''"

definition budget_remaining :: "attempt_budget \<Rightarrow> instant \<Rightarrow> resolve_error + duration" where
  "budget_remaining b now = (if now < ab_deadline b then Inr (ab_deadline b - now) else Inl query_timed_out)"

definition budget_exhausted :: "attempt_budget \<Rightarrow> bool" where
  "budget_exhausted b \<longleftrightarrow> ab_attempts b \<ge> DNS_TRANSACTION_ATTEMPTS_MAX"

definition budget_expired :: "attempt_budget \<Rightarrow> instant \<Rightarrow> bool" where
  "budget_expired b now \<longleftrightarrow> now \<ge> ab_deadline b"

definition begin_attempt :: "attempt_budget \<Rightarrow> instant \<Rightarrow> attempt_budget \<times> (resolve_error + duration)" where
  "begin_attempt b now =
     (if budget_exhausted b then (b, Inl (Protocol ''maximum DNS transaction attempts reached''))
      else
        case budget_remaining b now of
          Inl e \<Rightarrow> (b, Inl e)
        | Inr remaining \<Rightarrow> (b\<lparr>ab_attempts := ab_attempts b + 1\<rparr>, Inr remaining))"

section \<open>The network\<close>

text \<open>
  A stream transport: taking a pooled or new connection (and whether it was reused), opening a
  new one, and sending a framed query and receiving what the peer sends back. Giving a
  connection back to the pool is a change of the world as well.
\<close>

record 'w stream_net =
  st_take :: "server_key \<Rightarrow> duration \<Rightarrow> 'w \<Rightarrow> 'w \<times> (resolve_error + bool)"
  st_new :: "server_key \<Rightarrow> duration \<Rightarrow> 'w \<Rightarrow> 'w \<times> (resolve_error + unit)"
  st_talk :: "server_key \<Rightarrow> bytes \<Rightarrow> 'w \<Rightarrow> 'w \<times> (resolve_error + bytes)"
  st_recycle :: "server_key \<Rightarrow> 'w \<Rightarrow> 'w"

text \<open>
  The datagram transport either fails to open the socket or to send, or gives the results of
  the receive calls until the deadline.
\<close>

record 'w network =
  nw_now :: "'w \<Rightarrow> 'w \<times> instant"
  nw_path_mtu :: "server_key \<Rightarrow> 'w \<Rightarrow> 'w \<times> u32 option"
  nw_udp :: "server_key \<Rightarrow> bytes \<Rightarrow> duration \<Rightarrow> 'w \<Rightarrow> 'w \<times> (resolve_error + (resolve_error + bytes \<times> u32) list)"
  nw_udp_recycle :: "server_key \<Rightarrow> 'w \<Rightarrow> 'w"
  nw_tcp :: "'w stream_net"
  nw_tls :: "bool \<Rightarrow> 'w stream_net"
  nw_tls_forget :: "server_key \<Rightarrow> bool \<Rightarrow> 'w \<Rightarrow> 'w"

definition udp_transaction_timeout :: "duration \<Rightarrow> duration \<Rightarrow> duration" where
  "udp_transaction_timeout query_timeout remaining =
     min (min query_timeout DNS_TRANSACTION_UDP_TIMEOUT) remaining"

definition tcp_transaction_timeout :: "duration \<Rightarrow> duration \<Rightarrow> duration" where
  "tcp_transaction_timeout query_timeout remaining =
     min (if query_timeout = DNS_TRANSACTION_UDP_TIMEOUT then DNS_TRANSACTION_TCP_TIMEOUT
          else min query_timeout DNS_TRANSACTION_TCP_TIMEOUT) remaining"

text \<open>Datagrams that do not answer the query are skipped.\<close>

fun udp_receive :: "bytes \<Rightarrow> (resolve_error + bytes \<times> u32) list \<Rightarrow> resolve_error + bytes \<times> u32" where
  "udp_receive query [] = Inl (ReIo IoTimedOut ''DNS UDP query timed out'')"
| "udp_receive query (Inl e # rs) = Inl e"
| "udp_receive query (Inr (response, fragment_size) # rs) =
     (case response_matches query response of
        Inl _ \<Rightarrow> udp_receive query rs
      | Inr _ \<Rightarrow> Inr (response, fragment_size))"

definition exchange_udp ::
  "'w network \<Rightarrow> duration \<Rightarrow> server_key \<Rightarrow> bytes \<Rightarrow> duration \<Rightarrow> 'w \<Rightarrow> 'w \<times> (resolve_error + bytes \<times> u32)" where
  "exchange_udp net query_timeout server query remaining w =
     (let (w, r) = nw_udp net server query (udp_transaction_timeout query_timeout remaining) w;
          result = rbind r (udp_receive query) in
      (if is_ok result then nw_udp_recycle net server w else w, result))"

text \<open>Reading a framed response from the bytes a stream delivers; \<open>label\<close> is \<open>TCP\<close> or \<open>TLS\<close>.\<close>

definition read_frame :: "string \<Rightarrow> bytes \<Rightarrow> bytes \<Rightarrow> resolve_error + bytes" where
  "read_frame label query stream =
     (let short = ReIo IoOther ''failed to fill whole buffer'' in
      if length stream < 2 then Inl short
      else
        let len = unat (u16_from_be (stream ! 0) (stream ! 1)) in
        if len < DNS_HEADER_LEN then Inl (Protocol (''short DNS-over-'' @ label @ '' frame''))
        else if length stream < 2 + len then Inl short
        else
          let response = take len (drop 2 stream) in
          rbind (wire_result (response_matches query response)) (\<lambda>_.
          rbind (wire_result (header_parse response)) (\<lambda>header.
          if truncated header then Inl (Protocol (''truncated DNS-over-'' @ label @ '' response''))
          else Inr response)))"

definition exchange_stream_once ::
  "'w stream_net \<Rightarrow> string \<Rightarrow> server_key \<Rightarrow> bytes \<Rightarrow> 'w \<Rightarrow> 'w \<times> (resolve_error + bytes)" where
  "exchange_stream_once st label server query w =
     (if length query > 65535
      then (w, Inl (Protocol (''DNS query exceeds the '' @ label @ '' frame limit'')))
      else
        let (w, r) = st_talk st server (u16_to_be (of_nat (length query)) @ query) w in
        (w, rbind r (read_frame label query)))"

definition exchange_stream ::
  "'w network \<Rightarrow> 'w stream_net \<Rightarrow> string \<Rightarrow> duration \<Rightarrow> server_key \<Rightarrow> bytes \<Rightarrow> duration \<Rightarrow> 'w
   \<Rightarrow> 'w \<times> (resolve_error + bytes)" where
  "exchange_stream net st label query_timeout server query remaining w =
     (let timeout = tcp_transaction_timeout query_timeout remaining;
          (w, started) = nw_now net w;
          (w, taken) = st_take st server timeout w in
      case taken of
        Inl e \<Rightarrow> (w, Inl e)
      | Inr reused \<Rightarrow>
          let (w, result) = exchange_stream_once st label server query w in
          if is_ok result then (st_recycle st server w, result)
          else if \<not> reused then (w, result)
          else
            let (w, now) = nw_now net w; elapsed = now - started in
            if timeout \<le> elapsed then (w, result)
            else
              let (w, fresh) = st_new st server (timeout - elapsed) w in
              (case fresh of
                Inl e \<Rightarrow> (w, Inl e)
              | Inr _ \<Rightarrow>
                  let (w, result) = exchange_stream_once st label server query w in
                  (if is_ok result then st_recycle st server w else w, result)))"

text \<open>
  The receive size a query announces, from \<open>resolved_dns_udp_payload_size\<close> in \<open>src/ffi/native.c\<close>,
  in 32-bit arithmetic; a path MTU of 0 stands for an unknown one.
\<close>

definition UDP4_PACKET_HEADER_SIZE :: u32 where "UDP4_PACKET_HEADER_SIZE = 28"
definition UDP6_PACKET_HEADER_SIZE :: u32 where "UDP6_PACKET_HEADER_SIZE = 48"
definition DNS_PACKET_UNICAST_SIZE_MAX :: u32 where "DNS_PACKET_UNICAST_SIZE_MAX = 512"
definition DNS_PACKET_UNICAST_SIZE_LARGE_MAX :: u32 where "DNS_PACKET_UNICAST_SIZE_LARGE_MAX = 1232"
definition DNS_PACKET_INTERNET_SIZE_MAX :: u32 where "DNS_PACKET_INTERNET_SIZE_MAX = 4096"
definition DNS_PACKET_SIZE_MAX :: u32 where "DNS_PACKET_SIZE_MAX = 65535"

definition resolved_dns_udp_payload_size :: "u32 \<Rightarrow> bool \<Rightarrow> bool \<Rightarrow> bool \<Rightarrow> u32 \<Rightarrow> u16" where
  "resolved_dns_udp_payload_size path_mtu ipv6 loopback fragmented received_udp_fragment_max =
     (let header_size = (if ipv6 then UDP6_PACKET_HEADER_SIZE else UDP4_PACKET_HEADER_SIZE);
          packet_size =
            (if loopback then 65536 - header_size
             else
               let packet_size =
                     (if path_mtu = 0 then DNS_PACKET_UNICAST_SIZE_LARGE_MAX
                      else if path_mtu > header_size then path_mtu - header_size
                      else 0);
                   packet_size =
                     (if fragmented \<and> received_udp_fragment_max > 0 \<and> received_udp_fragment_max < packet_size
                      then received_udp_fragment_max else packet_size) in
               if packet_size > DNS_PACKET_INTERNET_SIZE_MAX then DNS_PACKET_INTERNET_SIZE_MAX else packet_size);
          packet_size = (if packet_size < DNS_PACKET_UNICAST_SIZE_MAX then DNS_PACKET_UNICAST_SIZE_MAX else packet_size);
          packet_size = (if packet_size > DNS_PACKET_SIZE_MAX then DNS_PACKET_SIZE_MAX else packet_size) in
      ucast packet_size)"

definition dns_udp_payload_size :: "u32 option \<Rightarrow> bool \<Rightarrow> bool \<Rightarrow> bool \<Rightarrow> u32 \<Rightarrow> u16" where
  "dns_udp_payload_size path_mtu =
     resolved_dns_udp_payload_size (case path_mtu of None \<Rightarrow> 0 | Some mtu \<Rightarrow> mtu)"

section \<open>One step of the exchange\<close>

definition RCODE_FORMERR :: u16 where "RCODE_FORMERR = 1"
definition RCODE_SERVFAIL :: u16 where "RCODE_SERVFAIL = 2"
definition RCODE_NOTIMP :: u16 where "RCODE_NOTIMP = 4"
definition RCODE_BADVERS :: u16 where "RCODE_BADVERS = 16"
definition EDNS_OPTION_EXTENDED_ERROR :: u16 where "EDNS_OPTION_EXTENDED_ERROR = 15"
definition EDE_NOT_READY :: u16 where "EDE_NOT_READY = 14"
definition MAX_FEATURE_RETRIES :: nat where "MAX_FEATURE_RETRIES = 2"
definition MAX_TRANSPORT_RETRIES :: nat where "MAX_TRANSPORT_RETRIES = 2"

definition preferred_feature_level :: "validation_mode \<Rightarrow> feature_level" where
  "preferred_feature_level mode = (if mode = ValidationNo then FlEdns0 else FlDnssecOk)"

definition extended_error_code :: "opt_record \<Rightarrow> wire_error + u16 option" where
  "extended_error_code opt =
     (case find (\<lambda>option. opt_code option = EDNS_OPTION_EXTENDED_ERROR) (or_options opt) of
        None \<Rightarrow> Inr None
      | Some option \<Rightarrow>
          if length (opt_data option) < 2 then Inl InvalidRecord
          else Inr (Some (u16_from_be (opt_data option ! 0) (opt_data option ! 1))))"

definition udp_requires_tcp_retry :: "bool \<Rightarrow> u32 \<Rightarrow> feature_level \<Rightarrow> bool" where
  "udp_requires_tcp_retry was_truncated fragment_size level \<longleftrightarrow>
     was_truncated \<or> (fragment_size \<noteq> 0 \<and> level > FlUdp)"

definition rcode_requests_feature_downgrade :: "u16 \<Rightarrow> bool" where
  "rcode_requests_feature_downgrade rcode \<longleftrightarrow>
     rcode = RCODE_FORMERR \<or> rcode = RCODE_SERVFAIL \<or> rcode = RCODE_NOTIMP"

record 'w exchange_config =
  xc_net :: "'w network"
  xc_server :: server_key
  xc_query :: bytes
  xc_dnssec :: validation_mode
  xc_tls :: tls_mode
  xc_timeout :: duration

abbreviation xc_strict :: "'w exchange_config \<Rightarrow> bool" where
  "xc_strict cfg \<equiv> xc_tls cfg = TlsYes"

abbreviation xc_ipv6 :: "'w exchange_config \<Rightarrow> bool" where
  "xc_ipv6 cfg \<equiv> (case sk_server (xc_server cfg) of SocketV4 _ _ \<Rightarrow> False | SocketV6 _ _ _ _ \<Rightarrow> True)"

record ('f, 'w) exchange_state =
  ex_server :: "'f server_state"
  ex_world :: 'w
  ex_budget :: attempt_budget
  ex_forced :: "feature_level option"
  ex_rcode_probe :: bool
  ex_servfail_retried :: bool
  ex_feature_retries :: nat
  ex_transport_retries :: nat

definition read_clock :: "'w exchange_config \<Rightarrow> ('f, 'w) exchange_state \<Rightarrow> ('f, 'w) exchange_state \<times> instant" where
  "read_clock cfg x = (let (w, now) = nw_now (xc_net cfg) (ex_world x) in (x\<lparr>ex_world := w\<rparr>, now))"

definition with_features :: "(feature_state \<Rightarrow> feature_state) \<Rightarrow> ('f, 'w) exchange_state \<Rightarrow> ('f, 'w) exchange_state" where
  "with_features f x = x\<lparr>ex_server := (ex_server x)\<lparr>ss_features := f (ss_features (ex_server x))\<rparr>\<rparr>"

definition with_transport :: "(transport_state \<Rightarrow> transport_state) \<Rightarrow> ('f, 'w) exchange_state \<Rightarrow> ('f, 'w) exchange_state" where
  "with_transport f x = x\<lparr>ex_server := (ex_server x)\<lparr>ss_transport := f (ss_transport (ex_server x))\<rparr>\<rparr>"

definition with_tls :: "(tls_capability \<Rightarrow> tls_capability) \<Rightarrow> ('f, 'w) exchange_state \<Rightarrow> ('f, 'w) exchange_state" where
  "with_tls f x = x\<lparr>ex_server := (ex_server x)\<lparr>ss_tls := f (ss_tls (ex_server x))\<rparr>\<rparr>"

definition rx_tls_failure :: "'w exchange_config \<Rightarrow> ('f, 'w) exchange_state \<Rightarrow> ('f, 'w) exchange_state" where
  "rx_tls_failure cfg x =
     (let (x, now) = read_clock cfg x;
          x = with_tls (\<lambda>c. tls_record_failure c (xc_strict cfg) now) x in
      x\<lparr>ex_world := nw_tls_forget (xc_net cfg) (xc_server cfg) (xc_strict cfg) (ex_world x)\<rparr>)"

definition rx_bad_opt ::
  "'w exchange_config \<Rightarrow> feature_level \<Rightarrow> ('f, 'w) exchange_state \<Rightarrow> ('f, 'w) exchange_state \<times> feature_level" where
  "rx_bad_opt cfg level x =
     (let (x, now) = read_clock cfg x;
          (f, lower) = record_bad_opt (ss_features (ex_server x)) level now in
      (with_transport clear_failures (with_features (\<lambda>_. f) x), lower))"

definition rx_do_off ::
  "'w exchange_config \<Rightarrow> feature_level \<Rightarrow> ('f, 'w) exchange_state \<Rightarrow> ('f, 'w) exchange_state \<times> feature_level" where
  "rx_do_off cfg level x =
     (let x = x\<lparr>ex_server := (ex_server x)\<lparr>ss_packet_do_off := True\<rparr>\<rparr>;
          (x, now) = read_clock cfg x;
          (f, lower) = record_do_off (ss_features (ex_server x)) level now in
      (with_transport clear_failures (with_features (\<lambda>_. f) x), lower))"

definition rx_downgrade ::
  "'w exchange_config \<Rightarrow> feature_level \<Rightarrow> ('f, 'w) exchange_state \<Rightarrow> ('f, 'w) exchange_state" where
  "rx_downgrade cfg level x =
     (let (x, now) = read_clock cfg x in
      with_transport clear_failures (with_features (\<lambda>f. downgrade_to f level now) x))"

definition rx_missing_root_rrsig ::
  "'w exchange_config \<Rightarrow> bool \<Rightarrow> ('f, 'w) exchange_state \<Rightarrow> ('f, 'w) exchange_state \<times> feature_level" where
  "rx_missing_root_rrsig cfg allow_downgrade x =
     (let x = x\<lparr>ex_server := (ex_server x)\<lparr>ss_missing_root_rrsig := True\<rparr>\<rparr> in
      (if allow_downgrade then rx_downgrade cfg FlEdns0 x else x, FlEdns0))"

definition rx_transport_failure ::
  "transport_mode \<Rightarrow> ('f, 'w) exchange_state \<Rightarrow> ('f, 'w) exchange_state \<times> transport_mode option \<times> u8" where
  "rx_transport_failure mode x =
     (let (t, switched) = transport_record_failure (ss_transport (ex_server x)) mode in
      (with_transport (\<lambda>_. t) x, switched, transport_failures t mode))"

definition rx_invalid_packet :: "('f, 'w) exchange_state \<Rightarrow> ('f, 'w) exchange_state" where
  "rx_invalid_packet x = x\<lparr>ex_server := (ex_server x)\<lparr>ss_packet_invalid := True\<rparr>\<rparr>"

text \<open>
  The parts of the loop body end it with a result, start the next iteration, or go on with a
  value.
\<close>

datatype 'a flow = Done "resolve_error + bytes" | Again | Go 'a

definition retry_level :: "feature_level \<Rightarrow> ('f, 'w) exchange_state \<Rightarrow> ('f, 'w) exchange_state" where
  "retry_level level x = x\<lparr>ex_feature_retries := ex_feature_retries x + 1, ex_forced := Some level\<rparr>"

definition check_tls :: "'w exchange_config \<Rightarrow> ('f, 'w) exchange_state \<Rightarrow> ('f, 'w) exchange_state \<times> bool" where
  "check_tls cfg x =
     (if xc_tls cfg = TlsNo then (x, False)
      else
        let (x, now) = read_clock cfg x;
            (c, b) = tls_possible (ss_tls (ex_server x)) (xc_strict cfg) now in
        (with_tls (\<lambda>_. c) x, b))"

definition select_level ::
  "'w exchange_config \<Rightarrow> bool \<Rightarrow> ('f, 'w) exchange_state
   \<Rightarrow> ('f, 'w) exchange_state \<times> feature_level \<times> transport_mode \<times> u16" where
  "select_level cfg use_tls x =
     (let (x, path_mtu) =
            (if use_tls then (x, None)
             else let (w, m) = nw_path_mtu (xc_net cfg) (xc_server cfg) (ex_world x) in (x\<lparr>ex_world := w\<rparr>, m));
          best = (if ss_missing_root_rrsig (ex_server x) \<and> xc_dnssec cfg \<noteq> ValidationYes then FlEdns0
                  else preferred_feature_level (xc_dnssec cfg));
          (x, level) =
            (case ex_forced x of
               Some level \<Rightarrow> (x, level)
             | None \<Rightarrow>
                 let (x, now) = read_clock cfg x;
                     (f, level) = possible_level (ss_features (ex_server x)) best now in
                 (with_features (\<lambda>_. f) x, level));
          t = ss_transport (ex_server x) in
      (x, level, ts_mode t,
       dns_udp_payload_size path_mtu (xc_ipv6 cfg) (ip_is_loopback (sock_ip (sk_server (xc_server cfg))))
         (ts_packet_fragmented t) (ts_received_udp_fragment_max t)))"

definition attempt_tls ::
  "'w exchange_config \<Rightarrow> bytes \<Rightarrow> duration \<Rightarrow> ('f, 'w) exchange_state
   \<Rightarrow> ('f, 'w) exchange_state \<times> (bytes \<times> transport_mode \<times> bool) flow" where
  "attempt_tls cfg packet remaining x =
     (let (w, r) = exchange_stream (xc_net cfg) (nw_tls (xc_net cfg) (xc_strict cfg)) ''TLS'' (xc_timeout cfg)
                     (xc_server cfg) packet remaining (ex_world x);
          x = x\<lparr>ex_world := w\<rparr> in
      case r of
        Inr response \<Rightarrow> (with_tls tls_record_success x, Go (response, ModeTcp, True))
      | Inl e \<Rightarrow>
          (case e of
             ReIo _ _ \<Rightarrow>
               let x = rx_tls_failure cfg x in
               if \<not> xc_strict cfg then (x, Again) else (x, Done (Inl e))
           | _ \<Rightarrow> (x, Done (Inl e))))"

definition exchange_tcp ::
  "'w exchange_config \<Rightarrow> bytes \<Rightarrow> duration \<Rightarrow> ('f, 'w) exchange_state \<Rightarrow> ('f, 'w) exchange_state \<times> (resolve_error + bytes)" where
  "exchange_tcp cfg packet remaining x =
     (let (w, r) = exchange_stream (xc_net cfg) (nw_tcp (xc_net cfg)) ''TCP'' (xc_timeout cfg)
                     (xc_server cfg) packet remaining (ex_world x) in
      (x\<lparr>ex_world := w\<rparr>, r))"

text \<open>After a datagram that is truncated or was fragmented, the query is repeated over TCP.\<close>

definition retry_over_tcp ::
  "'w exchange_config \<Rightarrow> feature_level \<Rightarrow> bytes \<Rightarrow> bool \<Rightarrow> ('f, 'w) exchange_state
   \<Rightarrow> ('f, 'w) exchange_state \<times> (bytes \<times> transport_mode \<times> bool) flow" where
  "retry_over_tcp cfg level packet was_truncated x =
     (let x = with_transport (\<lambda>t. transport_record_success t ModeUdp) x;
          x = (if was_truncated then with_transport record_truncated x else x);
          (x, now) = read_clock cfg x in
      case budget_remaining (ex_budget x) now of
        Inl e \<Rightarrow> (x, Done (Inl e))
      | Inr remaining \<Rightarrow>
          let (x, r) = exchange_tcp cfg packet remaining x in
          (case r of
            Inr response \<Rightarrow>
              (with_transport (\<lambda>t. transport_record_success t ModeTcp) x, Go (response, ModeTcp, False))
          | Inl e \<Rightarrow>
              let (x, _, failures) = rx_transport_failure ModeTcp x in
              if failures \<ge> TRANSPORT_RETRY_ATTEMPTS \<and> level > FlUdp \<and> xc_dnssec cfg \<noteq> ValidationYes
                 \<and> ex_feature_retries x < MAX_FEATURE_RETRIES
              then (retry_level (lower_level level) (rx_downgrade cfg (lower_level level) x), Again)
              else (x, Done (Inl e))))"

text \<open>
  A datagram exchange that failed first lowers the feature level, and at the lowest level counts
  towards a switch to TCP.
\<close>

definition udp_lower ::
  "'w exchange_config \<Rightarrow> feature_level \<Rightarrow> prepared_query \<Rightarrow> ('f, 'w) exchange_state
   \<Rightarrow> ('f, 'w) exchange_state \<times> feature_level option" where
  "udp_lower cfg level outbound x =
     (if managed_opt outbound \<and> xc_dnssec cfg \<noteq> ValidationYes then
        let (x, now) = read_clock cfg x;
            (f, lower) = feature_record_failure (ss_features (ex_server x)) level now in
        (with_features (\<lambda>_. f) x, lower)
      else (x, None))"

definition udp_failed ::
  "'w exchange_config \<Rightarrow> feature_level \<Rightarrow> prepared_query \<Rightarrow> resolve_error \<Rightarrow> ('f, 'w) exchange_state
   \<Rightarrow> ('f, 'w) exchange_state \<times> (bytes \<times> transport_mode \<times> bool) flow" where
  "udp_failed cfg level outbound e x =
     (let (x, lower) = udp_lower cfg level outbound x in
      case (if ex_feature_retries x < MAX_FEATURE_RETRIES then lower else None) of
        Some lower \<Rightarrow> (retry_level lower (with_transport clear_failures x), Again)
      | None \<Rightarrow>
          if level = FlUdp then
            let (x, switched, _) = rx_transport_failure ModeUdp x in
            if switched = Some ModeTcp \<and> ex_transport_retries x < MAX_TRANSPORT_RETRIES
            then (x\<lparr>ex_transport_retries := ex_transport_retries x + 1\<rparr>, Again)
            else (x, Done (Inl e))
          else (x, Done (Inl e)))"

definition attempt_udp ::
  "'w exchange_config \<Rightarrow> feature_level \<Rightarrow> prepared_query \<Rightarrow> duration \<Rightarrow> ('f, 'w) exchange_state
   \<Rightarrow> ('f, 'w) exchange_state \<times> (bytes \<times> transport_mode \<times> bool) flow" where
  "attempt_udp cfg level outbound remaining x =
     (let (w, r) = exchange_udp (xc_net cfg) (xc_timeout cfg) (xc_server cfg) (pq_packet outbound) remaining (ex_world x);
          x = x\<lparr>ex_world := w\<rparr> in
      case r of
        Inr (response, fragment_size) \<Rightarrow>
          let x = with_transport (\<lambda>t. record_udp_packet t (length response) fragment_size (xc_ipv6 cfg)) x in
          (case header_parse response of
             Inl e \<Rightarrow> (x, Done (Inl (ReWire e)))
           | Inr header \<Rightarrow>
               if udp_requires_tcp_retry (truncated header) fragment_size level
               then retry_over_tcp cfg level (pq_packet outbound) (truncated header) x
               else (with_transport (\<lambda>t. transport_record_success t ModeUdp) x, Go (response, ModeUdp, False)))
      | Inl e \<Rightarrow> udp_failed cfg level outbound e x)"

definition attempt_tcp ::
  "'w exchange_config \<Rightarrow> bytes \<Rightarrow> duration \<Rightarrow> ('f, 'w) exchange_state
   \<Rightarrow> ('f, 'w) exchange_state \<times> (bytes \<times> transport_mode \<times> bool) flow" where
  "attempt_tcp cfg packet remaining x =
     (let (x, r) = exchange_tcp cfg packet remaining x in
      case r of
        Inr response \<Rightarrow>
          (with_transport (\<lambda>t. transport_record_success t ModeTcp) x, Go (response, ModeTcp, False))
      | Inl e \<Rightarrow>
          let (x, switched, _) = rx_transport_failure ModeTcp x in
          if switched = Some ModeUdp \<and> ex_transport_retries x < MAX_TRANSPORT_RETRIES
          then (x\<lparr>ex_transport_retries := ex_transport_retries x + 1\<rparr>, Again)
          else (x, Done (Inl e)))"

section \<open>Judging the response\<close>

definition client_result :: "'w exchange_config \<Rightarrow> bytes \<Rightarrow> resolve_error + bytes" where
  "client_result cfg response = wire_result (response_for_client (xc_query cfg) response)"

definition lower_or_accept ::
  "'w exchange_config \<Rightarrow> bytes \<Rightarrow> feature_level \<Rightarrow> ('f, 'w) exchange_state \<Rightarrow> ('f, 'w) exchange_state \<times> unit flow" where
  "lower_or_accept cfg response lower x =
     (if ex_feature_retries x < MAX_FEATURE_RETRIES then (retry_level lower x, Again)
      else (x, Done (client_result cfg response)))"

definition check_edns ::
  "'w exchange_config \<Rightarrow> feature_level \<Rightarrow> prepared_query \<Rightarrow> bytes \<Rightarrow> opt_record option \<Rightarrow> u16
   \<Rightarrow> ('f, 'w) exchange_state \<Rightarrow> ('f, 'w) exchange_state \<times> unit flow" where
  "check_edns cfg level outbound response opt rcode x =
     (if \<not> (managed_opt outbound \<and> sent_edns outbound) then (x, Go ())
      else
        case opt of
          None \<Rightarrow>
            if xc_dnssec cfg = ValidationYes
            then (x, Done (Inl (Protocol ''DNS server omitted a required EDNS response'')))
            else
              let (x, lower) = rx_bad_opt cfg level x in
              if rcode = 0 \<or> \<not> rcode_requests_feature_downgrade rcode
              then (x, Done (client_result cfg response))
              else lower_or_accept cfg response lower x
        | Some opt \<Rightarrow>
            if or_version opt \<noteq> 0 \<or> rcode = RCODE_BADVERS then
              if xc_dnssec cfg = ValidationYes
              then (x, Done (Inl (Protocol ''DNS server does not support the required EDNS version'')))
              else
                let (x, lower) = rx_bad_opt cfg level x in
                lower_or_accept cfg response lower x
            else if level_dnssec_ok level \<and> \<not> opt_dnssec_ok opt then
              if xc_dnssec cfg = ValidationYes
              then (x, Done (Inl (Protocol ''DNS server did not echo the EDNS DO flag'')))
              else
                let (x, lower) = rx_do_off cfg level x in
                lower_or_accept cfg response lower x
            else (x, Go ()))"

definition check_root_rrsig ::
  "'w exchange_config \<Rightarrow> feature_level \<Rightarrow> prepared_query \<Rightarrow> bytes \<Rightarrow> ('f, 'w) exchange_state
   \<Rightarrow> ('f, 'w) exchange_state \<times> unit flow" where
  "check_root_rrsig cfg level outbound response x =
     (if \<not> (managed_opt outbound \<and> level_dnssec_ok level) then (x, Go ())
      else
        case root_rrsig_missing response of
          Inl e \<Rightarrow> (x, Done (Inl (ReWire e)))
        | Inr missing \<Rightarrow>
            if \<not> missing then (x, Go ())
            else
              let allow_downgrade = (xc_dnssec cfg \<noteq> ValidationYes);
                  (x, lower) = rx_missing_root_rrsig cfg allow_downgrade x in
              if \<not> allow_downgrade
              then (x, Done (Inl (Protocol ''DNS server omitted required root RRSIG records'')))
              else if ex_feature_retries x < MAX_FEATURE_RETRIES then (retry_level lower x, Again)
              else (x, Done (Inl (Protocol ''DNS server repeatedly omitted required root RRSIG records''))))"

definition check_servfail ::
  "'w exchange_config \<Rightarrow> feature_level \<Rightarrow> bytes \<Rightarrow> opt_record option \<Rightarrow> u16 \<Rightarrow> ('f, 'w) exchange_state
   \<Rightarrow> ('f, 'w) exchange_state \<times> unit flow" where
  "check_servfail cfg level response opt rcode x =
     (if rcode \<noteq> RCODE_SERVFAIL then (x, Go ())
      else
        case (case opt of None \<Rightarrow> Inr None | Some opt \<Rightarrow> extended_error_code opt) of
          Inl e \<Rightarrow> (x, Done (Inl (ReWire e)))
        | Inr (Some ede) \<Rightarrow>
            if ede = EDE_NOT_READY then (x\<lparr>ex_forced := Some level\<rparr>, Again)
            else (x, Done (client_result cfg response))
        | Inr None \<Rightarrow>
            if level > FlUdp \<and> xc_dnssec cfg \<noteq> ValidationYes \<and> \<not> ex_servfail_retried x
            then (x\<lparr>ex_servfail_retried := True, ex_forced := Some level\<rparr>, Again)
            else (x, Go ()))"

definition check_rcode ::
  "'w exchange_config \<Rightarrow> feature_level \<Rightarrow> u16 \<Rightarrow> ('f, 'w) exchange_state \<Rightarrow> ('f, 'w) exchange_state \<times> unit flow" where
  "check_rcode cfg level rcode x =
     (if rcode_requests_feature_downgrade rcode \<and> level > FlUdp \<and> xc_dnssec cfg \<noteq> ValidationYes
         \<and> ex_feature_retries x < MAX_FEATURE_RETRIES
      then ((retry_level (lower_level level) x)\<lparr>ex_rcode_probe := True\<rparr>, Again)
      else (x, Go ()))"

definition accept_response ::
  "'w exchange_config \<Rightarrow> feature_level \<Rightarrow> prepared_query \<Rightarrow> u16 \<Rightarrow> transport_mode \<Rightarrow> bool
   \<Rightarrow> ('f, 'w) exchange_state \<Rightarrow> ('f, 'w) exchange_state" where
  "accept_response cfg level outbound rcode response_transport via_tls x =
     (if managed_opt outbound then
        let x = (if ex_rcode_probe x \<and> \<not> rcode_requests_feature_downgrade rcode then rx_downgrade cfg level x else x);
            verified_level = (if response_transport = ModeUdp \<or> via_tls then level else FlUdp) in
        with_features (\<lambda>f. feature_record_success f verified_level) x
      else x)"

definition flow_then ::
  "('f, 'w) exchange_state \<times> 'a flow \<Rightarrow> (('f, 'w) exchange_state \<Rightarrow> 'a \<Rightarrow> ('f, 'w) exchange_state \<times> 'b flow)
   \<Rightarrow> ('f, 'w) exchange_state \<times> 'b flow" where
  "flow_then r k =
     (case r of (x, Done d) \<Rightarrow> (x, Done d) | (x, Again) \<Rightarrow> (x, Again) | (x, Go a) \<Rightarrow> k x a)"

definition judge_response ::
  "'w exchange_config \<Rightarrow> feature_level \<Rightarrow> prepared_query \<Rightarrow> bytes \<times> transport_mode \<times> bool
   \<Rightarrow> ('f, 'w) exchange_state \<Rightarrow> ('f, 'w) exchange_state \<times> unit flow" where
  "judge_response cfg level outbound answer x =
     (let (response, response_transport, via_tls) = answer in
      case rbind (inspect_opt response) (\<lambda>opt. rbind (full_rcode response opt) (\<lambda>rcode. Inr (opt, rcode))) of
        Inl e \<Rightarrow> (rx_invalid_packet x, Done (Inl (ReWire e)))
      | Inr (opt, rcode) \<Rightarrow>
          flow_then (check_edns cfg level outbound response opt rcode x) (\<lambda>x _.
          flow_then (check_root_rrsig cfg level outbound response x) (\<lambda>x _.
          flow_then (check_servfail cfg level response opt rcode x) (\<lambda>x _.
          flow_then (check_rcode cfg level rcode x) (\<lambda>x _.
          (accept_response cfg level outbound rcode response_transport via_tls x,
           Done (client_result cfg response)))))))"

section \<open>The loop\<close>

definition exchange_step ::
  "'w exchange_config \<Rightarrow> ('f, 'w) exchange_state \<Rightarrow> ('f, 'w) exchange_state \<times> unit flow" where
  "exchange_step cfg x =
     (let (x, use_tls) = check_tls cfg x;
          (x, level, transport, payload_size) = select_level cfg use_tls x in
      case prepare_query (xc_query cfg) level payload_size of
        Inl e \<Rightarrow> (x, Done (Inl (ReWire e)))
      | Inr outbound \<Rightarrow>
          let (x, now) = read_clock cfg x;
              (b, r) = begin_attempt (ex_budget x) now;
              x = x\<lparr>ex_budget := b\<rparr> in
          (case r of
            Inl e \<Rightarrow> (x, Done (Inl e))
          | Inr remaining \<Rightarrow>
              flow_then
                (if use_tls then attempt_tls cfg (pq_packet outbound) remaining x
                 else case transport of
                        ModeUdp \<Rightarrow> attempt_udp cfg level outbound remaining x
                      | ModeTcp \<Rightarrow> attempt_tcp cfg (pq_packet outbound) remaining x)
                (\<lambda>x answer. judge_response cfg level outbound answer x)))"

partial_function (option) exchange_loop ::
  "'w exchange_config \<Rightarrow> ('f, 'w) exchange_state \<Rightarrow> (('f, 'w) exchange_state \<times> (resolve_error + bytes)) option" where
  "exchange_loop cfg x =
     (case exchange_step cfg x of
        (x, Done r) \<Rightarrow> Some (x, r)
      | (x, Again) \<Rightarrow> exchange_loop cfg x
      | (x, Go _) \<Rightarrow> exchange_loop cfg x)"

declare exchange_loop.simps [code]

definition exchange_start :: "'f server_state \<Rightarrow> attempt_budget \<Rightarrow> 'w \<Rightarrow> ('f, 'w) exchange_state" where
  "exchange_start s budget w = \<lparr>ex_server = s, ex_world = w, ex_budget = budget, ex_forced = None,
     ex_rcode_probe = False, ex_servfail_retried = False, ex_feature_retries = 0, ex_transport_retries = 0\<rparr>"

definition exchange_with_features ::
  "'w exchange_config \<Rightarrow> 'f server_state \<Rightarrow> attempt_budget \<Rightarrow> 'w
   \<Rightarrow> (('f, 'w) exchange_state \<times> (resolve_error + bytes)) option" where
  "exchange_with_features cfg s budget w = exchange_loop cfg (exchange_start s budget w)"

end
