(* ===== verification/Upstream_Props.thy ===== *)
theory Upstream_Props
  imports Upstream
begin

text \<open>
  What one exchange with an upstream server guarantees: the announced receive size is in range,
  the loop ends within the attempt budget, the answer given to the client was matched to the
  query that was sent, and with DNS-over-TLS in strict mode the exchange depends on nothing that
  is sent or received in plain text.
\<close>

section \<open>The announced receive size\<close>

lemmas payload_consts =
  UDP4_PACKET_HEADER_SIZE_def UDP6_PACKET_HEADER_SIZE_def DNS_PACKET_UNICAST_SIZE_MAX_def
  DNS_PACKET_UNICAST_SIZE_LARGE_MAX_def DNS_PACKET_INTERNET_SIZE_MAX_def DNS_PACKET_SIZE_MAX_def

lemma unat_ucast_u16: "n \<le> (65535 :: u32) \<Longrightarrow> unat (ucast n :: u16) = unat n"
  by (simp add: unsigned_ucast_eq unsigned_take_bit_eq word_le_nat_alt take_bit_nat_eq_self)

lemma u32_clamp:
  fixes n :: u32
  shows "unat (ucast (let n = (if n < 512 then 512 else n) in if n > 65535 then 65535 else n) :: u16)
    = min 65535 (max 512 (unat n))"
proof -
  have le: "(let n = (if n < 512 then 512 else n) in if n > 65535 then 65535 else n) \<le> 65535"
    by (simp add: Let_def not_less)
  show ?thesis
    unfolding unat_ucast_u16[OF le] by (simp add: Let_def word_less_nat_alt)
qed

lemma u32_minus: "n > (k :: u32) \<Longrightarrow> unat (n - k) = unat n - unat k"
  by (rule unat_sub) simp

definition payload_size_spec :: "nat \<Rightarrow> bool \<Rightarrow> bool \<Rightarrow> bool \<Rightarrow> nat \<Rightarrow> nat" where
  "payload_size_spec mtu ipv6 loopback fragmented seen =
     (let header = (if ipv6 then 48 else 28);
          path = (if mtu = 0 then 1232 else mtu - header) in
      if loopback then 65536 - header
      else max 512 (min 4096 (if fragmented \<and> 0 < seen then min seen path else path)))"

lemma u32_path:
  fixes m h :: u32
  shows "unat (if m = 0 then 1232 else if m > h then m - h else 0) = (if unat m = 0 then 1232 else unat m - unat h)"
proof (cases "m > h")
  case True
  then show ?thesis by (auto simp: u32_minus unat_eq_0)
next
  case False
  then have "unat m - unat h = 0" by (simp add: word_less_nat_alt)
  then show ?thesis using False by (simp add: unat_eq_0)
qed

lemma u32_cap:
  fixes p seen :: u32
  shows "unat (let p = (if fragmented \<and> seen > 0 \<and> seen < p then seen else p) in if p > 4096 then 4096 else p)
    = min 4096 (if fragmented \<and> 0 < unat seen then min (unat seen) (unat p) else unat p)"
  by (simp add: Let_def word_less_nat_alt)

lemma payload_size_nat:
  "unat (resolved_dns_udp_payload_size mtu ipv6 loopback fragmented seen)
    = payload_size_spec (unat mtu) ipv6 loopback fragmented (unat seen)"
proof -
  define header :: u32 where "header = (if ipv6 then 48 else 28)"
  define path :: u32 where "path = (if mtu = 0 then 1232 else if mtu > header then mtu - header else 0)"
  define packet :: u32 where "packet =
    (if loopback then 65536 - header
     else let p = (if fragmented \<and> seen > 0 \<and> seen < path then seen else path) in
          if p > 4096 then 4096 else p)"
  have h: "unat header = (if ipv6 then 48 else 28)" "unat (65536 - header) = 65536 - unat header"
    by (simp_all add: header_def)
  have path: "unat path = (if unat mtu = 0 then 1232 else unat mtu - unat header)"
    unfolding path_def by (rule u32_path)
  have p: "unat packet = (if loopback then 65536 - unat header
      else min 4096 (if fragmented \<and> 0 < unat seen then min (unat seen) (unat path) else unat path))"
    unfolding packet_def if_distrib[of unat "loopback"] h(2) u32_cap ..
  have c: "unat (resolved_dns_udp_payload_size mtu ipv6 loopback fragmented seen) = min 65535 (max 512 (unat packet))"
    unfolding u32_clamp[symmetric] packet_def path_def header_def resolved_dns_udp_payload_size_def payload_consts Let_def ..
  show ?thesis unfolding c p path h payload_size_spec_def Let_def by simp
qed

lemma payload_size_spec_range:
  "512 \<le> payload_size_spec mtu ipv6 loopback fragmented seen"
  "payload_size_spec mtu ipv6 loopback fragmented seen \<le> (if loopback then 65508 else 4096)"
  by (auto simp: payload_size_spec_def Let_def)

text \<open>
  C11: the receive size announced to a server is computed without wrap-around: it is the path MTU
  less the headers, or 1232 octets when the MTU is unknown, cut down to the largest fragment seen
  on a fragmenting path and brought between 512 and 4096 octets; a server on the loopback
  interface gets the largest datagram.
\<close>

theorem dns_udp_payload_size_exact:
  "unat (dns_udp_payload_size mtu ipv6 loopback fragmented seen)
     = payload_size_spec (case mtu of None \<Rightarrow> 0 | Some m \<Rightarrow> unat m) ipv6 loopback fragmented (unat seen) \<and>
   unat (dns_udp_payload_size mtu ipv6 loopback fragmented seen) \<in> {512..if loopback then 65508 else 4096}"
proof -
  have e: "unat (dns_udp_payload_size mtu ipv6 loopback fragmented seen)
      = payload_size_spec (case mtu of None \<Rightarrow> 0 | Some m \<Rightarrow> unat m) ipv6 loopback fragmented (unat seen)"
    by (cases mtu) (simp_all add: dns_udp_payload_size_def payload_size_nat)
  show ?thesis unfolding e atLeastAtMost_iff using payload_size_spec_range by blast
qed

section \<open>What the parts of a step keep\<close>

lemma with_budget [simp]:
  "ex_budget (with_features f x) = ex_budget x"
  "ex_budget (with_transport g x) = ex_budget x"
  "ex_budget (with_tls h x) = ex_budget x"
  by (simp_all add: with_features_def with_transport_def with_tls_def)

lemma read_clock_budget [simp]: "ex_budget (fst (read_clock cfg x)) = ex_budget x"
  by (simp add: read_clock_def split: prod.splits)

lemma read_clock_budget': "read_clock cfg x = (x', now) \<Longrightarrow> ex_budget x' = ex_budget x"
  by (metis read_clock_budget fst_conv)

lemma rx_budget [simp]:
  "ex_budget (rx_tls_failure cfg x) = ex_budget x"
  "ex_budget (fst (rx_bad_opt cfg level x)) = ex_budget x"
  "ex_budget (fst (rx_do_off cfg level x)) = ex_budget x"
  "ex_budget (rx_downgrade cfg level x) = ex_budget x"
  "ex_budget (fst (rx_missing_root_rrsig cfg allow x)) = ex_budget x"
  "ex_budget (fst (rx_transport_failure mode x)) = ex_budget x"
  "ex_budget (rx_invalid_packet x) = ex_budget x"
  by (auto simp: Let_def rx_tls_failure_def rx_bad_opt_def rx_do_off_def rx_downgrade_def rx_missing_root_rrsig_def
      rx_transport_failure_def rx_invalid_packet_def split: prod.splits dest!: read_clock_budget')

lemma retry_level_budget [simp]: "ex_budget (retry_level level x) = ex_budget x"
  by (simp add: retry_level_def)

lemma check_tls_budget: "ex_budget (fst (check_tls cfg x)) = ex_budget x"
  by (auto simp: check_tls_def split: prod.splits dest!: read_clock_budget')

lemma select_level_budget: "ex_budget (fst (select_level cfg use_tls x)) = ex_budget x"
  by (auto simp: select_level_def Let_def split: prod.splits option.splits if_splits dest!: read_clock_budget')

lemma exchange_tcp_budget [simp]: "ex_budget (fst (exchange_tcp cfg packet remaining x)) = ex_budget x"
  by (simp add: exchange_tcp_def split: prod.splits)

lemma attempt_tls_budget: "ex_budget (fst (attempt_tls cfg packet remaining x)) = ex_budget x"
  by (simp add: attempt_tls_def Let_def split: prod.splits sum.splits resolve_error.splits)

lemma attempt_tcp_budget: "ex_budget (fst (attempt_tcp cfg packet remaining x)) = ex_budget x"
proof -
  obtain y r where e: "exchange_tcp cfg packet remaining x = (y, r)" by fastforce
  obtain z s n where f: "rx_transport_failure ModeTcp y = (z, s, n)" by (metis prod_cases3)
  have "ex_budget y = ex_budget x" "ex_budget z = ex_budget y"
    using exchange_tcp_budget[of cfg packet remaining x] rx_budget(6)[of ModeTcp y] by (simp_all add: e f)
  then show ?thesis by (simp add: attempt_tcp_def e f split: sum.splits)
qed

lemma rx_transport_failure_budget:
  "rx_transport_failure m y = (z, switched, failures) \<Longrightarrow> ex_budget z = ex_budget y"
  by (metis rx_budget(6) fst_conv)

lemma retry_over_tcp_budget: "ex_budget (fst (retry_over_tcp cfg level packet tr x)) = ex_budget x"
proof -
  define y0 where "y0 = (if tr then with_transport record_truncated (with_transport (\<lambda>t. transport_record_success t ModeUdp) x)
     else with_transport (\<lambda>t. transport_record_success t ModeUdp) x)"
  obtain y now where c: "read_clock cfg y0 = (y, now)" by fastforce
  have y: "ex_budget y = ex_budget x" using read_clock_budget'[OF c] by (simp add: y0_def)
  show ?thesis
  proof (cases "budget_remaining (ex_budget y) now")
    case (Inl e)
    then show ?thesis by (simp add: retry_over_tcp_def y0_def[symmetric] Let_def c y)
  next
    case (Inr remaining)
    obtain z r where t: "exchange_tcp cfg packet remaining y = (z, r)" by fastforce
    obtain u a b where f: "rx_transport_failure ModeTcp z = (u, a, b)" by (metis prod_cases3)
    have "ex_budget z = ex_budget x" using exchange_tcp_budget[of cfg packet remaining y] y by (simp add: t)
    then show ?thesis
      using rx_transport_failure_budget[OF f]
      by (simp add: retry_over_tcp_def y0_def[symmetric] Let_def c Inr t f split: sum.split)
  qed
qed

lemma udp_lower_budget: "ex_budget (fst (udp_lower cfg level outbound x)) = ex_budget x"
  by (auto simp: udp_lower_def split: prod.splits dest!: read_clock_budget')

lemma udp_failed_budget: "ex_budget (fst (udp_failed cfg level outbound e x)) = ex_budget x"
proof -
  obtain y lower where l: "udp_lower cfg level outbound x = (y, lower)" by fastforce
  obtain z a b where f: "rx_transport_failure ModeUdp y = (z, a, b)" by (metis prod_cases3)
  show ?thesis
    using rx_transport_failure_budget[OF f] udp_lower_budget[of cfg level outbound x]
    by (simp add: udp_failed_def l f split: option.split)
qed

lemma attempt_udp_budget: "ex_budget (fst (attempt_udp cfg level outbound remaining x)) = ex_budget x"
  by (simp add: attempt_udp_def retry_over_tcp_budget udp_failed_budget Let_def split: sum.split prod.split)

lemma lower_or_accept_budget: "ex_budget (fst (lower_or_accept cfg response lower x)) = ex_budget x"
  by (simp add: lower_or_accept_def)

lemma check_edns_budget: "ex_budget (fst (check_edns cfg level outbound response opt rcode x)) = ex_budget x"
proof -
  obtain y l where b: "rx_bad_opt cfg level x = (y, l)" by fastforce
  obtain z l' where d: "rx_do_off cfg level x = (z, l')" by fastforce
  have "ex_budget y = ex_budget x" "ex_budget z = ex_budget x"
    using rx_budget(2)[of cfg level x] rx_budget(3)[of cfg level x] by (simp_all add: b d)
  then show ?thesis
    by (simp add: check_edns_def b d lower_or_accept_budget split: option.split)
qed

lemma check_root_rrsig_budget:
  "ex_budget (fst (check_root_rrsig cfg level outbound response x)) = ex_budget x"
proof -
  obtain y l where b: "rx_missing_root_rrsig cfg (xc_dnssec cfg \<noteq> ValidationYes) x = (y, l)" by fastforce
  have "ex_budget y = ex_budget x"
    using rx_budget(5)[of cfg "xc_dnssec cfg \<noteq> ValidationYes" x] by (simp add: b)
  then show ?thesis by (simp add: check_root_rrsig_def Let_def b split: sum.split)
qed

lemma check_servfail_budget:
  "ex_budget (fst (check_servfail cfg level response opt rcode x)) = ex_budget x"
  by (simp add: check_servfail_def split: sum.split option.split)

lemma check_rcode_budget: "ex_budget (fst (check_rcode cfg level rcode x)) = ex_budget x"
  by (simp add: check_rcode_def)

lemma accept_response_budget:
  "ex_budget (accept_response cfg level outbound rcode t via_tls x) = ex_budget x"
  by (simp add: accept_response_def Let_def)

lemma flow_then_budget:
  assumes "ex_budget (fst r) = b" and "\<And>y a. ex_budget y = b \<Longrightarrow> ex_budget (fst (k y a)) = b"
  shows "ex_budget (fst (flow_then r k)) = b"
  using assms by (cases r; cases "snd r") (simp_all add: flow_then_def)

lemma judge_response_budget:
  "ex_budget (fst (judge_response cfg level outbound answer x)) = ex_budget x"
  unfolding judge_response_def Let_def
  by (auto simp: check_edns_budget check_root_rrsig_budget check_servfail_budget check_rcode_budget
      accept_response_budget intro!: flow_then_budget split: prod.split sum.split)

lemmas attempt_budgets = attempt_tls_budget attempt_tcp_budget attempt_udp_budget

text \<open>A part of the body never falls through once the response has been judged.\<close>

lemma flow_then_no_go:
  assumes "\<And>y a z. k y a \<noteq> (z, Go c)"
  shows "flow_then r k \<noteq> (z, Go c)"
  using assms by (cases r; cases "snd r") (auto simp: flow_then_def)

lemma judge_response_no_go: "judge_response cfg level outbound answer x \<noteq> (y, Go u)"
  unfolding judge_response_def Let_def
  by (simp add: flow_then_no_go split: prod.split sum.split)

section \<open>The loop ends\<close>

text \<open>
  A step either ends the exchange before its attempt began, with the budget as it was, or
  takes one attempt from a budget that was not exhausted.
\<close>

lemma begin_attempt_cases:
  assumes "begin_attempt b now = (b', r)"
  shows "(\<exists>e. r = Inl e \<and> b' = b) \<or>
    (\<exists>left. r = Inr left \<and> ab_attempts b < DNS_TRANSACTION_ATTEMPTS_MAX \<and> b' = b\<lparr>ab_attempts := ab_attempts b + 1\<rparr>)"
proof (cases "budget_exhausted b")
  case True
  then show ?thesis using assms by (auto simp: begin_attempt_def)
next
  case False
  then show ?thesis
    using assms by (cases "budget_remaining b now"; simp add: begin_attempt_def budget_exhausted_def; blast?)
qed

lemma exchange_step_cases:
  assumes "exchange_step cfg x = (x', f)"
  obtains (unsent) e where "f = Done (Inl e)" "ex_budget x' = ex_budget x"
  | (sent) level payload outbound remaining v att where
      "prepare_query (xc_query cfg) level payload = Inr outbound"
      "ab_attempts (ex_budget x) < DNS_TRANSACTION_ATTEMPTS_MAX"
      "ex_budget v = (ex_budget x)\<lparr>ab_attempts := ab_attempts (ex_budget x) + 1\<rparr>"
      "att = attempt_tls cfg (pq_packet outbound) remaining v
       \<or> att = attempt_udp cfg level outbound remaining v \<or> att = attempt_tcp cfg (pq_packet outbound) remaining v"
      "flow_then att (\<lambda>x answer. judge_response cfg level outbound answer x) = (x', f)"
proof -
  obtain y tls where t: "check_tls cfg x = (y, tls)" by fastforce
  obtain z level transport payload where s: "select_level cfg tls y = (z, level, transport, payload)"
    by (metis prod_cases4)
  obtain u now where c: "read_clock cfg z = (u, now)" by fastforce
  have e: "ex_budget y = ex_budget x" "ex_budget z = ex_budget x" "ex_budget u = ex_budget x"
    using check_tls_budget[of cfg x] select_level_budget[of cfg tls y] read_clock_budget'[OF c]
    by (simp_all add: t s)
  obtain b r where a: "begin_attempt (ex_budget x) now = (b, r)" by fastforce
  note unf = exchange_step_def t s c a Let_def prod.case e(3)
  show thesis
  proof (cases "prepare_query (xc_query cfg) level payload")
    case (Inl err)
    then show ?thesis using assms e by (intro unsent) (auto simp: unf)
  next
    case outbound: (Inr outbound)
    show ?thesis
    proof (cases r)
      case (Inl err)
      then show ?thesis
        using assms e begin_attempt_cases[OF a] outbound by (intro unsent[of err]) (auto simp: unf)
    next
      case (Inr remaining)
      have n: "ab_attempts (ex_budget x) < DNS_TRANSACTION_ATTEMPTS_MAX"
        "ex_budget (u\<lparr>ex_budget := b\<rparr>) = (ex_budget x)\<lparr>ab_attempts := ab_attempts (ex_budget x) + 1\<rparr>"
        using begin_attempt_cases[OF a] Inr by auto
      show ?thesis
        using assms outbound Inr
        by (intro sent[OF outbound n, of "if tls then attempt_tls cfg (pq_packet outbound) remaining (u\<lparr>ex_budget := b\<rparr>)
              else case transport of
                     ModeUdp \<Rightarrow> attempt_udp cfg level outbound remaining (u\<lparr>ex_budget := b\<rparr>)
                   | ModeTcp \<Rightarrow> attempt_tcp cfg (pq_packet outbound) remaining (u\<lparr>ex_budget := b\<rparr>)" remaining])
          (auto simp: unf split: transport_mode.split)
    qed
  qed
qed

lemma exchange_step_budget:
  assumes "exchange_step cfg x = (x', f)"
  shows "(\<exists>e. f = Done (Inl e)) \<and> ex_budget x' = ex_budget x \<or>
    f \<noteq> Go () \<and> ab_attempts (ex_budget x) < DNS_TRANSACTION_ATTEMPTS_MAX \<and>
    ex_budget x' = (ex_budget x)\<lparr>ab_attempts := ab_attempts (ex_budget x) + 1\<rparr>"
  using assms
proof (cases rule: exchange_step_cases)
  case unsent
  then show ?thesis by blast
next
  case (sent level payload outbound remaining v att)
  have "ex_budget (fst att) = ex_budget v" using sent(4) by (auto simp: attempt_budgets)
  then have "ex_budget x' = ex_budget v"
    using flow_then_budget[of att "ex_budget v" "\<lambda>x answer. judge_response cfg level outbound answer x"] sent(5)
    by (simp add: judge_response_budget)
  moreover have "f \<noteq> Go ()"
    using flow_then_no_go[OF judge_response_no_go, of att "\<lambda>_ _. cfg" "\<lambda>_ _. level" "\<lambda>_ _. outbound"
        "\<lambda>_ a. a" "\<lambda>x _. x"] sent(5) by blast
  ultimately show ?thesis using sent by simp
qed

text \<open>
  Every exchange ends, and a relation between start and end of the loop may be established
  step by step.
\<close>

lemma exchange_loop_induct:
  assumes ends: "\<And>x y r. exchange_step cfg x = (y, Done r) \<Longrightarrow> P x y r"
    and again: "\<And>x x' y r. exchange_step cfg x = (x', Again) \<Longrightarrow> exchange_loop cfg x' = Some (y, r)
      \<Longrightarrow> P x' y r \<Longrightarrow> P x y r"
  shows "\<exists>y r. exchange_loop cfg x = Some (y, r) \<and> P x y r"
proof (induction "DNS_TRANSACTION_ATTEMPTS_MAX - ab_attempts (ex_budget x)" arbitrary: x rule: less_induct)
  case less
  obtain x' f where s: "exchange_step cfg x = (x', f)" by fastforce
  show ?case
  proof (cases f)
    case (Done r)
    then show ?thesis using ends s by (subst exchange_loop.simps) (auto simp: s)
  next
    case Again
    then have "DNS_TRANSACTION_ATTEMPTS_MAX - ab_attempts (ex_budget x')
        < DNS_TRANSACTION_ATTEMPTS_MAX - ab_attempts (ex_budget x)"
      using exchange_step_budget[OF s] by auto
    then obtain y r where "exchange_loop cfg x' = Some (y, r)" "P x' y r" using less by blast
    then show ?thesis using again s Again by (subst exchange_loop.simps) (auto simp: s)
  next
    case (Go u)
    then show ?thesis using exchange_step_budget[OF s] by simp
  qed
qed

text \<open>
  C8: every exchange ends, whatever the server and the network do: the loop gives a result or an
  error after at most 24 attempts, counting those the budget had already spent.
\<close>

theorem exchange_terminates:
  "\<exists>x r. exchange_with_features cfg s budget w = Some (x, r) \<and>
     ab_attempts budget \<le> ab_attempts (ex_budget x) \<and>
     ab_attempts (ex_budget x) \<le> max (ab_attempts budget) DNS_TRANSACTION_ATTEMPTS_MAX \<and>
     ab_deadline (ex_budget x) = ab_deadline budget"
proof -
  have "\<exists>y r. exchange_loop cfg x = Some (y, r) \<and>
      (ab_attempts (ex_budget x) \<le> ab_attempts (ex_budget y) \<and>
       ab_attempts (ex_budget y) \<le> max (ab_attempts (ex_budget x)) DNS_TRANSACTION_ATTEMPTS_MAX \<and>
       ab_deadline (ex_budget y) = ab_deadline (ex_budget x))" for x
    by (rule exchange_loop_induct) (auto dest!: exchange_step_budget)
  from this[of "exchange_start s budget w"] show ?thesis
    by (simp add: exchange_with_features_def exchange_start_def)
qed

section \<open>The answer matches the query\<close>

lemma read_frame_matches: "read_frame label query stream = Inr response \<Longrightarrow> response_matches query response = Inr ()"
  by (auto simp: read_frame_def Let_def result_simps split: if_splits)

lemma udp_receive_matches:
  "udp_receive query rs = Inr (response, fragment_size) \<Longrightarrow> response_matches query response = Inr ()"
  by (induction query rs rule: udp_receive.induct) (auto split: sum.splits)

lemma exchange_udp_matches:
  "exchange_udp net t server query remaining w = (w', Inr (response, fragment_size))
   \<Longrightarrow> response_matches query response = Inr ()"
  by (auto simp: exchange_udp_def Let_def result_simps udp_receive_matches split: prod.splits)

lemma exchange_stream_once_matches:
  "exchange_stream_once st label server query w = (w', Inr response) \<Longrightarrow> response_matches query response = Inr ()"
  by (auto simp: exchange_stream_once_def Let_def result_simps read_frame_matches split: if_splits prod.splits)

lemma exchange_stream_matches:
  "exchange_stream net st label t server query remaining w = (w', Inr response)
   \<Longrightarrow> response_matches query response = Inr ()"
  unfolding exchange_stream_def Let_def
  by (auto split: prod.splits sum.splits if_splits dest: exchange_stream_once_matches)

text \<open>An attempt goes on only with a response to the packet that was sent, and never ends with one.\<close>

definition attempt_sound :: "bytes \<Rightarrow> ('f, 'w) exchange_state \<times> (bytes \<times> transport_mode \<times> bool) flow \<Rightarrow> bool" where
  "attempt_sound packet r \<longleftrightarrow>
     (case snd r of
        Go (response, _, _) \<Rightarrow> response_matches packet response = Inr ()
      | Done (Inr _) \<Rightarrow> False
      | _ \<Rightarrow> True)"

lemma attempt_tls_sound: "attempt_sound packet (attempt_tls cfg packet remaining x)"
  by (auto simp: attempt_tls_def attempt_sound_def Let_def split: prod.splits sum.splits resolve_error.splits
      dest!: exchange_stream_matches)

lemma exchange_tcp_matches:
  "exchange_tcp cfg packet remaining x = (y, Inr response) \<Longrightarrow> response_matches packet response = Inr ()"
  by (auto simp: exchange_tcp_def split: prod.splits dest: exchange_stream_matches)

lemma attempt_tcp_sound: "attempt_sound packet (attempt_tcp cfg packet remaining x)"
  by (auto simp: attempt_tcp_def attempt_sound_def Let_def split: prod.splits sum.splits
      dest!: exchange_tcp_matches)

lemma retry_over_tcp_sound: "attempt_sound packet (retry_over_tcp cfg level packet tr x)"
  unfolding retry_over_tcp_def Let_def[of "with_transport _ _"] Let_def[of "if _ then _ else _"]
  by (auto simp: attempt_sound_def Let_def split: prod.split sum.split dest!: exchange_tcp_matches)

lemma udp_failed_sound: "attempt_sound packet (udp_failed cfg level outbound e x)"
  by (simp add: udp_failed_def attempt_sound_def split: prod.split option.split)

lemma attempt_udp_sound: "attempt_sound (pq_packet outbound) (attempt_udp cfg level outbound remaining x)"
  unfolding attempt_udp_def Let_def
  by (auto simp: attempt_sound_def[of _ "(_, _)"] retry_over_tcp_sound udp_failed_sound
      split: prod.split sum.split dest!: exchange_udp_matches)

text \<open>
  What a server under required validation must have answered: an OPT record of version 0 that
  echoes the DO bit when EDNS was sent, and signed root records when DNSSEC records were asked for.
\<close>

definition edns_confirmed :: "feature_level \<Rightarrow> prepared_query \<Rightarrow> bytes \<Rightarrow> bool" where
  "edns_confirmed level outbound response \<longleftrightarrow>
     (managed_opt outbound \<and> sent_edns outbound \<longrightarrow>
        (case inspect_opt response of
           Inr (Some opt) \<Rightarrow> or_version opt = 0 \<and> (level_dnssec_ok level \<longrightarrow> opt_dnssec_ok opt)
         | _ \<Rightarrow> False)) \<and>
     (managed_opt outbound \<and> level_dnssec_ok level \<longrightarrow> root_rrsig_missing response = Inr False)"

definition exchange_accepted :: "'w exchange_config \<Rightarrow> feature_level \<Rightarrow> prepared_query \<Rightarrow> bytes \<Rightarrow> bytes \<Rightarrow> bool" where
  "exchange_accepted cfg level outbound response r \<longleftrightarrow>
     response_matches (pq_packet outbound) response = Inr () \<and>
     response_for_client (xc_query cfg) response = Inr r \<and>
     (xc_dnssec cfg = ValidationYes \<longrightarrow> edns_confirmed level outbound response)"

lemma client_result_ok: "client_result cfg response = Inr r \<longleftrightarrow> response_for_client (xc_query cfg) response = Inr r"
  by (cases "response_for_client (xc_query cfg) response") (simp_all add: client_result_def)

lemma flow_then_done:
  "flow_then p k = (y, Done d) \<Longrightarrow> p = (y, Done d) \<or> (\<exists>z a. p = (z, Go a) \<and> k z a = (y, Done d))"
  by (cases p; cases "snd p") (auto simp: flow_then_def)

lemma check_edns_done:
  "check_edns cfg level outbound response opt rcode x = (y, Done (Inr r))
   \<Longrightarrow> xc_dnssec cfg \<noteq> ValidationYes \<and> response_for_client (xc_query cfg) response = Inr r"
  by (auto simp: check_edns_def lower_or_accept_def client_result_ok Let_def split: if_splits option.splits prod.splits)

lemma check_edns_go:
  "check_edns cfg level outbound response opt rcode x = (y, Go u)
   \<Longrightarrow> managed_opt outbound \<and> sent_edns outbound \<Longrightarrow>
   \<exists>opt'. opt = Some opt' \<and> or_version opt' = 0 \<and> (level_dnssec_ok level \<longrightarrow> opt_dnssec_ok opt')"
  by (auto simp: check_edns_def lower_or_accept_def Let_def split: if_splits option.splits prod.splits)

lemma check_root_rrsig_done: "check_root_rrsig cfg level outbound response x \<noteq> (y, Done (Inr r))"
  by (auto simp: check_root_rrsig_def Let_def split: if_splits sum.splits prod.splits)

lemma check_root_rrsig_go:
  "check_root_rrsig cfg level outbound response x = (y, Go u) \<Longrightarrow> managed_opt outbound \<and> level_dnssec_ok level
   \<Longrightarrow> root_rrsig_missing response = Inr False"
  by (auto simp: check_root_rrsig_def Let_def split: if_splits sum.splits prod.splits)

lemma check_servfail_done:
  "check_servfail cfg level response opt rcode x = (y, Done (Inr r))
   \<Longrightarrow> response_for_client (xc_query cfg) response = Inr r"
  by (auto simp: check_servfail_def client_result_ok split: if_splits sum.splits option.splits)

lemma check_rcode_done: "check_rcode cfg level rcode x \<noteq> (y, Done d)"
  by (simp add: check_rcode_def)

lemma judge_response_accepted:
  assumes "judge_response cfg level outbound (response, t, v) x = (y, Done (Inr r))"
  shows "response_for_client (xc_query cfg) response = Inr r \<and>
    (xc_dnssec cfg = ValidationYes \<longrightarrow> edns_confirmed level outbound response)"
proof -
  obtain opt rcode where o: "inspect_opt response = Inr opt" and f: "full_rcode response opt = Inr rcode"
    using assms by (cases "inspect_opt response"; cases "full_rcode response (projr (inspect_opt response))")
      (auto simp: judge_response_def result_simps)
  let ?ce = "check_edns cfg level outbound response opt rcode x"
  have j: "flow_then ?ce (\<lambda>x _.
      flow_then (check_root_rrsig cfg level outbound response x) (\<lambda>x _.
      flow_then (check_servfail cfg level response opt rcode x) (\<lambda>x _.
      flow_then (check_rcode cfg level rcode x) (\<lambda>x _.
      (accept_response cfg level outbound rcode t v x, Done (client_result cfg response) :: unit flow))))) = (y, Done (Inr r))"
    using assms o f by (simp add: judge_response_def)
  from flow_then_done[OF j] show ?thesis
  proof (elim disjE exE conjE)
    assume "?ce = (y, Done (Inr r))"
    then show ?thesis using check_edns_done by blast
  next
    fix x1 u1 assume e: "?ce = (x1, Go u1)"
      and k: "flow_then (check_root_rrsig cfg level outbound response x1) (\<lambda>x _.
        flow_then (check_servfail cfg level response opt rcode x) (\<lambda>x _.
        flow_then (check_rcode cfg level rcode x) (\<lambda>x _.
        (accept_response cfg level outbound rcode t v x, Done (client_result cfg response) :: unit flow)))) = (y, Done (Inr r))"
    obtain x2 u2 where s: "check_root_rrsig cfg level outbound response x1 = (x2, Go u2)"
      and k2: "flow_then (check_servfail cfg level response opt rcode x2) (\<lambda>x _.
        flow_then (check_rcode cfg level rcode x) (\<lambda>x _.
        (accept_response cfg level outbound rcode t v x, Done (client_result cfg response) :: unit flow))) = (y, Done (Inr r))"
      using flow_then_done[OF k] check_root_rrsig_done by blast
    have "edns_confirmed level outbound response"
      using check_edns_go[OF e] check_root_rrsig_go[OF s] o by (auto simp: edns_confirmed_def)
    moreover have "response_for_client (xc_query cfg) response = Inr r"
      using flow_then_done[OF k2] check_servfail_done
      by (auto dest!: flow_then_done simp: check_rcode_done client_result_ok)
    ultimately show ?thesis by blast
  qed
qed

lemma exchange_step_accepted:
  assumes "exchange_step cfg x = (y, Done (Inr r))"
  shows "\<exists>level payload outbound response. prepare_query (xc_query cfg) level payload = Inr outbound \<and>
    exchange_accepted cfg level outbound response r"
  using assms
proof (cases rule: exchange_step_cases)
  case (unsent e)
  then show ?thesis by simp
next
  case (sent level payload outbound remaining v att)
  have a: "attempt_sound (pq_packet outbound) att"
    using sent(4) attempt_tls_sound attempt_tcp_sound attempt_udp_sound by blast
  then obtain z response t tls where g: "att = (z, Go (response, t, tls))"
    "judge_response cfg level outbound (response, t, tls) z = (y, Done (Inr r))"
    using flow_then_done[OF sent(5)] by (auto simp: attempt_sound_def)
  show ?thesis
    using sent(1) a g(1) judge_response_accepted[OF g(2)] by (auto simp: attempt_sound_def exchange_accepted_def)
qed


section \<open>Strict DNS-over-TLS\<close>

text \<open>The network in which everything but TLS is replaced.\<close>

definition other_plaintext ::
  "'w network \<Rightarrow> 'w exchange_config \<Rightarrow> 'w exchange_config" where
  "other_plaintext net cfg = cfg\<lparr>xc_net := (xc_net cfg)\<lparr>nw_udp := nw_udp net, nw_udp_recycle := nw_udp_recycle net,
     nw_tcp := nw_tcp net, nw_path_mtu := nw_path_mtu net\<rparr>\<rparr>"

lemma other_plaintext_simps [simp]:
  "nw_now (xc_net (other_plaintext net cfg)) = nw_now (xc_net cfg)"
  "nw_tls (xc_net (other_plaintext net cfg)) = nw_tls (xc_net cfg)"
  "nw_tls_forget (xc_net (other_plaintext net cfg)) = nw_tls_forget (xc_net cfg)"
  "xc_server (other_plaintext net cfg) = xc_server cfg"
  "xc_query (other_plaintext net cfg) = xc_query cfg"
  "xc_dnssec (other_plaintext net cfg) = xc_dnssec cfg"
  "xc_tls (other_plaintext net cfg) = xc_tls cfg"
  "xc_timeout (other_plaintext net cfg) = xc_timeout cfg"
  by (simp_all add: other_plaintext_def)

lemma other_read_clock: "read_clock (other_plaintext net cfg) = read_clock cfg"
  by (rule ext) (simp add: read_clock_def)

lemma other_records:
  "rx_tls_failure (other_plaintext net cfg) = rx_tls_failure cfg"
  "rx_bad_opt (other_plaintext net cfg) = rx_bad_opt cfg"
  "rx_do_off (other_plaintext net cfg) = rx_do_off cfg"
  "rx_downgrade (other_plaintext net cfg) = rx_downgrade cfg"
  by (intro ext; unfold rx_tls_failure_def rx_bad_opt_def rx_do_off_def rx_downgrade_def
      other_plaintext_simps other_read_clock; rule refl)+

lemma other_missing_rrsig: "rx_missing_root_rrsig (other_plaintext net cfg) = rx_missing_root_rrsig cfg"
  by (intro ext; unfold rx_missing_root_rrsig_def other_records; rule refl)

lemma other_client_result: "client_result (other_plaintext net cfg) = client_result cfg"
  by (intro ext; unfold client_result_def other_plaintext_simps; rule refl)

lemma other_lower_or_accept: "lower_or_accept (other_plaintext net cfg) = lower_or_accept cfg"
  by (intro ext; unfold lower_or_accept_def other_client_result; rule refl)

lemmas other_parts = other_plaintext_simps other_read_clock other_records other_missing_rrsig
  other_client_result other_lower_or_accept

lemma other_checks:
  "check_edns (other_plaintext net cfg) = check_edns cfg"
  "check_root_rrsig (other_plaintext net cfg) = check_root_rrsig cfg"
  "check_servfail (other_plaintext net cfg) = check_servfail cfg"
  "check_rcode (other_plaintext net cfg) = check_rcode cfg"
  "accept_response (other_plaintext net cfg) = accept_response cfg"
  "check_tls (other_plaintext net cfg) = check_tls cfg"
  by (intro ext; unfold check_edns_def check_root_rrsig_def check_servfail_def
      check_rcode_def accept_response_def check_tls_def other_parts; rule refl)+

lemma other_judge: "judge_response (other_plaintext net cfg) = judge_response cfg"
  by (intro ext; unfold judge_response_def other_parts other_checks; rule refl)

text \<open>The stream exchange uses the clock of the network only.\<close>

lemma exchange_stream_clock: "nw_now net' = nw_now net \<Longrightarrow> exchange_stream net' = exchange_stream net"
  by (intro ext; unfold exchange_stream_def; simp only:)

lemma other_attempt_tls: "attempt_tls (other_plaintext net cfg) = attempt_tls cfg"
  by (intro ext; unfold attempt_tls_def other_parts
      exchange_stream_clock[OF other_plaintext_simps(1)]; rule refl)

lemma check_tls_strict: "xc_tls cfg = TlsYes \<Longrightarrow> snd (check_tls cfg x)"
  by (simp add: check_tls_def tls_possible_def split: prod.split)

lemma other_select_level: "select_level (other_plaintext net cfg) True x = select_level cfg True x"
  by (unfold select_level_def other_parts if_True; rule refl)

lemma other_step:
  assumes "xc_tls cfg = TlsYes"
  shows "exchange_step (other_plaintext net cfg) x = exchange_step cfg x"
proof -
  obtain y where t: "check_tls cfg x = (y, True)"
    using check_tls_strict[OF assms, of x] by (cases "check_tls cfg x") simp
  show ?thesis
    unfolding exchange_step_def other_checks t Let_def[of "(y, True)"] prod.case other_select_level if_True
      other_parts other_attempt_tls other_judge ..
qed

text \<open>
  C10: with DNS-over-TLS in strict mode nothing that goes over the wire in plain text can
  influence an exchange: with any other behaviour of UDP, of plain TCP and of the path MTU in
  its place, the answer, the state recorded for the server, the attempts spent and every effect
  on the world are the same.
\<close>

theorem strict_tls_noninterference:
  "exchange_with_features (other_plaintext net (cfg\<lparr>xc_tls := TlsYes\<rparr>)) s budget w
     = exchange_with_features (cfg\<lparr>xc_tls := TlsYes\<rparr>) s budget w"
proof -
  let ?cfg = "cfg\<lparr>xc_tls := TlsYes\<rparr>"
  have "\<exists>y r. exchange_loop ?cfg x = Some (y, r) \<and> exchange_loop (other_plaintext net ?cfg) x = Some (y, r)" for x
    by (rule exchange_loop_induct; subst exchange_loop.simps) (simp_all add: other_step)
  then show ?thesis unfolding exchange_with_features_def by (metis option.inject)
qed

end
