(* ===== verification/Networkd.thy ===== *)
theory Networkd
  imports Routing Config "HOL-Library.AList"
begin

text \<open>
  The link states that networkd publishes, from \<open>src/src/networkd.rs\<close>: an environment file per
  link, its parser, and the list of links read from the directory. An I/O error is its text.
  The directory is a list of the entries' names, absent for a name that is not UTF-8, with what
  reading each gives.
\<close>

section \<open>States of a link\<close>

datatype operational_state =
    OperMissing | OperOff | OperNoCarrier | OperDormant | OperDegradedCarrier | OperCarrier
  | OperDegraded | OperEnslaved | OperRoutable | OperUnknown

definition operational_state_parse :: "string option \<Rightarrow> operational_state" where
  "operational_state_parse value =
     (case value of
        None \<Rightarrow> OperMissing
      | Some v \<Rightarrow>
          if v = ''off'' then OperOff
          else if v = ''no-carrier'' then OperNoCarrier
          else if v = ''dormant'' then OperDormant
          else if v = ''degraded-carrier'' then OperDegradedCarrier
          else if v = ''carrier'' then OperCarrier
          else if v = ''degraded'' then OperDegraded
          else if v = ''enslaved'' then OperEnslaved
          else if v = ''routable'' then OperRoutable
          else OperUnknown)"

definition oper_resolver_relevant :: "operational_state \<Rightarrow> bool" where
  "oper_resolver_relevant s \<longleftrightarrow> s = OperDegradedCarrier \<or> s = OperDegraded \<or> s = OperRoutable"

record networkd_link =
  nl_ifindex :: int
  nl_managed :: bool
  nl_operstate :: operational_state
  nl_dns_servers :: "socket_addr list"
  nl_dns_server_specs :: "dns_server_spec list"
  nl_domains :: "domain list"
  nl_default_route :: "bool option"
  nl_llmnr :: support_mode
  nl_multicast_dns :: support_mode
  nl_dns_over_tls :: "tls_mode option"
  nl_dnssec :: "validation_mode option"
  nl_negative_trust_anchors :: "string list"

definition nl_resolver_relevant :: "networkd_link \<Rightarrow> bool" where
  "nl_resolver_relevant l \<longleftrightarrow> \<not> nl_managed l \<or> oper_resolver_relevant (nl_operstate l)"

section \<open>Parsing\<close>

definition unquote :: "string \<Rightarrow> string" where
  "unquote value =
     (if length value \<ge> 2
         \<and> (hd value = CHR 0x22 \<and> last value = CHR 0x22 \<or> hd value = CHR 0x27 \<and> last value = CHR 0x27)
      then butlast (tl value) else value)"

definition environment_line :: "string \<Rightarrow> (string \<times> string) option" where
  "environment_line line =
     (let line = trim line in
      if line = [] \<or> hd line = CHR ''#'' then None
      else map_option (\<lambda>(key, value). (trim key, unquote (trim value))) (split_once CHR ''='' line))"

definition parse_environment :: "string \<Rightarrow> (string \<times> string) list" where
  "parse_environment t =
     fold (\<lambda>(k, v) m. AList.update k v m) (List.map_filter environment_line (lines t)) []"

definition nd_normalize_name :: "string \<Rightarrow> string + string" where
  "nd_normalize_name value =
     (let value = trim value in
      if value = ''.'' \<or> value = ''~'' \<or> value = ''~.'' then Inr ''.''
      else
        let value = trim_end_matches CHR ''.'' (case strip_prefix ''~'' value of Some v \<Rightarrow> v | None \<Rightarrow> value) in
        if value = [] \<or> \<not> is_ascii value \<or> length value > 253
           \<or> list_ex (\<lambda>label. label = [] \<or> length label > 63) (split_on CHR ''.'' value)
        then Inl (''invalid networkd DNS domain '' @ value)
        else Inr (to_ascii_lowercase value))"

definition parse_dns_specs :: "string \<Rightarrow> string + dns_server_spec list" where
  "parse_dns_specs value =
     collect_normalized (\<lambda>token. map_err config_error_text (parse_server_spec token)) (split_whitespace value) []"

definition parse_domains :: "string \<Rightarrow> bool \<Rightarrow> string + domain list" where
  "parse_domains value route_only =
     collect_normalized (\<lambda>token.
       rbind (nd_normalize_name token) (\<lambda>name. Inr \<lparr>dom_name = name, dom_route_only = route_only\<rparr>))
       (split_whitespace value) []"

definition parse_names :: "string \<Rightarrow> string + string list" where
  "parse_names value = collect_normalized nd_normalize_name (split_whitespace value) []"

definition nd_parse_bool :: "string \<Rightarrow> string + bool" where
  "nd_parse_bool value =
     (let v = to_ascii_lowercase (trim value) in
      if is_yes v then Inr True else if is_no v then Inr False
      else Inl (''invalid networkd boolean '' @ value))"

definition nd_parse_support_mode :: "string \<Rightarrow> string + support_mode" where
  "nd_parse_support_mode value =
     (let v = to_ascii_lowercase (trim value) in
      if v = ''yes'' then Inr SupportYes
      else if v = ''resolve'' then Inr SupportResolve
      else if v = ''no'' then Inr SupportNo
      else Inl (''invalid networkd resolver support mode '' @ value))"

definition nd_parse_tls_mode :: "string \<Rightarrow> string + tls_mode" where
  "nd_parse_tls_mode value =
     (let v = to_ascii_lowercase (trim value) in
      if v = ''no'' then Inr TlsNo
      else if v = ''opportunistic'' then Inr TlsOpportunistic
      else if v = ''yes'' then Inr TlsYes
      else Inl (''invalid networkd DNS-over-TLS mode '' @ value))"

definition nd_parse_validation_mode :: "string \<Rightarrow> string + validation_mode" where
  "nd_parse_validation_mode value =
     (let v = to_ascii_lowercase (trim value) in
      if v = ''no'' then Inr ValidationNo
      else if v = ''allow-downgrade'' then Inr AllowDowngrade
      else if v = ''yes'' then Inr ValidationYes
      else Inl (''invalid networkd DNSSEC mode '' @ value))"

text \<open>The value of a key, parsed when the key is present.\<close>

definition parse_present :: "('a \<Rightarrow> 'e + 'b) \<Rightarrow> 'a option \<Rightarrow> 'e + 'b option" where
  "parse_present parse value =
     (case value of None \<Rightarrow> Inr None | Some v \<Rightarrow> rbind (parse v) (\<lambda>x. Inr (Some x)))"

definition option_or :: "'a \<Rightarrow> 'a option \<Rightarrow> 'a" where
  "option_or d x = (case x of None \<Rightarrow> d | Some y \<Rightarrow> y)"

definition unmanaged_link :: "int \<Rightarrow> operational_state \<Rightarrow> networkd_link" where
  "unmanaged_link ifindex operstate = \<lparr>nl_ifindex = ifindex, nl_managed = False, nl_operstate = operstate,
     nl_dns_servers = [], nl_dns_server_specs = [], nl_domains = [], nl_default_route = None,
     nl_llmnr = SupportYes, nl_multicast_dns = SupportYes, nl_dns_over_tls = None, nl_dnssec = None,
     nl_negative_trust_anchors = []\<rparr>"

definition parse_link_state :: "int \<Rightarrow> string \<Rightarrow> string + networkd_link" where
  "parse_link_state ifindex t =
     (let get = map_of (parse_environment t);
          admin_state = get ''ADMIN_STATE'';
          managed = (admin_state \<notin> {None, Some ''pending'', Some ''initialized'', Some ''unmanaged''});
          operstate = operational_state_parse (get ''OPER_STATE'') in
      if \<not> managed then Inr (unmanaged_link ifindex operstate)
      else
        rbind (parse_dns_specs (option_or [] (get ''DNS''))) (\<lambda>specs.
        rbind (parse_domains (option_or [] (get ''DOMAINS'')) False) (\<lambda>search.
        rbind (parse_domains (option_or [] (get ''ROUTE_DOMAINS'')) True) (\<lambda>route.
        rbind (parse_present nd_parse_bool (get ''DNS_DEFAULT_ROUTE'')) (\<lambda>default_route.
        rbind (parse_present nd_parse_support_mode (get ''LLMNR'')) (\<lambda>llmnr.
        rbind (parse_present nd_parse_support_mode (get ''MDNS'')) (\<lambda>mdns.
        rbind (parse_present nd_parse_tls_mode (get ''DNS_OVER_TLS'')) (\<lambda>tls.
        rbind (parse_present nd_parse_validation_mode (get ''DNSSEC'')) (\<lambda>dnssec.
        rbind (parse_names (option_or [] (get ''DNSSEC_NTA''))) (\<lambda>anchors.
        Inr \<lparr>nl_ifindex = ifindex, nl_managed = True, nl_operstate = operstate,
             nl_dns_servers = push_all_new [] (map dss_address specs), nl_dns_server_specs = specs,
             nl_domains = push_all_new search route, nl_default_route = default_route,
             nl_llmnr = option_or SupportYes llmnr, nl_multicast_dns = option_or SupportYes mdns,
             nl_dns_over_tls = tls, nl_dnssec = dnssec, nl_negative_trust_anchors = anchors\<rparr>))))))))))"

text \<open>\<open>str::parse::<i32>\<close>: an optional sign and decimal digits within the range of \<open>i32\<close>.\<close>

definition parse_i32 :: "string \<Rightarrow> int option" where
  "parse_i32 s =
     (let (negative, digits) =
            (case s of
               [] \<Rightarrow> (False, [])
             | c # cs \<Rightarrow> if c = CHR ''+'' then (False, cs) else if c = CHR ''-'' then (True, cs) else (False, s)) in
      if digits = [] then None
      else
        case parse_digits 10 0 digits of
          None \<Rightarrow> None
        | Some n \<Rightarrow>
            if negative then (if int n \<le> 2 ^ 31 then Some (- int n) else None)
            else if int n < 2 ^ 31 then Some (int n) else None)"

fun read_entries :: "(string option \<times> file_read) list \<Rightarrow> string + networkd_link list" where
  "read_entries [] = Inr []"
| "read_entries ((name, file) # entries) =
     (case Option.bind name parse_i32 of
        None \<Rightarrow> read_entries entries
      | Some ifindex \<Rightarrow>
          if ifindex \<le> 0 then read_entries entries
          else
            case file of
              FileText t \<Rightarrow>
                rbind (parse_link_state ifindex t) (\<lambda>l.
                rbind (read_entries entries) (\<lambda>ls. Inr (l # ls)))
            | FileMissing \<Rightarrow> read_entries entries
            | FileError e \<Rightarrow> Inl e)"

definition read_directory :: "(string option \<times> file_read) list \<Rightarrow> string + networkd_link list" where
  "read_directory entries = rbind (read_entries entries) (\<lambda>ls. Inr (sort_key nl_ifindex ls))"

end
