(* ===== verification/Inflight.thy ===== *)
theory Inflight
  imports Wire_Packet
begin

text \<open>
  Sharing of identical queries in flight, from \<open>Inflight\<close> of \<open>src/src/resolver_prelude.rs\<close> and its use in
  \<open>src/src/resolver_query_on_link.rs\<close>: the first thread with a query leads and asks the servers, the others
  wait for its result. An \<open>Arc\<close> is an index into a list of cells. Each critical section is one
  operation, and a step relation interleaves them over any number of threads.
\<close>

section \<open>The operations\<close>

record inflight_key =
  ik_route :: u64
  ik_query :: bytes

definition inflight_key_new :: "u64 \<Rightarrow> bytes \<Rightarrow> wire_error + inflight_key" where
  "inflight_key_new route query =
     rbind (rewrite_id query 0) (\<lambda>query. Inr \<lparr>ik_route = route, ik_query = query\<rparr>)"

record inflight_state =
  is_running :: bool
  is_response :: "bytes option"

record inflight =
  fl_entries :: "inflight_key \<rightharpoonup> nat"
  fl_cells :: "inflight_state list"

definition inflight_default :: inflight where
  "inflight_default = \<lparr>fl_entries = (\<lambda>_. None), fl_cells = []\<rparr>"

datatype inflight_role = Leader inflight_key nat | Follower nat

definition inflight_begin :: "inflight \<Rightarrow> inflight_key \<Rightarrow> inflight \<times> inflight_role" where
  "inflight_begin f key =
     (case fl_entries f key of
        Some e \<Rightarrow> (f, Follower e)
      | None \<Rightarrow>
          let e = length (fl_cells f) in
          (f\<lparr>fl_entries := (fl_entries f)(key \<mapsto> e),
             fl_cells := fl_cells f @ [\<lparr>is_running = True, is_response = None\<rparr>]\<rparr>, Leader key e))"

text \<open>The two critical sections of \<open>finish\<close>; \<open>complete\<close> and the drop of a leader run both.\<close>

definition finish_publish :: "inflight \<Rightarrow> nat \<Rightarrow> bytes option \<Rightarrow> inflight" where
  "finish_publish f e response =
     f\<lparr>fl_cells := (fl_cells f)[e := \<lparr>is_running = False, is_response = response\<rparr>]\<rparr>"

definition finish_remove :: "inflight \<Rightarrow> inflight_key \<Rightarrow> nat \<Rightarrow> inflight" where
  "finish_remove f key e =
     (if fl_entries f key = Some e then f\<lparr>fl_entries := (fl_entries f)(key := None)\<rparr> else f)"

definition inflight_finish :: "inflight \<Rightarrow> inflight_key \<Rightarrow> nat \<Rightarrow> bytes option \<Rightarrow> inflight" where
  "inflight_finish f key e response = finish_remove (finish_publish f e response) key e"

text \<open>The outcome of waiting for an entry, \<open>None\<close> as long as the call blocks.\<close>

definition entry_wait :: "inflight \<Rightarrow> nat \<Rightarrow> bytes option option" where
  "entry_wait f e =
     (if e < length (fl_cells f) \<and> \<not> is_running (fl_cells f ! e) then Some (is_response (fl_cells f ! e)) else None)"

section \<open>Interleaved threads\<close>

text \<open>
  Where a thread is in the loop of \<open>query_on_link\<close>: about to call \<open>begin\<close>, asking the servers as the
  leader, between the two halves of \<open>finish\<close>, waiting as a follower, or past the loop with the
  result of the entry.
\<close>

datatype flight =
    Asking inflight_key
  | Leading inflight_key nat
  | Published inflight_key nat "bytes option"
  | Waiting inflight_key nat
  | Answered nat "bytes option"

record flights =
  fs_inflight :: inflight
  fs_threads :: "nat \<Rightarrow> flight option"

definition set_thread :: "nat \<Rightarrow> flight \<Rightarrow> inflight \<Rightarrow> flights \<Rightarrow> flights" where
  "set_thread t p f s = s\<lparr>fs_inflight := f, fs_threads := (fs_threads s)(t \<mapsto> p)\<rparr>"

inductive flight_step :: "flights \<Rightarrow> flights \<Rightarrow> bool" where
  arrive: "fs_threads s t = None \<Longrightarrow> flight_step s (set_thread t (Asking key) (fs_inflight s) s)"
| lead: "fs_threads s t = Some (Asking key) \<Longrightarrow> inflight_begin (fs_inflight s) key = (f, Leader key' e)
    \<Longrightarrow> flight_step s (set_thread t (Leading key' e) f s)"
| join: "fs_threads s t = Some (Asking key) \<Longrightarrow> inflight_begin (fs_inflight s) key = (f, Follower e)
    \<Longrightarrow> flight_step s (set_thread t (Waiting key e) f s)"
| publish: "fs_threads s t = Some (Leading key e)
    \<Longrightarrow> flight_step s (set_thread t (Published key e response) (finish_publish (fs_inflight s) e response) s)"
| remove: "fs_threads s t = Some (Published key e response)
    \<Longrightarrow> flight_step s (set_thread t (Answered e response) (finish_remove (fs_inflight s) key e) s)"
| wake: "fs_threads s t = Some (Waiting key e) \<Longrightarrow> entry_wait (fs_inflight s) e = Some (Some response)
    \<Longrightarrow> flight_step s (set_thread t (Answered e (Some response)) (fs_inflight s) s)"
| again: "fs_threads s t = Some (Waiting key e) \<Longrightarrow> entry_wait (fs_inflight s) e = Some None
    \<Longrightarrow> flight_step s (set_thread t (Asking key) (fs_inflight s) s)"

definition flights_default :: flights where
  "flights_default = \<lparr>fs_inflight = inflight_default, fs_threads = (\<lambda>_. None)\<rparr>"

inductive flights_reachable :: "flights \<Rightarrow> bool" where
  start: "flights_reachable flights_default"
| step: "flights_reachable s \<Longrightarrow> flight_step s s' \<Longrightarrow> flights_reachable s'"

section \<open>The invariant\<close>

fun flight_owner :: "flight \<Rightarrow> (inflight_key \<times> nat) option" where
  "flight_owner (Leading key e) = Some (key, e)"
| "flight_owner (Published key e _) = Some (key, e)"
| "flight_owner _ = None"

definition owns :: "flights \<Rightarrow> nat \<Rightarrow> inflight_key \<Rightarrow> nat \<Rightarrow> bool" where
  "owns s t key e \<longleftrightarrow> (case fs_threads s t of None \<Rightarrow> False | Some p \<Rightarrow> flight_owner p = Some (key, e))"

abbreviation flight_cells :: "flights \<Rightarrow> inflight_state list" where
  "flight_cells s \<equiv> fl_cells (fs_inflight s)"

abbreviation flight_entries :: "flights \<Rightarrow> inflight_key \<rightharpoonup> nat" where
  "flight_entries s \<equiv> fl_entries (fs_inflight s)"

text \<open>
  Every entry of the table has exactly one owner and every owner an entry; a cell is running
  exactly while its owner leads; whoever is past the cell's publication holds its response.
\<close>

definition owners_ok :: "flights \<Rightarrow> bool" where
  "owners_ok s \<longleftrightarrow>
     (\<forall>key e. flight_entries s key = Some e \<longrightarrow> (\<exists>t. owns s t key e)) \<and>
     (\<forall>t key e. owns s t key e \<longrightarrow> flight_entries s key = Some e \<and> e < length (flight_cells s)) \<and>
     (\<forall>t t' key key' e. owns s t key e \<longrightarrow> owns s t' key' e \<longrightarrow> t = t')"

definition cells_ok :: "flights \<Rightarrow> bool" where
  "cells_ok s \<longleftrightarrow>
     (\<forall>e < length (flight_cells s). is_running (flight_cells s ! e) \<longleftrightarrow> (\<exists>t key. fs_threads s t = Some (Leading key e))) \<and>
     (\<forall>t key e r. fs_threads s t = Some (Published key e r) \<longrightarrow> entry_wait (fs_inflight s) e = Some r) \<and>
     (\<forall>t e r. fs_threads s t = Some (Answered e r) \<longrightarrow> entry_wait (fs_inflight s) e = Some r) \<and>
     (\<forall>t key e. fs_threads s t = Some (Waiting key e) \<longrightarrow>
        entry_wait (fs_inflight s) e \<noteq> None \<or> flight_entries s key = Some e \<and> e < length (flight_cells s))"

lemma set_thread_simps [simp]:
  "fs_inflight (set_thread t p f s) = f"
  "fs_threads (set_thread t p f s) = (fs_threads s)(t \<mapsto> p)"
  by (simp_all add: set_thread_def)

lemma owns_set_thread [simp]:
  "owns (set_thread t p f s) t' key e = (if t' = t then flight_owner p = Some (key, e) else owns s t' key e)"
  by (simp add: owns_def)

lemma owns_leading: "fs_threads s t = Some (Leading key e) \<Longrightarrow> owns s t key e"
  by (simp add: owns_def)

lemma owns_published: "fs_threads s t = Some (Published key e r) \<Longrightarrow> owns s t key e"
  by (simp add: owns_def)

lemma not_owner:
  "fs_threads s t = None \<Longrightarrow> \<not> owns s t key e"
  "fs_threads s t = Some p \<Longrightarrow> flight_owner p = None \<Longrightarrow> \<not> owns s t key e"
  by (simp_all add: owns_def)

lemma entry_wait_same_cells: "fl_cells f' = fl_cells f \<Longrightarrow> entry_wait f' e = entry_wait f e"
  by (simp add: entry_wait_def)

lemma finish_remove_simps [simp]:
  "fl_cells (finish_remove f key e) = fl_cells f"
  "fl_entries f key = Some e \<Longrightarrow> fl_entries (finish_remove f key e) = (fl_entries f)(key := None)"
  by (simp_all add: finish_remove_def)

lemma finish_publish_simps [simp]:
  "fl_entries (finish_publish f e r) = fl_entries f"
  "length (fl_cells (finish_publish f e r)) = length (fl_cells f)"
  by (simp_all add: finish_publish_def)

lemma entry_wait_publish:
  "e < length (fl_cells f) \<Longrightarrow> entry_wait (finish_publish f e r) e' = (if e' = e then Some r else entry_wait f e')"
  by (simp add: entry_wait_def finish_publish_def)

lemma running_publish:
  "e < length (fl_cells f) \<Longrightarrow> is_running (fl_cells (finish_publish f e r) ! e') = (e' \<noteq> e \<and> is_running (fl_cells f ! e'))"
  by (simp add: finish_publish_def nth_list_update)

lemma inflight_begin_leader:
  assumes "inflight_begin f key = (f', Leader key' e)"
  shows "key' = key" "fl_entries f key = None" "e = length (fl_cells f)"
    "fl_entries f' = (fl_entries f)(key \<mapsto> e)" "fl_cells f' = fl_cells f @ [\<lparr>is_running = True, is_response = None\<rparr>]"
  using assms by (auto simp: inflight_begin_def Let_def split: option.splits)

lemma inflight_begin_follower:
  assumes "inflight_begin f key = (f', Follower e)"
  shows "f' = f" "fl_entries f key = Some e"
  using assms by (auto simp: inflight_begin_def Let_def split: option.splits)

lemma entry_wait_append:
  "fl_cells f' = fl_cells f @ [\<lparr>is_running = True, is_response = None\<rparr>] \<Longrightarrow> entry_wait f' e = entry_wait f e"
  by (auto simp: entry_wait_def nth_append)

lemma entry_wait_running: "e < length (fl_cells f) \<Longrightarrow> is_running (fl_cells f ! e) \<longleftrightarrow> entry_wait f e = None"
  by (simp add: entry_wait_def)

lemma owners_okI:
  assumes "\<And>key e. flight_entries s key = Some e \<Longrightarrow> \<exists>t. owns s t key e"
    and "\<And>t key e. owns s t key e \<Longrightarrow> flight_entries s key = Some e \<and> e < length (flight_cells s)"
    and "\<And>t t' key key' e. owns s t key e \<Longrightarrow> owns s t' key' e \<Longrightarrow> t = t'"
  shows "owners_ok s"
  unfolding owners_ok_def using assms by blast

lemma owners_okD:
  assumes "owners_ok s"
  shows "flight_entries s key = Some e \<Longrightarrow> \<exists>t. owns s t key e"
    "owns s t key e \<Longrightarrow> flight_entries s key = Some e" "owns s t key e \<Longrightarrow> e < length (flight_cells s)"
    "owns s t key e \<Longrightarrow> owns s t' key' e \<Longrightarrow> t = t'"
  using assms unfolding owners_ok_def by blast+

text \<open>A step of a thread that owns nothing before and after, on the same table and cells.\<close>

lemma owners_idle:
  assumes "owners_ok s" "\<And>key e. \<not> owns s t key e" "flight_owner p = None"
  shows "owners_ok (set_thread t p (fs_inflight s) s)"
proof (rule owners_okI)
  show "\<exists>t'. owns (set_thread t p (fs_inflight s) s) t' key e"
    if "flight_entries (set_thread t p (fs_inflight s) s) key = Some e" for key e
    using that owners_okD(1)[OF assms(1)] assms(2) by (metis owns_set_thread set_thread_simps(1))
qed (use assms owners_okD[OF assms(1)] in \<open>auto split: if_splits\<close>)

lemma owners_step: "flight_step s s' \<Longrightarrow> owners_ok s \<Longrightarrow> owners_ok s'"
proof (induction rule: flight_step.induct)
  case (arrive s t key)
  then show ?case by (intro owners_idle) (auto simp: not_owner)
next
  case (lead s t key f key' e)
  note b = inflight_begin_leader[OF lead(2)]
  note ok = owners_okD[OF lead(3)]
  have n: "\<not> owns s t k d" for k d using not_owner(2)[OF lead(1)] by simp
  show ?case
  proof (rule owners_okI)
    fix k d assume "flight_entries (set_thread t (Leading key' e) f s) k = Some d"
    then show "\<exists>t'. owns (set_thread t (Leading key' e) f s) t' k d"
      using b ok(1) n by (auto split: if_splits) metis
  next
    fix t' k d assume "owns (set_thread t (Leading key' e) f s) t' k d"
    then show "flight_entries (set_thread t (Leading key' e) f s) k = Some d \<and> d < length (flight_cells (set_thread t (Leading key' e) f s))"
      using b ok(2,3) by (fastforce split: if_splits)
  next
    fix t1 t2 k1 k2 d
    assume "owns (set_thread t (Leading key' e) f s) t1 k1 d" "owns (set_thread t (Leading key' e) f s) t2 k2 d"
    then show "t1 = t2" using b(3) ok(3,4) by (fastforce split: if_splits)
  qed
next
  case (join s t key f e)
  then show ?case
    using inflight_begin_follower[OF join(2)] not_owner(2)[OF join(1)] by (auto intro: owners_idle)
next
  case (publish s t key e response)
  have o: "owns (set_thread t (Published key e response) (finish_publish (fs_inflight s) e response) s) t' k d = owns s t' k d" for t' k d
    using publish(1) by (auto simp: owns_def)
  show ?case using publish(2) unfolding owners_ok_def o by simp
next
  case (remove s t key e response)
  note ok = owners_okD[OF remove(2)]
  have m: "owns s t key e" using remove(1) by (rule owns_published)
  note en = ok(2)[OF m]
  have t: "owns s t k d \<Longrightarrow> k = key \<and> d = e" for k d using remove(1) by (simp add: owns_def)
  show ?case
  proof (rule owners_okI)
    fix k d assume "flight_entries (set_thread t (Answered e response) (finish_remove (fs_inflight s) key e) s) k = Some d"
    then have k: "k \<noteq> key" "flight_entries s k = Some d" using en by (auto split: if_splits)
    then obtain t' where "owns s t' k d" using ok(1) by blast
    moreover have "t' \<noteq> t" using k(1) t calculation by blast
    ultimately show "\<exists>t'. owns (set_thread t (Answered e response) (finish_remove (fs_inflight s) key e) s) t' k d"
      by auto
  next
    fix t' k d assume o: "owns (set_thread t (Answered e response) (finish_remove (fs_inflight s) key e) s) t' k d"
    then have o': "t' \<noteq> t" "owns s t' k d" by (auto split: if_splits)
    then have "k \<noteq> key" using ok(2,4) m en by (metis option.inject)
    then show "flight_entries (set_thread t (Answered e response) (finish_remove (fs_inflight s) key e) s) k = Some d
        \<and> d < length (flight_cells (set_thread t (Answered e response) (finish_remove (fs_inflight s) key e) s))"
      using ok(2,3)[OF o'(2)] en by simp
  qed (use ok(4) in \<open>auto split: if_splits\<close>)
next
  case (wake s t key e response)
  then show ?case using not_owner(2)[OF wake(1)] by (auto intro: owners_idle)
next
  case (again s t key e)
  then show ?case using not_owner(2)[OF again(1)] by (auto intro: owners_idle)
qed

lemma cells_okI:
  assumes "\<And>e. e < length (flight_cells s) \<Longrightarrow> is_running (flight_cells s ! e) \<longleftrightarrow> (\<exists>t key. fs_threads s t = Some (Leading key e))"
    and "\<And>t key e r. fs_threads s t = Some (Published key e r) \<Longrightarrow> entry_wait (fs_inflight s) e = Some r"
    and "\<And>t e r. fs_threads s t = Some (Answered e r) \<Longrightarrow> entry_wait (fs_inflight s) e = Some r"
    and "\<And>t key e. fs_threads s t = Some (Waiting key e) \<Longrightarrow>
      entry_wait (fs_inflight s) e \<noteq> None \<or> flight_entries s key = Some e \<and> e < length (flight_cells s)"
  shows "cells_ok s"
  unfolding cells_ok_def using assms by blast

lemma cells_okD:
  assumes "cells_ok s"
  shows "e < length (flight_cells s) \<Longrightarrow> is_running (flight_cells s ! e) \<longleftrightarrow> (\<exists>t key. fs_threads s t = Some (Leading key e))"
    "fs_threads s t = Some (Published key e r) \<Longrightarrow> entry_wait (fs_inflight s) e = Some r"
    "fs_threads s t = Some (Answered e r) \<Longrightarrow> entry_wait (fs_inflight s) e = Some r"
    "fs_threads s t = Some (Waiting key e) \<Longrightarrow>
      entry_wait (fs_inflight s) e \<noteq> None \<or> flight_entries s key = Some e \<and> e < length (flight_cells s)"
  using assms unfolding cells_ok_def by blast+

text \<open>A step that changes neither the cells nor which threads lead.\<close>

lemma cells_idle:
  assumes "cells_ok s" "\<And>key e. fs_threads s t \<noteq> Some (Leading key e)"
    and "\<And>key e. p \<noteq> Leading key e" "\<And>key e r. p = Published key e r \<Longrightarrow> entry_wait (fs_inflight s) e = Some r"
    and "\<And>e r. p = Answered e r \<Longrightarrow> entry_wait (fs_inflight s) e = Some r"
    and "\<And>key e. p = Waiting key e \<Longrightarrow> entry_wait (fs_inflight s) e \<noteq> None \<or> flight_entries s key = Some e \<and> e < length (flight_cells s)"
  shows "cells_ok (set_thread t p (fs_inflight s) s)"
proof (rule cells_okI)
  fix e assume "e < length (flight_cells (set_thread t p (fs_inflight s) s))"
  then show "is_running (flight_cells (set_thread t p (fs_inflight s) s) ! e)
      \<longleftrightarrow> (\<exists>t' key. fs_threads (set_thread t p (fs_inflight s) s) t' = Some (Leading key e))"
    using cells_okD(1)[OF assms(1), of e] assms(2,3) by simp (metis option.inject)
qed (use assms(4,5,6) cells_okD[OF assms(1)] in \<open>auto split: if_splits\<close>)

lemma cells_lead:
  assumes "cells_ok s" "owners_ok s" "fs_threads s t = Some (Asking key)"
    and "inflight_begin (fs_inflight s) key = (f, Leader key' e)"
  shows "cells_ok (set_thread t (Leading key' e) f s)"
proof (rule cells_okI)
  note b = inflight_begin_leader[OF assms(4)]
  note ok = cells_okD[OF assms(1)]
  note w = entry_wait_append[OF b(5)]
  fix d assume d: "d < length (flight_cells (set_thread t (Leading key' e) f s))"
  show "is_running (flight_cells (set_thread t (Leading key' e) f s) ! d)
      \<longleftrightarrow> (\<exists>t' key. fs_threads (set_thread t (Leading key' e) f s) t' = Some (Leading key d))"
  proof (cases "d = e")
    case True
    then show ?thesis using b(3,5) by (auto simp: nth_append)
  next
    case False
    then have l: "d < length (flight_cells s)" using d b(3,5) by simp
    have "is_running (flight_cells (set_thread t (Leading key' e) f s) ! d) = is_running (flight_cells s ! d)"
      using l b(5) by (simp add: nth_append)
    also have "\<dots> \<longleftrightarrow> (\<exists>t' key. fs_threads s t' = Some (Leading key d))" by (rule ok(1)[OF l])
    also have "\<dots> \<longleftrightarrow> (\<exists>t' key. fs_threads (set_thread t (Leading key' e) f s) t' = Some (Leading key d))"
      using False assms(3) by (auto split: if_splits) (metis flight.distinct(1) option.inject)
    finally show ?thesis .
  qed
next
  note b = inflight_begin_leader[OF assms(4)]
  note ok = cells_okD[OF assms(1)]
  note w = entry_wait_append[OF b(5)]
  fix t' k d assume "fs_threads (set_thread t (Leading key' e) f s) t' = Some (Waiting k d)"
  then have "entry_wait (fs_inflight s) d \<noteq> None \<or> flight_entries s k = Some d \<and> d < length (flight_cells s)"
    using ok(4) by (auto split: if_splits)
  then show "entry_wait (fs_inflight (set_thread t (Leading key' e) f s)) d \<noteq> None
      \<or> flight_entries (set_thread t (Leading key' e) f s) k = Some d \<and> d < length (flight_cells (set_thread t (Leading key' e) f s))"
    using b w by (auto split: if_splits)
qed (use cells_okD[OF assms(1)] entry_wait_append[OF inflight_begin_leader(5)[OF assms(4)]] in \<open>auto split: if_splits\<close>)

lemma cells_publish:
  assumes "cells_ok s" "owners_ok s" "fs_threads s t = Some (Leading key e)"
  shows "cells_ok (set_thread t (Published key e response) (finish_publish (fs_inflight s) e response) s)"
proof -
  have m: "owns s t key e" using assms(3) by (rule owns_leading)
  note e = owners_okD(3)[OF assms(2) m]
  note ok = cells_okD[OF assms(1)]
  have run: "entry_wait (fs_inflight s) e = None"
    using ok(1)[OF e] assms(3) entry_wait_running[OF e] by blast
  have sole: "t' = t" if "fs_threads s t' = Some (Leading k e)" for t' k
    using owners_okD(4)[OF assms(2) owns_leading[OF that] m] .
  show ?thesis
  proof (rule cells_okI)
    fix d assume "d < length (flight_cells (set_thread t (Published key e response) (finish_publish (fs_inflight s) e response) s))"
    then have d: "d < length (flight_cells s)" by simp
    show "is_running (flight_cells (set_thread t (Published key e response) (finish_publish (fs_inflight s) e response) s) ! d)
      \<longleftrightarrow> (\<exists>t' k. fs_threads (set_thread t (Published key e response) (finish_publish (fs_inflight s) e response) s) t' = Some (Leading k d))"
      (is "?l \<longleftrightarrow> ?r")
    proof -
      have "?l \<longleftrightarrow> d \<noteq> e \<and> (\<exists>t' k. fs_threads s t' = Some (Leading k d))"
        using running_publish[OF e] ok(1)[OF d] by simp
      also have "\<dots> \<longleftrightarrow> (\<exists>t' k. t' \<noteq> t \<and> fs_threads s t' = Some (Leading k d))"
        using sole assms(3) by fastforce
      also have "\<dots> \<longleftrightarrow> ?r" by auto
      finally show ?thesis .
    qed
  qed (use ok(2,3,4) run entry_wait_publish[OF e] in \<open>auto split: if_splits\<close>)
qed

lemma cells_remove:
  assumes "cells_ok s" "owners_ok s" "fs_threads s t = Some (Published key e response)"
  shows "cells_ok (set_thread t (Answered e response) (finish_remove (fs_inflight s) key e) s)"
proof -
  have m: "owns s t key e" using assms(3) by (rule owns_published)
  note en = owners_okD(2)[OF assms(2) m]
  note ok = cells_okD[OF assms(1)]
  have w: "entry_wait (finish_remove (fs_inflight s) key e) d = entry_wait (fs_inflight s) d" for d
    by (rule entry_wait_same_cells) simp
  show ?thesis
  proof (rule cells_okI)
    fix d assume "d < length (flight_cells (set_thread t (Answered e response) (finish_remove (fs_inflight s) key e) s))"
    then show "is_running (flight_cells (set_thread t (Answered e response) (finish_remove (fs_inflight s) key e) s) ! d)
      \<longleftrightarrow> (\<exists>t' k. fs_threads (set_thread t (Answered e response) (finish_remove (fs_inflight s) key e) s) t' = Some (Leading k d))"
      using ok(1)[of d] assms(3) by (auto split: if_splits) (metis flight.distinct(9) option.inject)
  next
    fix t' k d assume "fs_threads (set_thread t (Answered e response) (finish_remove (fs_inflight s) key e) s) t' = Some (Waiting k d)"
    then show "entry_wait (fs_inflight (set_thread t (Answered e response) (finish_remove (fs_inflight s) key e) s)) d \<noteq> None \<or>
      flight_entries (set_thread t (Answered e response) (finish_remove (fs_inflight s) key e) s) k = Some d \<and>
      d < length (flight_cells (set_thread t (Answered e response) (finish_remove (fs_inflight s) key e) s))"
      using ok(2)[OF assms(3)] ok(4)[of t' k d] en by (auto simp: w split: if_splits)
  qed (use ok(2,3) assms(3) w in \<open>auto split: if_splits\<close>)
qed

lemma cells_step: "flight_step s s' \<Longrightarrow> owners_ok s \<Longrightarrow> cells_ok s \<Longrightarrow> cells_ok s'"
proof (induction rule: flight_step.induct)
  case (join s t key f e)
  note b = inflight_begin_follower[OF join(2)]
  have "e < length (flight_cells s)" using owners_okD(1,3)[OF join(3)] b(2) by blast
  then show ?case using join b by (auto intro!: cells_idle)
qed (auto intro!: cells_idle cells_publish cells_remove cells_lead)

lemma flights_reachable_ok: "flights_reachable s \<Longrightarrow> owners_ok s \<and> cells_ok s"
proof (induction rule: flights_reachable.induct)
  case start
  show ?case by (simp add: owners_ok_def cells_ok_def flights_default_def inflight_default_def owns_def)
next
  case (step s s')
  then show ?case using owners_step cells_step by blast
qed

section \<open>Single flight\<close>

text \<open>
  C12: however the threads interleave, at most one of them asks the servers for a given query and
  route; all threads that take the result of one entry take the same result; a thread waits only
  while a leader for its query is at work, so no wake-up is lost; and the entry a leader removes
  is its own.
\<close>

theorem single_flight:
  assumes "flights_reachable s"
  shows "(\<forall>t t' key e e'. owns s t key e \<and> owns s t' key e' \<longrightarrow> t = t' \<and> e = e') \<and>
    (\<forall>t t' e r r'. fs_threads s t = Some (Answered e r) \<and> fs_threads s t' = Some (Answered e r') \<longrightarrow> r = r') \<and>
    (\<forall>t key e. fs_threads s t = Some (Waiting key e) \<longrightarrow>
       entry_wait (fs_inflight s) e \<noteq> None \<or> (\<exists>t'. fs_threads s t' = Some (Leading key e))) \<and>
    (\<forall>t key e r. fs_threads s t = Some (Published key e r) \<longrightarrow>
       fl_entries (finish_remove (fs_inflight s) key e) = (fl_entries (fs_inflight s))(key := None))"
proof (intro conjI allI impI)
  have ok: "owners_ok s" "cells_ok s" using flights_reachable_ok[OF assms] by blast+
  note o = owners_okD[OF ok(1)] and c = cells_okD[OF ok(2)]
  show "t = t'" "e = e'" if "owns s t key e \<and> owns s t' key e'" for t t' key e e'
    using that o(2,4) by (metis option.inject)+
  show "r = r'" if "fs_threads s t = Some (Answered e r) \<and> fs_threads s t' = Some (Answered e r')" for t t' e r r'
    using that c(3) by (metis option.inject)
  show "entry_wait (fs_inflight s) e \<noteq> None \<or> (\<exists>t'. fs_threads s t' = Some (Leading key e))"
    if w: "fs_threads s t = Some (Waiting key e)" for t key e
  proof (cases "entry_wait (fs_inflight s) e = None")
    case True
    then have e: "flight_entries s key = Some e" "e < length (flight_cells s)" using c(4)[OF w] by blast+
    then obtain t' key' where t': "fs_threads s t' = Some (Leading key' e)"
      using True c(1) entry_wait_running by blast
    obtain t'' where "owns s t'' key e" using o(1)[OF e(1)] by blast
    then have "owns s t' key e" using o(4) owns_leading[OF t'] by blast
    then show ?thesis using t' by (auto simp: owns_def)
  qed blast
  show "fl_entries (finish_remove (fs_inflight s) key e) = (fl_entries (fs_inflight s))(key := None)"
    if "fs_threads s t = Some (Published key e r)" for t key e r
    using o(2)[OF owns_published[OF that]] by simp
qed

definition example_key :: inflight_key where
  "example_key = \<lparr>ik_route = 1, ik_query = [0, 0]\<rparr>"

text \<open>Two threads with the same query: the first leads, the second waits for it.\<close>

definition example_flights :: flights where
  "example_flights =
     \<lparr>fs_inflight = fst (inflight_begin inflight_default example_key),
      fs_threads = (\<lambda>_. None)(0 := Some (Leading example_key 0), Suc 0 := Some (Waiting example_key 0))\<rparr>"

lemma example_flights_reachable: "flights_reachable example_flights"
proof -
  let ?a = "set_thread 0 (Asking example_key) inflight_default flights_default"
  let ?b = "set_thread (Suc 0) (Asking example_key) inflight_default ?a"
  let ?f = "fst (inflight_begin inflight_default example_key)"
  let ?c = "set_thread 0 (Leading example_key 0) ?f ?b"
  have "flight_step flights_default ?a"
    using flight_step.arrive[of flights_default 0 example_key] by (simp add: flights_default_def)
  moreover have "flight_step ?a ?b"
    using flight_step.arrive[of ?a "Suc 0" example_key] by (simp add: flights_default_def)
  moreover have "flight_step ?b ?c"
    by (rule flight_step.lead[of ?b 0 example_key]) (simp_all add: inflight_begin_def inflight_default_def)
  moreover have "flight_step ?c (set_thread (Suc 0) (Waiting example_key 0) ?f ?c)"
    by (rule flight_step.join) (simp_all add: inflight_begin_def inflight_default_def)
  moreover have "set_thread (Suc 0) (Waiting example_key 0) ?f ?c = example_flights"
    by (simp add: set_thread_def example_flights_def flights_default_def fun_eq_iff)
  ultimately show ?thesis by (metis flights_reachable.intros)
qed

theorem single_flight_witness:
  "flights_reachable example_flights \<and>
   fs_threads example_flights 1 = Some (Waiting example_key 0) \<and>
   entry_wait (fs_inflight example_flights) 0 = None \<and>
   (\<exists>t. fs_threads example_flights t = Some (Leading example_key 0))"
proof -
  have w: "fs_threads example_flights 1 = Some (Waiting example_key 0)" by (simp add: example_flights_def)
  have n: "entry_wait (fs_inflight example_flights) 0 = None"
    by (simp add: example_flights_def inflight_begin_def inflight_default_def entry_wait_def)
  show ?thesis
    using single_flight[OF example_flights_reachable] example_flights_reachable w n by blast
qed

text \<open>A thread can always come to an answer: first owners, then threads about to begin, then followers.\<close>

abbreviation flight_run :: "flights \<Rightarrow> flights \<Rightarrow> bool" where
  "flight_run \<equiv> flight_step\<^sup>*\<^sup>*"

lemma reachable_run: "flight_run s s' \<Longrightarrow> flights_reachable s \<Longrightarrow> flights_reachable s'"
  by (induction rule: rtranclp_induct) (auto intro: flights_reachable.step)

lemma published_run:
  "fs_threads s t = Some (Published key e r) \<Longrightarrow>
   flight_run s (set_thread t (Answered e r) (finish_remove (fs_inflight s) key e) s)"
  by (rule r_into_rtranclp) (rule flight_step.remove)

lemma leading_run:
  assumes "fs_threads s t = Some (Leading key e)"
  shows "\<exists>s'. flight_run s s' \<and> fs_threads s' = (fs_threads s)(t \<mapsto> Answered e r) \<and>
    fs_inflight s' = inflight_finish (fs_inflight s) key e r"
proof (intro exI conjI)
  let ?p = "set_thread t (Published key e r) (finish_publish (fs_inflight s) e r) s"
  show "flight_run s (set_thread t (Answered e r) (finish_remove (fs_inflight ?p) key e) ?p)"
    by (rule converse_rtranclp_into_rtranclp[of flight_step, OF flight_step.publish[OF assms]], rule published_run) simp
qed (simp_all add: inflight_finish_def)

lemma lead_run:
  assumes "fs_threads s t = Some (Asking key)" "flight_entries s key = None"
  shows "\<exists>s' e. flight_run s s' \<and> fs_threads s' t = Some (Answered e None)"
proof -
  obtain f e where b: "inflight_begin (fs_inflight s) key = (f, Leader key e)"
    using assms(2) by (simp add: inflight_begin_def Let_def)
  let ?l = "set_thread t (Leading key e) f s"
  have "fs_threads ?l t = Some (Leading key e)" by simp
  from leading_run[OF this, of None] obtain s' where "flight_run ?l s'" "fs_threads s' t = Some (Answered e None)"
    by auto
  then show ?thesis using converse_rtranclp_into_rtranclp[of flight_step, OF flight_step.lead[OF assms(1) b]] by blast
qed

lemma asking_run:
  assumes "flights_reachable s" "fs_threads s t = Some (Asking key)"
  shows "\<exists>s' e. flight_run s s' \<and> fs_threads s' t = Some (Answered e None)"
proof (cases "flight_entries s key")
  case None
  then show ?thesis using lead_run assms(2) by blast
next
  case (Some e)
  have ok: "owners_ok s" using flights_reachable_ok[OF assms(1)] by blast
  obtain t' where o: "owns s t' key e" using owners_okD(1)[OF ok Some] by blast
  have "t' \<noteq> t" using o assms(2) by (auto simp: owns_def)
  have "\<exists>s'. flight_run s s' \<and> fs_threads s' t = Some (Asking key) \<and> flight_entries s' key = None"
  proof (cases "fs_threads s t' = Some (Leading key e)")
    case True
    then show ?thesis
      using leading_run[OF True, of None] assms(2) \<open>t' \<noteq> t\<close> Some by (auto simp: inflight_finish_def)
  next
    case False
    then obtain r where r: "fs_threads s t' = Some (Published key e r)"
      using o by (auto simp: owns_def split: option.splits elim: flight_owner.elims)
    show ?thesis using published_run[OF r] assms(2) \<open>t' \<noteq> t\<close> Some
      by (intro exI[of _ "set_thread t' (Answered e r) (finish_remove (fs_inflight s) key e) s"]) simp
  qed
  then show ?thesis using lead_run by (meson rtranclp_trans)
qed

lemma wait_run:
  assumes "flights_reachable s" "fs_threads s t = Some (Waiting key e)" "entry_wait (fs_inflight s) e = Some r"
  shows "\<exists>s' e' r'. flight_run s s' \<and> fs_threads s' t = Some (Answered e' r')"
proof (cases r)
  case (Some x)
  then show ?thesis
    using r_into_rtranclp[of flight_step, OF flight_step.wake[OF assms(2)]] assms(3)
    by (intro exI[of _ "set_thread t (Answered e (Some x)) (fs_inflight s) s"]) auto
next
  case None
  let ?a = "set_thread t (Asking key) (fs_inflight s) s"
  have st: "flight_step s ?a" using flight_step.again[OF assms(2)] assms(3) None by simp
  have "\<exists>s' e. flight_run ?a s' \<and> fs_threads s' t = Some (Answered e None)"
    by (rule asking_run[where key = key]) (use flights_reachable.step[OF assms(1) st] in simp_all)
  then show ?thesis using converse_rtranclp_into_rtranclp[of flight_step, OF st] by blast
qed

text \<open>
  C13: no thread is ever stuck behind a query in flight: from every reachable state the threads can
  go on so that a given one, whether it leads, follows or is about to begin, gets past the loop.
\<close>

theorem flight_can_finish:
  assumes "flights_reachable s" "fs_threads s t = Some p"
  shows "\<exists>s' e r. flight_step\<^sup>*\<^sup>* s s' \<and> fs_threads s' t = Some (Answered e r)"
proof (cases p)
  case (Asking key)
  then show ?thesis using asking_run assms by blast
next
  case (Leading key e)
  then show ?thesis using leading_run[of s t key e None] assms(2) by (metis fun_upd_same)
next
  case (Published key e r)
  then show ?thesis using published_run[of s t key e r] assms(2) by (metis fun_upd_same set_thread_simps(2))
next
  case (Answered e r)
  then show ?thesis using assms(2) by blast
next
  case (Waiting key e)
  with assms(2) have w: "fs_threads s t = Some (Waiting key e)" by simp
  have ok: "owners_ok s" "cells_ok s" using flights_reachable_ok[OF assms(1)] by blast+
  show ?thesis
  proof (cases "entry_wait (fs_inflight s) e")
    case (Some r)
    then show ?thesis using wait_run[OF assms(1) w] by blast
  next
    case None
    then have "e < length (flight_cells s)" using cells_okD(4)[OF ok(2) w] by blast
    then obtain t' key' where l: "fs_threads s t' = Some (Leading key' e)" and e: "e < length (flight_cells s)"
      using None cells_okD(1)[OF ok(2)] entry_wait_running by blast
    let ?s = "set_thread t' (Published key' e None) (finish_publish (fs_inflight s) e None) s"
    have st: "flight_step s ?s" by (rule flight_step.publish[OF l])
    have "\<exists>s' e r. flight_run ?s s' \<and> fs_threads s' t = Some (Answered e r)"
      by (rule wait_run[where key = key and e = e and r = None])
        (use flights_reachable.step[OF assms(1) st] w l e in \<open>auto simp: entry_wait_publish\<close>)
    then show ?thesis using converse_rtranclp_into_rtranclp[of flight_step, OF st] by blast
  qed
qed

theorem flight_can_finish_witness:
  "flights_reachable example_flights \<and> fs_threads example_flights 1 = Some (Waiting example_key 0) \<and>
   (\<exists>s' e r. flight_step\<^sup>*\<^sup>* example_flights s' \<and> fs_threads s' 1 = Some (Answered e r))"
proof -
  have w: "fs_threads example_flights 1 = Some (Waiting example_key 0)" by (simp add: example_flights_def)
  show ?thesis using flight_can_finish[OF example_flights_reachable w] example_flights_reachable w by blast
qed

end
