(* ===== verification/Resolver.thy ===== *)
theory Resolver
  imports Upstream Networkd Hosts Cache Inflight
begin

text \<open>
  The state of the resolver and the operations that change it, from
  \<open>src/src/resolver_prelude.rs\<close>, \<open>src/src/resolver_methods_01.rs\<close>, \<open>src/src/resolver_link_specs.rs\<close> and
  \<open>src/src/resolver_server_identity.rs\<close>: link settings from the bus and from networkd, the identity of the
  servers of a link, and the generation counter and cache flush that follow every change. Locks
  are not modelled: an operation is one step on the state. A \<open>HashMap\<close> is an association list
  whose order stands for its iteration order. An operation returns the state also when it fails.
\<close>

section \<open>The state\<close>

record counters =
  cn_current_transactions :: u64
  cn_transactions :: u64
  cn_timeouts :: u64
  cn_timeouts_served_stale :: u64
  cn_failures_served_stale :: u64
  cn_cache_hits :: u64
  cn_cache_misses :: u64
  cn_failures :: u64
  cn_local_answers :: u64

definition counters_default :: counters where
  "counters_default = \<lparr>cn_current_transactions = 0, cn_transactions = 0, cn_timeouts = 0,
     cn_timeouts_served_stale = 0, cn_failures_served_stale = 0, cn_cache_hits = 0, cn_cache_misses = 0,
     cn_failures = 0, cn_local_answers = 0\<rparr>"

record 'f resolver =
  rv_config :: config
  rv_global_servers :: "socket_addr list"
  rv_fallback_servers :: "socket_addr list"
  rv_states :: "(server_key \<times> 'f server_state) list"
  rv_routing :: routing_table
  rv_networkd_links :: "(int \<times> networkd_link) list"
  rv_link_server_specs :: "(int \<times> dns_server_spec list) list"
  rv_generation :: u64
  rv_cache :: packet_cache
  rv_hosts :: hosts
  rv_next_id :: u16
  rv_counters :: counters

text \<open>The metric of a server that was never used has the round-trip time \<open>rtt\<close>, a floating-point 100.\<close>

definition metric_default :: "'f \<Rightarrow> 'f server_metric" where
  "metric_default rtt = \<lparr>sm_round_trip = rtt, sm_failures = 0, sm_feature_level = 0, sm_cooldown_ms = 0\<rparr>"

definition server_state_default :: "'f \<Rightarrow> 'f server_state" where
  "server_state_default rtt = \<lparr>ss_metric = metric_default rtt, ss_cooldown_until = None,
     ss_features = feature_default, ss_tls = tls_default, ss_transport = transport_default,
     ss_missing_root_rrsig = False, ss_packet_do_off = False, ss_packet_invalid = False\<rparr>"

definition or_default :: "'f \<Rightarrow> server_key \<Rightarrow> (server_key \<times> 'f server_state) list \<Rightarrow> (server_key \<times> 'f server_state) list" where
  "or_default rtt key m = (case map_of m key of Some _ \<Rightarrow> m | None \<Rightarrow> AList.update key (server_state_default rtt) m)"

definition hosts_load :: "file_read \<Rightarrow> string + hosts" where
  "hosts_load file =
     (case file of FileText t \<Rightarrow> Inr (hosts_parse t) | FileMissing \<Rightarrow> Inr hosts_default | FileError e \<Rightarrow> Inl e)"

text \<open>\<open>None\<close> stands for the assertion in the constructor of the sharded cache, which its 4 bits satisfy.\<close>

definition resolver_new :: "'f \<Rightarrow> config \<Rightarrow> file_read \<Rightarrow> 'f resolver option" where
  "resolver_new rtt config hosts_file =
     (let global_servers = configured_upstreams config;
          fallback_servers = configured_fallback_upstreams config;
          states = fold (\<lambda>s. or_default rtt (key_with_slot ScopeGlobal s 0)) global_servers [];
          states = fold (\<lambda>s. or_default rtt (key_with_slot ScopeFallback s 0)) fallback_servers states;
          hosts = (if cfg_read_etc_hosts config
                   then case hosts_load hosts_file of Inr h \<Rightarrow> h | Inl _ \<Rightarrow> hosts_default
                   else hosts_default) in
      map_option (\<lambda>cache.
        \<lparr>rv_config = config, rv_global_servers = global_servers, rv_fallback_servers = fallback_servers,
         rv_states = states, rv_routing = routing_default, rv_networkd_links = [], rv_link_server_specs = [],
         rv_generation = 1, rv_cache = cache, rv_hosts = hosts, rv_next_id = 1, rv_counters = counters_default\<rparr>)
        (cache_new (cfg_cache_size config) (cfg_cache_max_ttl config) (cfg_stale_retention config)
           (cfg_cache_negative config)))"

section \<open>Server specifications\<close>

definition plain_spec :: "socket_addr \<Rightarrow> dns_server_spec" where
  "plain_spec address = \<lparr>dss_address = address, dss_interface = None, dss_server_name = None\<rparr>"

definition same_dns_endpoint :: "socket_addr \<Rightarrow> socket_addr \<Rightarrow> bool" where
  "same_dns_endpoint left right \<longleftrightarrow> sock_ip left = sock_ip right \<and> sock_port left = sock_port right"

text \<open>The specifications that match an address, or else a plain one, behind those found before.\<close>

definition push_specs :: "dns_server_spec list \<Rightarrow> socket_addr \<Rightarrow> dns_server_spec list \<Rightarrow> dns_server_spec list" where
  "push_specs matching address out =
     (let out' = push_all_new out matching in
      if length out' = length out then out' @ [plain_spec address] else out')"

definition project_link_specs :: "socket_addr list \<Rightarrow> dns_server_spec list option \<Rightarrow> dns_server_spec list" where
  "project_link_specs addresses specs =
     fold (\<lambda>address. push_specs
         (map (\<lambda>spec. spec\<lparr>dss_address := address\<rparr>)
           (filter (\<lambda>spec. same_dns_endpoint (dss_address spec) address) (option_or [] specs))) address)
       addresses []"

definition normalize_link_specs :: "socket_addr list \<Rightarrow> dns_server_spec list \<Rightarrow> dns_server_spec list" where
  "normalize_link_specs addresses specs =
     push_all_new [] (map (\<lambda>spec.
       case find (same_dns_endpoint (dss_address spec)) addresses of
         Some address \<Rightarrow> spec\<lparr>dss_address := address\<rparr>
       | None \<Rightarrow> spec) specs)"

definition rv_link :: "'f resolver \<Rightarrow> int \<Rightarrow> link_state option" where
  "rv_link r ifindex = rt_link (rv_routing r) ifindex"

definition link_dns_specs :: "'f resolver \<Rightarrow> int \<Rightarrow> dns_server_spec list" where
  "link_dns_specs r ifindex =
     (case rv_link r ifindex of
        None \<Rightarrow> []
      | Some l \<Rightarrow> project_link_specs (ls_dns_servers l) (map_of (rv_link_server_specs r) ifindex))"

definition server_specs_for_scope :: "'f resolver \<Rightarrow> scope_kind \<Rightarrow> socket_addr list \<Rightarrow> dns_server_spec list" where
  "server_specs_for_scope r scope servers =
     (let configured =
        (case scope of
           ScopeGlobal \<Rightarrow> configured_upstream_specs (rv_config r)
         | ScopeFallback \<Rightarrow> configured_fallback_upstream_specs (rv_config r)
         | ScopeLink ifindex \<Rightarrow> link_dns_specs r ifindex) in
      fold (\<lambda>address. push_specs (filter (\<lambda>spec. dss_address spec = address) configured) address) servers [])"

text \<open>Servers that share an address are told apart by a running number.\<close>

fun server_keys_loop :: "scope_kind \<Rightarrow> dns_server_spec list \<Rightarrow> (socket_addr \<times> nat) list \<Rightarrow> server_key list" where
  "server_keys_loop scope [] slots = []"
| "server_keys_loop scope (spec # specs) slots =
     (let slot = option_or 0 (map_of slots (dss_address spec)) in
      key_with_slot scope (dss_address spec) slot
        # server_keys_loop scope specs (AList.update (dss_address spec) (slot + 1) slots))"

definition server_keys_for_specs :: "scope_kind \<Rightarrow> dns_server_spec list \<Rightarrow> server_key list" where
  "server_keys_for_specs scope specs = server_keys_loop scope specs []"

section \<open>The identity of a server\<close>

definition server_spec_for_key :: "'f resolver \<Rightarrow> server_key \<Rightarrow> dns_server_spec" where
  "server_spec_for_key r key =
     (let specs = filter (\<lambda>spec. dss_address spec = sk_server key)
                    (server_specs_for_scope r (key_scope_kind key) [sk_server key]) in
      if sk_slot key < length specs then specs ! sk_slot key else plain_spec (sk_server key))"

text \<open>The system call that finds the index of a named interface gives a negative error number.\<close>

definition resolve_ifindex :: "(string \<Rightarrow> int) \<Rightarrow> string \<Rightarrow> string + int" where
  "resolve_ifindex ifindex_from_name value =
     (case parse_i32 value of
        Some ifindex \<Rightarrow> if ifindex > 0 then Inr ifindex else Inl ''interface index must be positive''
      | None \<Rightarrow>
          if CHR 0x00 \<in> set value then Inl ''interface contains NUL''
          else
            let result = ifindex_from_name value in
            if result < 0 then Inl (''os error '' @ show_dec (nat (- result))) else Inr result)"

definition server_transport_ifindex ::
  "(string \<Rightarrow> int) \<Rightarrow> 'f resolver \<Rightarrow> server_key \<Rightarrow> resolve_error + int option" where
  "server_transport_ifindex ifindex_from_name r key =
     (case dss_interface (server_spec_for_key r key) of
        Some interface \<Rightarrow>
          rbind (map_err (ReIo IoOther) (resolve_ifindex ifindex_from_name interface)) (\<lambda>i. Inr (Some i))
      | None \<Rightarrow> Inr (key_ifindex key))"

definition server_dns_over_tls_mode :: "'f resolver \<Rightarrow> server_key \<Rightarrow> tls_mode" where
  "server_dns_over_tls_mode r key =
     (case key_scope_kind key of
        ScopeLink ifindex \<Rightarrow>
          (case rv_link r ifindex of None \<Rightarrow> cfg_dns_over_tls (rv_config r) | Some l \<Rightarrow> ls_dns_over_tls l)
      | _ \<Rightarrow> cfg_dns_over_tls (rv_config r))"

definition server_dnssec_mode :: "'f resolver \<Rightarrow> server_key \<Rightarrow> validation_mode" where
  "server_dnssec_mode r key =
     (case key_scope_kind key of
        ScopeLink ifindex \<Rightarrow>
          (case rv_link r ifindex of None \<Rightarrow> cfg_dnssec (rv_config r) | Some l \<Rightarrow> ls_dnssec l)
      | _ \<Rightarrow> cfg_dnssec (rv_config r))"

fun set_port :: "socket_addr \<Rightarrow> u16 \<Rightarrow> socket_addr" where
  "set_port (SocketV4 ip _) port = SocketV4 ip port"
| "set_port (SocketV6 ip _ flow scope) port = SocketV6 ip port flow scope"

definition server_tls_endpoint :: "'f resolver \<Rightarrow> server_key \<Rightarrow> socket_addr \<times> string option" where
  "server_tls_endpoint r key =
     (let spec = server_spec_for_key r key;
          endpoint = dss_address spec in
      (if sock_port endpoint \<in> {53, 853} then set_port endpoint 853 else endpoint, dss_server_name spec))"

section \<open>Link settings\<close>

definition link_is_managed :: "'f resolver \<Rightarrow> int \<Rightarrow> bool" where
  "link_is_managed r ifindex =
     (case map_of (rv_networkd_links r) ifindex of None \<Rightarrow> False | Some l \<Rightarrow> nl_managed l)"

definition networkd_link_relevant :: "'f resolver \<Rightarrow> int \<Rightarrow> bool" where
  "networkd_link_relevant r ifindex =
     (case map_of (rv_networkd_links r) ifindex of None \<Rightarrow> True | Some l \<Rightarrow> nl_resolver_relevant l)"

definition ensure_link_writable :: "'f resolver \<Rightarrow> int \<Rightarrow> link_error + unit" where
  "ensure_link_writable r ifindex =
     (if link_is_managed r ifindex then Inl (ManagedLink ifindex) else Inr ())"

definition finish_routing_change :: "bool \<Rightarrow> 'f resolver \<Rightarrow> 'f resolver" where
  "finish_routing_change changed r =
     (if changed then r\<lparr>rv_generation := rv_generation r + 1, rv_cache := cache_flush (rv_cache r)\<rparr> else r)"

definition replace_link_server_specs :: "'f resolver \<Rightarrow> int \<Rightarrow> dns_server_spec list \<Rightarrow> 'f resolver \<times> bool" where
  "replace_link_server_specs r ifindex specs =
     (let stored = rv_link_server_specs r in
      if specs = [] then
        (r\<lparr>rv_link_server_specs := AList.delete ifindex stored\<rparr>, map_of stored ifindex \<noteq> None)
      else if map_of stored ifindex = Some specs then (r, False)
      else (r\<lparr>rv_link_server_specs := AList.update ifindex specs stored\<rparr>, True))"

definition remove_link_server_specs :: "'f resolver \<Rightarrow> int \<Rightarrow> 'f resolver \<times> bool" where
  "remove_link_server_specs r ifindex =
     (r\<lparr>rv_link_server_specs := AList.delete ifindex (rv_link_server_specs r)\<rparr>,
      map_of (rv_link_server_specs r) ifindex \<noteq> None)"

text \<open>The setters of the routing table, refused on links that networkd manages.\<close>

definition change_link ::
  "(routing_table \<Rightarrow> routing_table \<times> (link_error + bool)) \<Rightarrow> int \<Rightarrow> 'f resolver \<Rightarrow> 'f resolver \<times> (link_error + unit)" where
  "change_link f ifindex r =
     (case ensure_link_writable r ifindex of
        Inl e \<Rightarrow> (r, Inl e)
      | Inr _ \<Rightarrow>
          let (t, result) = f (rv_routing r); r = r\<lparr>rv_routing := t\<rparr> in
          (case result of
            Inl e \<Rightarrow> (r, Inl e)
          | Inr changed \<Rightarrow> (finish_routing_change changed r, Inr ())))"

definition set_link_domains :: "int \<Rightarrow> domain list \<Rightarrow> 'f resolver \<Rightarrow> 'f resolver \<times> (link_error + unit)" where
  "set_link_domains ifindex v = change_link (\<lambda>t. set_domains t ifindex v) ifindex"

definition set_link_default_route :: "int \<Rightarrow> bool option \<Rightarrow> 'f resolver \<Rightarrow> 'f resolver \<times> (link_error + unit)" where
  "set_link_default_route ifindex v = change_link (\<lambda>t. set_default_route t ifindex v) ifindex"

definition set_link_llmnr :: "int \<Rightarrow> support_mode \<Rightarrow> 'f resolver \<Rightarrow> 'f resolver \<times> (link_error + unit)" where
  "set_link_llmnr ifindex v = change_link (\<lambda>t. set_llmnr t ifindex v) ifindex"

definition set_link_multicast_dns :: "int \<Rightarrow> support_mode \<Rightarrow> 'f resolver \<Rightarrow> 'f resolver \<times> (link_error + unit)" where
  "set_link_multicast_dns ifindex v = change_link (\<lambda>t. set_multicast_dns t ifindex v) ifindex"

definition set_link_dns_over_tls :: "int \<Rightarrow> tls_mode \<Rightarrow> 'f resolver \<Rightarrow> 'f resolver \<times> (link_error + unit)" where
  "set_link_dns_over_tls ifindex v = change_link (\<lambda>t. set_dns_over_tls t ifindex v) ifindex"

definition set_link_dnssec :: "int \<Rightarrow> validation_mode \<Rightarrow> 'f resolver \<Rightarrow> 'f resolver \<times> (link_error + unit)" where
  "set_link_dnssec ifindex v = change_link (\<lambda>t. set_dnssec t ifindex v) ifindex"

definition set_link_dnssec_negative_trust_anchors ::
  "int \<Rightarrow> string list \<Rightarrow> 'f resolver \<Rightarrow> 'f resolver \<times> (link_error + unit)" where
  "set_link_dnssec_negative_trust_anchors ifindex v =
     change_link (\<lambda>t. set_negative_trust_anchors t ifindex v) ifindex"

text \<open>The servers of a link come with the names and interfaces they were given.\<close>

definition set_link_dns_specs :: "int \<Rightarrow> dns_server_spec list \<Rightarrow> 'f resolver \<Rightarrow> 'f resolver \<times> (link_error + unit)" where
  "set_link_dns_specs ifindex specs r =
     (case ensure_link_writable r ifindex of
        Inl e \<Rightarrow> (r, Inl e)
      | Inr _ \<Rightarrow>
          let (t, result) = set_dns (rv_routing r) ifindex (map dss_address specs);
              r = r\<lparr>rv_routing := t\<rparr> in
          (case result of
            Inl e \<Rightarrow> (r, Inl e)
          | Inr route_changed \<Rightarrow>
              let addresses = (case rt_link t ifindex of None \<Rightarrow> [] | Some l \<Rightarrow> ls_dns_servers l);
                  (r, spec_changed) = replace_link_server_specs r ifindex (normalize_link_specs addresses specs) in
              (finish_routing_change (route_changed \<or> spec_changed) r, Inr ())))"

definition set_link_dns :: "int \<Rightarrow> socket_addr list \<Rightarrow> 'f resolver \<Rightarrow> 'f resolver \<times> (link_error + unit)" where
  "set_link_dns ifindex servers = set_link_dns_specs ifindex (map plain_spec servers)"

definition revert_link :: "int \<Rightarrow> 'f resolver \<Rightarrow> 'f resolver \<times> (link_error + unit)" where
  "revert_link ifindex r =
     (case ensure_link_writable r ifindex of
        Inl e \<Rightarrow> (r, Inl e)
      | Inr _ \<Rightarrow>
          let (t, result) = rt_revert (rv_routing r) ifindex; r = r\<lparr>rv_routing := t\<rparr> in
          (case result of
            Inl e \<Rightarrow> (r, Inl e)
          | Inr route_changed \<Rightarrow>
              let (r, identity_changed) = remove_link_server_specs r ifindex in
              (finish_routing_change (route_changed \<or> identity_changed) r, Inr ())))"

section \<open>Synchronisation with the kernel and with networkd\<close>

definition rv_sync_kernel_links :: "kernel_link list \<Rightarrow> 'f resolver \<Rightarrow> 'f resolver \<times> (link_error + unit)" where
  "rv_sync_kernel_links links r =
     (let (t, result) = sync_kernel_links (rv_routing r) links; r = r\<lparr>rv_routing := t\<rparr> in
      case result of
        Inl e \<Rightarrow> (r, Inl e)
      | Inr route_changed \<Rightarrow>
          let live = map ls_ifindex (rt_link_list t);
              specs = filter (\<lambda>(i, _). i \<in> set live) (rv_link_server_specs r) in
          (finish_routing_change (route_changed \<or> length specs \<noteq> length (rv_link_server_specs r))
             (r\<lparr>rv_link_server_specs := specs\<rparr>), Inr ()))"

text \<open>
  The links that networkd no longer manages are reverted, with the table, the indices whose
  identities go, and the change flag.
\<close>

fun release_links ::
  "(int \<times> networkd_link) list \<Rightarrow> (int \<times> networkd_link) list \<Rightarrow> routing_table \<Rightarrow> int list \<Rightarrow> bool
   \<Rightarrow> routing_table \<times> (link_error + int list \<times> bool)" where
  "release_links incoming [] t removed changed = (t, Inr (removed, changed))"
| "release_links incoming ((i, previous) # ls) t removed changed =
     (let still_managed = (case map_of incoming i of None \<Rightarrow> False | Some l \<Rightarrow> nl_managed l) in
      if nl_managed previous \<and> \<not> still_managed then
        (if rt_link t i \<noteq> None then
           (case rt_revert t i of
              (t, Inl e) \<Rightarrow> (t, Inl e)
            | (t, Inr c) \<Rightarrow> release_links incoming ls t (removed @ [i]) (changed \<or> c))
         else release_links incoming ls t (removed @ [i]) changed)
      else release_links incoming ls t removed changed)"

text \<open>A sequence of setters on the table that stops at the first error.\<close>

fun run_setters ::
  "(routing_table \<Rightarrow> routing_table \<times> (link_error + bool)) list \<Rightarrow> routing_table \<Rightarrow> bool
   \<Rightarrow> routing_table \<times> (link_error + bool)" where
  "run_setters [] t changed = (t, Inr changed)"
| "run_setters (f # fs) t changed =
     (case f t of
        (t, Inl e) \<Rightarrow> (t, Inl e)
      | (t, Inr c) \<Rightarrow> run_setters fs t (changed \<or> c))"

definition networkd_setters :: "config \<Rightarrow> networkd_link \<Rightarrow> (routing_table \<Rightarrow> routing_table \<times> (link_error + bool)) list" where
  "networkd_setters config l =
     (let i = nl_ifindex l in
      [\<lambda>t. set_dns t i (nl_dns_servers l), \<lambda>t. set_domains t i (nl_domains l),
       \<lambda>t. set_default_route t i (nl_default_route l), \<lambda>t. set_llmnr t i (nl_llmnr l),
       \<lambda>t. set_multicast_dns t i (nl_multicast_dns l),
       \<lambda>t. set_dns_over_tls t i (option_or (cfg_dns_over_tls config) (nl_dns_over_tls l)),
       \<lambda>t. set_dnssec t i (option_or (cfg_dnssec config) (nl_dnssec l)),
       \<lambda>t. set_negative_trust_anchors t i (nl_negative_trust_anchors l)])"

fun manage_links ::
  "config \<Rightarrow> networkd_link list \<Rightarrow> routing_table \<Rightarrow> int list
   \<Rightarrow> (int \<times> socket_addr list \<times> dns_server_spec list) list \<Rightarrow> bool
   \<Rightarrow> routing_table \<times> (link_error + int list \<times> (int \<times> socket_addr list \<times> dns_server_spec list) list \<times> bool)" where
  "manage_links config [] t removed managed changed = (t, Inr (removed, managed, changed))"
| "manage_links config (l # ls) t removed managed changed =
     (if \<not> nl_managed l then manage_links config ls t removed managed changed
      else if rt_link t (nl_ifindex l) = None
      then manage_links config ls t (removed @ [nl_ifindex l]) managed changed
      else
        case run_setters (networkd_setters config l) t changed of
          (t, Inl e) \<Rightarrow> (t, Inl e)
        | (t, Inr changed) \<Rightarrow>
            manage_links config ls t removed
              (case rt_link t (nl_ifindex l) of
                 None \<Rightarrow> managed
               | Some s \<Rightarrow> managed @ [(nl_ifindex l, ls_dns_servers s, nl_dns_server_specs l)]) changed)"

definition networkd_specs :: "socket_addr list \<Rightarrow> dns_server_spec list \<Rightarrow> dns_server_spec list" where
  "networkd_specs servers specs =
     (if specs = [] then map plain_spec servers else normalize_link_specs servers specs)"

definition apply_identities ::
  "int list \<Rightarrow> (int \<times> socket_addr list \<times> dns_server_spec list) list \<Rightarrow> 'f resolver \<Rightarrow> 'f resolver \<times> bool" where
  "apply_identities removed managed r =
     fold (\<lambda>(i, servers, specs) (r, c).
         let (r, c') = replace_link_server_specs r i (networkd_specs servers specs) in (r, c \<or> c')) managed
       (fold (\<lambda>i (r, c). let (r, c') = remove_link_server_specs r i in (r, c \<or> c')) removed (r, False))"

definition sync_networkd_links :: "networkd_link list \<Rightarrow> 'f resolver \<Rightarrow> 'f resolver \<times> (link_error + unit)" where
  "sync_networkd_links links r =
     (let incoming = fold (\<lambda>l m. AList.update (nl_ifindex l) l m) links [] in
      case release_links incoming (rv_networkd_links r) (rv_routing r) [] False of
        (t, Inl e) \<Rightarrow> (r\<lparr>rv_routing := t\<rparr>, Inl e)
      | (t, Inr (removed, changed)) \<Rightarrow>
          (case manage_links (rv_config r) (map snd incoming) t removed [] changed of
             (t, Inl e) \<Rightarrow> (r\<lparr>rv_routing := t\<rparr>, Inl e)
           | (t, Inr (removed, managed, changed)) \<Rightarrow>
               let (r, identity) =
                 apply_identities removed managed (r\<lparr>rv_routing := t, rv_networkd_links := incoming\<rparr>) in
               (finish_routing_change (changed \<or> identity) r, Inr ())))"

definition rv_search_domains :: "'f resolver \<Rightarrow> int option \<Rightarrow> resolve_error + domain list" where
  "rv_search_domains r ifindex = map_err ReLink (search_domains (rv_routing r) (cfg_domains (rv_config r)) ifindex)"

section \<open>Maintenance\<close>

definition rv_flush_cache :: "'f resolver \<Rightarrow> 'f resolver" where
  "rv_flush_cache r = r\<lparr>rv_cache := cache_flush (rv_cache r)\<rparr>"

text \<open>The hosts file is read again; a failure to read it leaves the old one in place.\<close>

definition reload_hosts :: "file_read \<Rightarrow> 'f resolver \<Rightarrow> 'f resolver \<times> (string + unit)" where
  "reload_hosts file r =
     (case (if cfg_read_etc_hosts (rv_config r) then hosts_load file else Inr hosts_default) of
        Inl e \<Rightarrow> (r, Inl e)
      | Inr h \<Rightarrow> (r\<lparr>rv_hosts := h\<rparr>, Inr ()))"

definition reset_server_features :: "'f \<Rightarrow> 'f resolver \<Rightarrow> 'f resolver" where
  "reset_server_features rtt r =
     r\<lparr>rv_states := map (\<lambda>(k, s). (k, s\<lparr>ss_metric := metric_default rtt, ss_cooldown_until := None,
          ss_features := feature_default, ss_tls := tls_default, ss_transport := transport_default,
          ss_missing_root_rrsig := False, ss_packet_do_off := False, ss_packet_invalid := False\<rparr>)) (rv_states r)\<rparr>"

definition reset_statistics :: "'f resolver \<Rightarrow> 'f resolver" where
  "reset_statistics r =
     r\<lparr>rv_counters := counters_default\<lparr>cn_current_transactions := cn_current_transactions (rv_counters r)\<rparr>\<rparr>"

definition resolver_stats :: "'f resolver \<Rightarrow> counters \<times> nat" where
  "resolver_stats r = (rv_counters r, cache_len (rv_cache r))"

end
