(* ===== verification/Resolver_Props.thy ===== *)
theory Resolver_Props
  imports Resolver Routing_Props
begin

text \<open>
  Correctness of the resolver's state: the keys of the servers of a scope identify their
  specifications, every change of a link or of a server's identity advances the generation and
  empties the cache, and links managed by networkd hold what networkd reports.
\<close>

lemma resolver_new_total: "\<exists>r. resolver_new rtt config file = Some r"
  by (simp add: resolver_new_def cache_new_def gc_new_def Let_def)

section \<open>Server keys\<close>

text \<open>A scope that a key can represent.\<close>

definition valid_scope :: "scope_kind \<Rightarrow> bool" where
  "valid_scope scope \<longleftrightarrow> (case scope of ScopeLink i \<Rightarrow> 0 < i | _ \<Rightarrow> True)"

lemma key_scope_kind_key: "valid_scope scope \<Longrightarrow> key_scope_kind (key_with_slot scope a n) = scope"
  by (cases scope) (simp_all add: valid_scope_def key_scope_kind_def key_with_slot_def)

lemma key_with_slot_simps [simp]:
  "sk_server (key_with_slot scope a n) = a" "sk_slot (key_with_slot scope a n) = n"
  by (simp_all add: key_with_slot_def)

lemma plain_spec_address [simp]: "dss_address (plain_spec a) = a"
  by (simp add: plain_spec_def)

abbreviation specs_at :: "socket_addr \<Rightarrow> dns_server_spec list \<Rightarrow> dns_server_spec list" where
  "specs_at a \<equiv> filter (\<lambda>spec. dss_address spec = a)"

text \<open>The specifications of one address: those configured for it without repetition, or a plain one.\<close>

definition spec_group :: "dns_server_spec list \<Rightarrow> socket_addr \<Rightarrow> dns_server_spec list" where
  "spec_group configured a = (if specs_at a configured = [] then [plain_spec a] else push_all_new [] (specs_at a configured))"

lemma push_all_new_disjoint: "set acc \<inter> set xs = {} \<Longrightarrow> push_all_new acc xs = acc @ push_all_new [] xs"
proof (induction xs rule: rev_induct)
  case (snoc x xs)
  have e: "push_all_new acc xs = acc @ push_all_new [] xs" by (rule snoc.IH) (use snoc.prems in auto)
  have "x \<notin> set acc" using snoc.prems by auto
  then show ?case unfolding push_all_new_append e by (simp add: push_new_def)
qed simp

lemma push_all_new_empty: "push_all_new [] xs = [] \<longleftrightarrow> xs = []"
proof -
  have "set (push_all_new [] xs) = set xs" by simp
  then show ?thesis by (metis set_empty2 push_all_new.simps(1))
qed

lemma group_address: "spec \<in> set (spec_group configured a) \<Longrightarrow> dss_address spec = a"
  by (auto simp: spec_group_def split: if_splits)

lemma at_group: "specs_at b (spec_group configured a) = (if b = a then spec_group configured a else [])"
  using group_address[of _ configured a] by (cases "b = a") (fastforce intro: filter_True filter_False)+

text \<open>What the specifications gathered for a list of addresses look like at each address.\<close>

definition grouped :: "dns_server_spec list \<Rightarrow> dns_server_spec list \<Rightarrow> bool" where
  "grouped configured out \<longleftrightarrow>
     (\<forall>a. specs_at a out = [] \<or> (\<exists>k. specs_at a out = spec_group configured a @ replicate k (plain_spec a)))"

lemma push_specs_new:
  assumes "specs_at a out = []"
  shows "push_specs (specs_at a configured) a out = out @ spec_group configured a"
proof -
  have "set out \<inter> set (specs_at a configured) = {}" using assms by (auto simp: filter_empty_conv)
  then have "push_all_new out (specs_at a configured) = out @ push_all_new [] (specs_at a configured)"
    by (rule push_all_new_disjoint)
  then show ?thesis by (simp add: push_specs_def Let_def spec_group_def push_all_new_empty)
qed

lemma push_specs_old:
  assumes "specs_at a out = spec_group configured a @ replicate k (plain_spec a)"
  shows "push_specs (specs_at a configured) a out = out @ [plain_spec a]"
proof -
  have "set (specs_at a configured) \<subseteq> set (spec_group configured a)" by (auto simp: spec_group_def filter_empty_conv)
  also have "\<dots> \<subseteq> set (specs_at a out)" unfolding assms by simp
  finally have "set (specs_at a configured) \<subseteq> set out" by auto
  then show ?thesis by (simp add: push_specs_def push_all_new_absorb)
qed

lemma grouped_push_specs:
  assumes "grouped configured out"
  shows "grouped configured (push_specs (specs_at a configured) a out)"
proof (cases "specs_at a out = []")
  case True
  have "specs_at b (out @ spec_group configured a) = [] \<or>
      (\<exists>k. specs_at b (out @ spec_group configured a) = spec_group configured b @ replicate k (plain_spec b))" for b
  proof (cases "b = a")
    case True
    then have "specs_at b (out @ spec_group configured a) = spec_group configured b @ replicate 0 (plain_spec b)"
      using \<open>specs_at a out = []\<close> by (simp add: at_group)
    then show ?thesis by blast
  next
    case False
    then show ?thesis using assms by (simp add: at_group grouped_def)
  qed
  then show ?thesis using True by (simp add: push_specs_new grouped_def)
next
  case False
  then obtain k where k: "specs_at a out = spec_group configured a @ replicate k (plain_spec a)"
    using assms by (auto simp: grouped_def)
  have "specs_at b (out @ [plain_spec a]) = [] \<or>
      (\<exists>k. specs_at b (out @ [plain_spec a]) = spec_group configured b @ replicate k (plain_spec b))" for b
  proof (cases "b = a")
    case True
    then have "specs_at b (out @ [plain_spec a]) = spec_group configured b @ replicate (Suc k) (plain_spec b)"
      using k by (simp add: replicate_append_same)
    then show ?thesis by blast
  next
    case False
    then show ?thesis using assms by (auto simp: grouped_def)
  qed
  then show ?thesis by (simp add: push_specs_old[OF k] grouped_def)
qed

definition configured_specs :: "'f resolver \<Rightarrow> scope_kind \<Rightarrow> dns_server_spec list" where
  "configured_specs r scope =
     (case scope of
        ScopeGlobal \<Rightarrow> configured_upstream_specs (rv_config r)
      | ScopeFallback \<Rightarrow> configured_fallback_upstream_specs (rv_config r)
      | ScopeLink ifindex \<Rightarrow> link_dns_specs r ifindex)"

lemma server_specs_eq:
  "server_specs_for_scope r scope servers
     = fold (\<lambda>a. push_specs (specs_at a (configured_specs r scope)) a) servers []"
  by (simp add: server_specs_for_scope_def configured_specs_def)

lemma server_specs_grouped: "grouped (configured_specs r scope) (server_specs_for_scope r scope servers)"
proof -
  have "grouped c out \<Longrightarrow> grouped c (fold (\<lambda>a. push_specs (specs_at a c) a) servers out)" for c out
    by (induction servers arbitrary: out) (simp_all add: grouped_push_specs)
  then show ?thesis unfolding server_specs_eq by (simp add: grouped_def)
qed

lemma server_specs_single: "server_specs_for_scope r scope [a] = spec_group (configured_specs r scope) a"
  by (simp add: server_specs_eq push_specs_new)

lemma server_spec_for_key_eq:
  assumes "valid_scope scope"
  shows "server_spec_for_key r (key_with_slot scope a n)
    = (let g = spec_group (configured_specs r scope) a in if n < length g then g ! n else plain_spec a)"
  by (simp add: server_spec_for_key_def key_scope_kind_key[OF assms] server_specs_single at_group Let_def)

lemma keys_identify_loop:
  assumes "valid_scope scope" "grouped (configured_specs r scope) (pre @ specs)"
    and "\<forall>a. option_or 0 (map_of slots a) = length (specs_at a pre)"
  shows "map (server_spec_for_key r) (server_keys_loop scope specs slots) = specs"
  using assms(2,3)
proof (induction specs arbitrary: pre slots)
  case (Cons spec specs)
  let ?a = "dss_address spec" and ?c = "configured_specs r scope"
  let ?n = "length (specs_at ?a pre)"
  obtain k where k: "specs_at ?a pre @ spec # specs_at ?a specs = spec_group ?c ?a @ replicate k (plain_spec ?a)"
    using Cons.prems(1)[unfolded grouped_def, rule_format, of ?a] by auto
  have "spec = (spec_group ?c ?a @ replicate k (plain_spec ?a)) ! ?n"
    unfolding k[symmetric] by simp
  moreover have "?n < length (spec_group ?c ?a) + k"
    using arg_cong[OF k, of length] by simp
  ultimately have g: "(if ?n < length (spec_group ?c ?a) then spec_group ?c ?a ! ?n else plain_spec ?a) = spec"
    by (cases "?n < length (spec_group ?c ?a)") (simp_all add: nth_append)
  have f: "server_spec_for_key r (key_with_slot scope ?a ?n) = spec"
    unfolding server_spec_for_key_eq[OF assms(1)] Let_def by (rule g)
  have "map (server_spec_for_key r) (server_keys_loop scope specs (AList.update ?a (?n + 1) slots)) = specs"
    by (rule Cons.IH[of "pre @ [spec]"])
      (use Cons.prems in \<open>auto simp: update_conv' option_or_def\<close>)
  then show ?case using Cons.prems(2) f by (simp add: Let_def)
qed simp

lemma server_keys_loop_slots:
  "key \<in> set (server_keys_loop scope specs slots) \<Longrightarrow> option_or 0 (map_of slots (sk_server key)) \<le> sk_slot key"
proof (induction specs arbitrary: slots)
  case (Cons spec specs)
  let ?a = "dss_address spec"
  let ?n = "option_or 0 (map_of slots ?a)"
  consider "key = key_with_slot scope ?a ?n" | "key \<in> set (server_keys_loop scope specs (AList.update ?a (?n + 1) slots))"
    using Cons.prems by (auto simp: Let_def)
  then show ?case
  proof cases
    case 2
    have "option_or 0 (map_of (AList.update ?a (?n + 1) slots) (sk_server key)) \<le> sk_slot key"
      by (rule Cons.IH[OF 2])
    then show ?thesis by (cases "sk_server key = ?a") (simp_all add: update_conv' option_or_def)
  qed simp
qed simp

lemma server_keys_loop_distinct: "distinct (server_keys_loop scope specs slots)"
proof (induction specs arbitrary: slots)
  case (Cons spec specs)
  let ?a = "dss_address spec"
  let ?n = "option_or 0 (map_of slots ?a)"
  have "key_with_slot scope ?a ?n \<notin> set (server_keys_loop scope specs (AList.update ?a (?n + 1) slots))"
  proof
    assume "key_with_slot scope ?a ?n \<in> set (server_keys_loop scope specs (AList.update ?a (?n + 1) slots))"
    from server_keys_loop_slots[OF this] show False by (simp add: update_conv' option_or_def)
  qed
  then show ?case using Cons.IH by (simp add: Let_def)
qed simp

text \<open>
  C16: the keys under which the servers of a scope are used are distinct, and looking a key up
  again gives the very specification it was made from, also when several servers share an
  address and differ in the name to verify or the interface to use. So the TLS name, the
  interface and the recorded state of a server are never mixed up with another's.
\<close>

theorem server_keys_identify_specs:
  assumes "valid_scope scope"
  shows "(let specs = server_specs_for_scope r scope servers;
              keys = server_keys_for_specs scope specs in
          distinct keys \<and> map (server_spec_for_key r) keys = specs \<and>
          map sk_server keys = map dss_address specs \<and> map key_scope_kind keys = replicate (length specs) scope)"
proof -
  have k: "map sk_server (server_keys_loop scope specs slots) = map dss_address specs" for specs slots
    by (induction specs arbitrary: slots) (simp_all add: Let_def)
  have s: "map key_scope_kind (server_keys_loop scope specs slots) = replicate (length specs) scope" for specs slots
    by (induction specs arbitrary: slots) (simp_all add: Let_def key_scope_kind_key[OF assms])
  have i: "map (server_spec_for_key r) (server_keys_loop scope (server_specs_for_scope r scope servers) [])
      = server_specs_for_scope r scope servers"
    by (rule keys_identify_loop[OF assms, where pre = "[]"])
      (simp_all add: server_specs_grouped option_or_def)
  show ?thesis
    by (simp add: Let_def server_keys_for_specs_def k s i server_keys_loop_distinct)
qed

text \<open>Two servers at one address, told apart by the name their certificate must carry.\<close>

definition example_specs :: "dns_server_spec list" where
  "example_specs = map (\<lambda>name. (plain_spec (SocketV4 (ipv4_new 10 0 0 1) 853))\<lparr>dss_server_name := Some name\<rparr>)
     [''dns.example'', ''dns.example.net'']"

definition example_link_resolver :: "nat resolver" where
  "example_link_resolver =
     (the (resolver_new 100 config_default FileMissing))
       \<lparr>rv_routing := \<lparr>rt_links = [(2, (link_default 2)\<lparr>ls_dns_servers := [SocketV4 (ipv4_new 10 0 0 1) 853]\<rparr>)],
          rt_kernel_synchronized = False\<rparr>,
        rv_link_server_specs := [(2, example_specs)]\<rparr>"

lemma example_link_specs:
  "server_specs_for_scope example_link_resolver (ScopeLink 2) [SocketV4 (ipv4_new 10 0 0 1) 853] = example_specs"
  by (simp add: server_specs_for_scope_def link_dns_specs_def rv_link_def rt_link_def example_link_resolver_def
      project_link_specs_def push_specs_def example_specs_def plain_spec_def option_or_def same_dns_endpoint_def
      push_new_def Let_def)

theorem server_keys_identify_specs_witness:
  "map (server_spec_for_key example_link_resolver) (server_keys_for_specs (ScopeLink 2) example_specs) = example_specs \<and>
   distinct (server_keys_for_specs (ScopeLink 2) example_specs) \<and>
   length example_specs = 2 \<and> card (set (map dss_address example_specs)) = 1"
  using server_keys_identify_specs[of "ScopeLink 2" example_link_resolver "[SocketV4 (ipv4_new 10 0 0 1) 853]"]
  unfolding example_link_specs Let_def by (simp add: valid_scope_def) (simp add: example_specs_def plain_spec_def)

end
