(* ===== verification/Resolver_Links.thy ===== *)
theory Resolver_Links
  imports Resolver Routing_Props
begin

text \<open>
  The operations on links: a setter stores exactly its value, a change of any link or server
  identity that is reported as done advances the generation and empties the cache, and a
  synchronisation with networkd gives every managed link the reported settings.
\<close>

section \<open>What a setter leaves behind\<close>

definition stored_by :: "link_error + 'w \<Rightarrow> ('w \<Rightarrow> link_state \<Rightarrow> link_state) \<Rightarrow> link_state \<Rightarrow> link_state" where
  "stored_by r upd l = (case r of Inr w \<Rightarrow> upd w l | Inl _ \<Rightarrow> l)"

text \<open>
  Link \<open>i\<close> of the table, a new one if there was none, went through \<open>f\<close>; without a change that was
  reported, \<open>f\<close> did nothing and a table that had the link is the same.
\<close>

definition link_stored :: "routing_table \<Rightarrow> int \<Rightarrow> (link_state \<Rightarrow> link_state) \<Rightarrow> routing_table \<Rightarrow> bool \<Rightarrow> bool" where
  "link_stored t i f t' b \<longleftrightarrow>
     (\<exists>l. (rt_link t i = Some l \<or> rt_link t i = None \<and> l = link_default i) \<and>
          rt_link t' i = Some (f l) \<and> (\<not> b \<longrightarrow> f l = l \<and> (rt_link t i = Some l \<longrightarrow> t' = t)))"

text \<open>The fields of a link are lenses: storing the value that is there changes nothing.\<close>

locale link_field = link_setter +
  assumes upd_view: "upd (view l) l = l"
begin

lemma setter_stored:
  assumes "rt_wf t" "setter t i v = (t', Inr b)"
  shows "link_stored t i (stored_by (norm i v) upd) t' b"
proof (cases rule: setter_cases[OF assms, case_names refused invalid same changed])
  case (same t0 l w)
  then show ?thesis using link_mut_Inr[OF assms(1) same(1)] upd_view[of l]
    by (auto simp: link_stored_def stored_by_def)
next
  case (changed t0 l w)
  then show ?thesis using link_mut_Inr[OF assms(1) changed(1)]
    by (auto simp: link_stored_def stored_by_def rt_link_put)
qed auto

end

interpretation dns_field: link_field set_dns
  "\<lambda>i servers. Inr (push_all_new [] (map (normalize_server i) servers))"
  ls_dns_servers "\<lambda>w l. l\<lparr>ls_dns_servers := w\<rparr>"
  by unfold_locales simp

interpretation domains_field: link_field set_domains "\<lambda>i v. collect_normalized normalize_domain v []"
  ls_domains "\<lambda>w l. l\<lparr>ls_domains := w\<rparr>"
  by unfold_locales simp

interpretation default_route_field: link_field set_default_route "\<lambda>i. Inr"
  ls_default_route "\<lambda>w l. l\<lparr>ls_default_route := w\<rparr>"
  by unfold_locales simp

interpretation llmnr_field: link_field set_llmnr "\<lambda>i. Inr" ls_llmnr "\<lambda>w l. l\<lparr>ls_llmnr := w\<rparr>"
  by unfold_locales simp

interpretation multicast_dns_field: link_field set_multicast_dns "\<lambda>i. Inr"
  ls_multicast_dns "\<lambda>w l. l\<lparr>ls_multicast_dns := w\<rparr>"
  by unfold_locales simp

interpretation dns_over_tls_field: link_field set_dns_over_tls "\<lambda>i. Inr"
  ls_dns_over_tls "\<lambda>w l. l\<lparr>ls_dns_over_tls := w\<rparr>"
  by unfold_locales simp

interpretation dnssec_field: link_field set_dnssec "\<lambda>i. Inr" ls_dnssec "\<lambda>w l. l\<lparr>ls_dnssec := w\<rparr>"
  by unfold_locales simp

interpretation anchors_field: link_field set_negative_trust_anchors "\<lambda>i v. collect_normalized normalize_name v []"
  ls_negative_trust_anchors "\<lambda>w l. l\<lparr>ls_negative_trust_anchors := w\<rparr>"
  by unfold_locales simp

fun store_setting :: "int \<Rightarrow> link_setting \<Rightarrow> link_state \<Rightarrow> link_state" where
  "store_setting i (SDns v) =
     stored_by (Inr (push_all_new [] (map (normalize_server i) v))) (\<lambda>w l. l\<lparr>ls_dns_servers := w\<rparr>)"
| "store_setting i (SDomains v) =
     stored_by (collect_normalized normalize_domain v []) (\<lambda>w l. l\<lparr>ls_domains := w\<rparr>)"
| "store_setting i (SDefaultRoute v) = stored_by (Inr v) (\<lambda>w l. l\<lparr>ls_default_route := w\<rparr>)"
| "store_setting i (SLlmnr v) = stored_by (Inr v) (\<lambda>w l. l\<lparr>ls_llmnr := w\<rparr>)"
| "store_setting i (SMulticastDns v) = stored_by (Inr v) (\<lambda>w l. l\<lparr>ls_multicast_dns := w\<rparr>)"
| "store_setting i (SDnsOverTls v) = stored_by (Inr v) (\<lambda>w l. l\<lparr>ls_dns_over_tls := w\<rparr>)"
| "store_setting i (SDnssec v) = stored_by (Inr v) (\<lambda>w l. l\<lparr>ls_dnssec := w\<rparr>)"
| "store_setting i (SAnchors v) =
     stored_by (collect_normalized normalize_name v []) (\<lambda>w l. l\<lparr>ls_negative_trust_anchors := w\<rparr>)"

lemma apply_link_setting_stored:
  assumes "rt_wf t" "apply_link_setting t i v = (t', Inr b)"
  shows "link_stored t i (store_setting i v) t' b"
  using assms(2)
  by (cases v) (simp_all add: dns_field.setter_stored[OF assms(1)] domains_field.setter_stored[OF assms(1)]
      default_route_field.setter_stored[OF assms(1)] llmnr_field.setter_stored[OF assms(1)]
      multicast_dns_field.setter_stored[OF assms(1)] dns_over_tls_field.setter_stored[OF assms(1)]
      dnssec_field.setter_stored[OF assms(1)] anchors_field.setter_stored[OF assms(1)])

section \<open>Reports of no change are true\<close>

lemma rt_revert_unchanged: "rt_revert t i = (t', Inr False) \<Longrightarrow> t' = t"
  by (auto simp: rt_revert_def Let_def split: sum.splits if_splits)

lemma apply_link_setting_unchanged:
  assumes "rt_wf t" "apply_link_setting t i v = (t', Inr False)" "rt_link t i \<noteq> None"
  shows "t' = t"
  using apply_link_setting_stored[OF assms(1,2)] assms(3) by (auto simp: link_stored_def)

lemma sync_loop_monotone: "sync_loop ks t seen changed = (t', Inr (seen', False)) \<Longrightarrow> \<not> changed"
  by (induction ks arbitrary: t seen changed) (auto simp: Let_def split: sum.splits)

lemma sync_loop_unchanged:
  assumes "rt_wf t" "sync_loop ks t seen changed = (t', Inr (seen', False))"
  shows "t' = t"
  using assms
proof (induction ks arbitrary: t seen changed)
  case (Cons k ks)
  let ?i = "kl_ifindex k"
  define l where "l = (case map_of (rt_links t) ?i of Some l \<Rightarrow> l | None \<Rightarrow> link_default ?i)"
  let ?t = "t\<lparr>rt_links := bt_put ?i (l\<lparr>ls_kernel := Some k\<rparr>) (rt_links t)\<rparr>"
  have s: "sync_loop ks ?t (?i # seen) (changed \<or> ls_kernel l \<noteq> Some k) = (t', Inr (seen', False))"
    using Cons.prems(2) unfolding l_def by (auto simp: Let_def split: sum.splits)
  have kern: "ls_kernel l = Some k" using sync_loop_monotone[OF s] by blast
  then have "rt_link t ?i = Some l" unfolding l_def
    by (cases "map_of (rt_links t) ?i") (simp_all add: rt_link_def link_default_def)
  moreover have "l\<lparr>ls_kernel := Some k\<rparr> = l" using kern by simp
  ultimately have "?t = t" using rt_put_same[OF Cons.prems(1)] by simp
  then show ?case using Cons.IH[OF Cons.prems(1)] s by simp
qed simp

lemma sync_kernel_links_unchanged:
  assumes "rt_wf t" "sync_kernel_links t ks = (t', Inr False)"
  shows "t' = t"
proof -
  obtain t0 seen changed where s: "sync_loop ks t [] (\<not> rt_kernel_synchronized t) = (t0, Inr (seen, changed))"
    using assms(2) by (auto simp: sync_kernel_links_def Let_def split: prod.splits sum.splits)
  define P :: "int \<times> link_state \<Rightarrow> bool" where "P = (\<lambda>(i, l). if i \<in> set seen then True else ls_kernel l = None \<and> \<not> rt_kernel_synchronized t0)"
  have t': "t' = t0\<lparr>rt_links := filter P (rt_links t0), rt_kernel_synchronized := True\<rparr>"
    and c: "\<not> changed" "length (filter P (rt_links t0)) = length (rt_links t0)"
    using assms(2) s by (auto simp: sync_kernel_links_def Let_def P_def)
  have s': "sync_loop ks t [] (\<not> rt_kernel_synchronized t) = (t0, Inr (seen, False))" using s c(1) by simp
  have "t0 = t" "rt_kernel_synchronized t"
    using sync_loop_unchanged[OF assms(1) s'] sync_loop_monotone[OF s'] by simp_all
  moreover have "filter P (rt_links t0) = rt_links t0"
    using c(2) length_filter_less[of _ "rt_links t0" P] by (metis filter_True nat_neq_iff)
  ultimately show ?thesis using t' by simp
qed

abbreviation link_settings :: "int \<Rightarrow> link_setting list \<Rightarrow> (routing_table \<Rightarrow> routing_table \<times> (link_error + bool)) list" where
  "link_settings i vs \<equiv> map (\<lambda>v t. apply_link_setting t i v) vs"

lemma run_settings:
  assumes "rt_wf t" "rt_link t i = Some l" "run_setters (link_settings i vs) t c = (t', Inr c')"
  shows "rt_wf t' \<and> rt_link t' i = Some (fold (store_setting i) vs l) \<and>
    (\<forall>j. j \<noteq> i \<longrightarrow> rt_link t' j = rt_link t j) \<and> (\<not> c' \<longrightarrow> \<not> c \<and> t' = t)"
  using assms
proof (induction vs arbitrary: t l c)
  case (Cons v vs)
  obtain t1 b where f: "apply_link_setting t i v = (t1, Inr b)"
    and rest: "run_setters (link_settings i vs) t1 (c \<or> b) = (t', Inr c')"
    using Cons.prems(3) by (auto split: prod.splits sum.splits)
  have wf: "rt_wf t1" using apply_link_setting_wf[OF Cons.prems(1), of i v] f by simp
  have l1: "rt_link t1 i = Some (store_setting i v l)" and same: "\<not> b \<Longrightarrow> t1 = t"
    using apply_link_setting_stored[OF Cons.prems(1) f] Cons.prems(2) by (auto simp: link_stored_def)
  have frame: "\<forall>j. j \<noteq> i \<longrightarrow> rt_link t1 j = rt_link t j"
    using apply_link_setting_frame[OF Cons.prems(1), of _ i v] f by simp
  show ?case using Cons.IH[OF wf l1 rest] frame same by auto
qed simp

lemma run_settings_wf:
  assumes "rt_wf t" shows "rt_wf (fst (run_setters (link_settings i vs) t c))"
  using assms
proof (induction vs arbitrary: t c)
  case (Cons v vs)
  obtain t1 r where f: "apply_link_setting t i v = (t1, r)" by fastforce
  have "rt_wf t1" using apply_link_setting_wf[OF Cons.prems, of i v] f by simp
  then show ?case using Cons.IH f by (cases r) simp_all
qed simp

definition reported_settings :: "config \<Rightarrow> networkd_link \<Rightarrow> link_setting list" where
  "reported_settings config l =
     [SDns (nl_dns_servers l), SDomains (nl_domains l), SDefaultRoute (nl_default_route l), SLlmnr (nl_llmnr l),
      SMulticastDns (nl_multicast_dns l), SDnsOverTls (option_or (cfg_dns_over_tls config) (nl_dns_over_tls l)),
      SDnssec (option_or (cfg_dnssec config) (nl_dnssec l)), SAnchors (nl_negative_trust_anchors l)]"

lemma networkd_setters_eq: "networkd_setters config l = link_settings (nl_ifindex l) (reported_settings config l)"
  by (simp add: networkd_setters_def reported_settings_def Let_def)

lemma release_links_keeps:
  assumes "rt_wf t" "release_links incoming ls t removed changed = (t', Inr (removed', changed'))"
  shows "rt_wf t' \<and> (\<not> changed' \<longrightarrow> \<not> changed \<and> t' = t) \<and>
    (\<forall>i l. map_of incoming i = Some l \<and> nl_managed l \<longrightarrow> rt_link t' i = rt_link t i)"
  using assms
proof (induction ls arbitrary: t removed changed)
  case (Cons p ls)
  obtain i previous where p: "p = (i, previous)" by fastforce
  define still where "still = (case map_of incoming i of None \<Rightarrow> False | Some l \<Rightarrow> nl_managed l)"
  show ?case
  proof (cases "nl_managed previous \<and> \<not> still \<and> rt_link t i \<noteq> None")
    case True
    obtain t1 c where v: "rt_revert t i = (t1, Inr c)"
      and rest: "release_links incoming ls t1 (removed @ [i]) (changed \<or> c) = (t', Inr (removed', changed'))"
      using Cons.prems(2) True unfolding p still_def by (auto split: prod.splits sum.splits)
    have wf: "rt_wf t1" using rt_revert_wf[OF Cons.prems(1), of i] v by simp
    have frame: "rt_link t1 j = rt_link t j" if "j \<noteq> i" for j
      using v that Cons.prems(1)
      by (auto simp: rt_revert_def rt_link_def rt_wf_def Let_def split: sum.splits if_splits)
    have "map_of incoming i \<noteq> Some l \<or> \<not> nl_managed l" for l using True by (auto simp: still_def)
    then show ?thesis
      using Cons.IH[OF wf rest] frame rt_revert_unchanged[of t i t1] v by (metis (full_types))
  next
    case False
    then show ?thesis
      using Cons.prems Cons.IH[OF Cons.prems(1)] unfolding p still_def
      by (auto split: if_splits option.splits)
  qed
qed simp

text \<open>The link that networkd's report makes of a link.\<close>

definition reported_link :: "config \<Rightarrow> networkd_link \<Rightarrow> link_state \<Rightarrow> link_state" where
  "reported_link config l s = fold (store_setting (nl_ifindex l)) (reported_settings config l) s"

definition reported_servers :: "networkd_link \<Rightarrow> socket_addr list" where
  "reported_servers l = push_all_new [] (map (normalize_server (nl_ifindex l)) (nl_dns_servers l))"

lemma reported_link_servers: "ls_dns_servers (reported_link config l s) = reported_servers l"
  by (simp add: reported_link_def reported_settings_def stored_by_def reported_servers_def split: sum.split)

abbreviation managed_in :: "routing_table \<Rightarrow> networkd_link list \<Rightarrow> networkd_link list" where
  "managed_in t ls \<equiv> filter (\<lambda>l. nl_managed l \<and> rt_link t (nl_ifindex l) \<noteq> None) ls"

definition managed_result ::
  "config \<Rightarrow> networkd_link list \<Rightarrow> routing_table \<Rightarrow> routing_table \<Rightarrow> bool" where
  "managed_result config ls t t' \<longleftrightarrow>
     (\<forall>l s. l \<in> set ls \<and> nl_managed l \<and> rt_link t (nl_ifindex l) = Some s \<longrightarrow>
        rt_link t' (nl_ifindex l) = Some (reported_link config l s)) \<and>
     (\<forall>j. (\<forall>l \<in> set ls. nl_managed l \<longrightarrow> nl_ifindex l \<noteq> j) \<longrightarrow> rt_link t' j = rt_link t j)"

lemma manage_links_keeps:
  assumes "rt_wf t" "distinct (map nl_ifindex ls)"
    and "manage_links config ls t removed managed changed = (t', Inr (removed', managed', changed'))"
  shows "rt_wf t' \<and> (\<not> changed' \<longrightarrow> \<not> changed \<and> t' = t) \<and> managed_result config ls t t' \<and>
    managed' = managed @ map (\<lambda>l. (nl_ifindex l, reported_servers l, nl_dns_server_specs l)) (managed_in t ls)"
  using assms
proof (induction ls arbitrary: t removed managed changed)
  case (Cons l ls)
  let ?i = "nl_ifindex l"
  have d: "distinct (map nl_ifindex ls)" "\<forall>l' \<in> set ls. nl_ifindex l' \<noteq> ?i"
    using Cons.prems(2) by (auto simp: image_iff)
  show ?case
  proof (cases "nl_managed l \<and> rt_link t ?i \<noteq> None")
    case False
    then obtain removed1 where rest: "manage_links config ls t removed1 managed changed = (t', Inr (removed', managed', changed'))"
      using Cons.prems(3) by (auto split: if_splits)
    show ?thesis using Cons.IH[OF Cons.prems(1) d(1) rest] False by (auto simp: managed_result_def)
  next
    case True
    then obtain s where s: "rt_link t ?i = Some s" by blast
    obtain t1 c where run: "run_setters (networkd_setters config l) t changed = (t1, Inr c)"
      using Cons.prems(3) True by (auto split: prod.splits sum.splits)
    have k: "rt_wf t1" "rt_link t1 ?i = Some (reported_link config l s)" "\<forall>j. j \<noteq> ?i \<longrightarrow> rt_link t1 j = rt_link t j"
      "\<not> c \<longrightarrow> \<not> changed \<and> t1 = t"
      using run_settings[OF Cons.prems(1) s run[unfolded networkd_setters_eq]] by (auto simp: reported_link_def)
    have rest: "manage_links config ls t1 removed (managed @ [(?i, reported_servers l, nl_dns_server_specs l)]) c
        = (t', Inr (removed', managed', changed'))"
      using Cons.prems(3) True run k(2) by (simp add: reported_link_servers)
    have same: "managed_in t1 ls = managed_in t ls" using k(3) d(2) by (auto intro!: filter_cong)
    show ?thesis
      using Cons.IH[OF k(1) d(1) rest] k(2,3,4) True d(2) s same
      by (auto simp: managed_result_def)
  qed
qed (simp add: managed_result_def)

section \<open>Server identities\<close>

abbreviation specs_of :: "'f resolver \<Rightarrow> int \<rightharpoonup> dns_server_spec list" where
  "specs_of r \<equiv> map_of (rv_link_server_specs r)"

definition nonempty :: "'a list \<Rightarrow> 'a list option" where
  "nonempty xs = (if xs = [] then None else Some xs)"

text \<open>Only the specifications differ.\<close>

definition but_specs :: "'f resolver \<Rightarrow> 'f resolver \<Rightarrow> bool" where
  "but_specs r r' \<longleftrightarrow> (\<exists>m. r' = r\<lparr>rv_link_server_specs := m\<rparr>)"

lemma but_specs_trans: "but_specs r r' \<Longrightarrow> but_specs r' r'' \<Longrightarrow> but_specs r r''"
  by (auto simp: but_specs_def)

lemma but_specs_refl: "but_specs r r"
  by (auto simp: but_specs_def intro: exI[of _ "rv_link_server_specs r"])

lemma replace_specs:
  assumes "replace_link_server_specs r i sp = (r', c)"
  shows "but_specs r r' \<and>
    specs_of r' = (specs_of r)(i := nonempty sp) \<and> (\<not> c \<longrightarrow> specs_of r' = specs_of r)"
  using assms
  by (auto simp: replace_link_server_specs_def Let_def nonempty_def delete_conv' update_conv' fun_upd_idem
      but_specs_refl split: if_splits) (auto simp: but_specs_def)

lemma remove_specs:
  assumes "remove_link_server_specs r i = (r', c)"
  shows "but_specs r r' \<and>
    specs_of r' = (specs_of r)(i := None) \<and> (\<not> c \<longrightarrow> specs_of r' = specs_of r)"
  using assms by (auto simp: remove_link_server_specs_def delete_conv' fun_upd_idem but_specs_def)

lemma remove_all_specs:
  assumes "fold (\<lambda>i (r, c). let (r, c') = remove_link_server_specs r i in (r, c \<or> c')) is (r, c) = (r', c')"
  shows "but_specs r r' \<and> (\<forall>i. i \<notin> set is \<longrightarrow> specs_of r' i = specs_of r i) \<and>
    (\<not> c' \<longrightarrow> \<not> c \<and> specs_of r' = specs_of r)"
  using assms
proof (induction "is" arbitrary: r c)
  case (Cons i "is")
  obtain r1 c1 where s: "remove_link_server_specs r i = (r1, c1)" by fastforce
  have "fold (\<lambda>i (r, c). let (r, c') = remove_link_server_specs r i in (r, c \<or> c')) is (r1, c \<or> c1) = (r', c')"
    using Cons.prems by (simp add: s)
  note ih = Cons.IH[OF this] and st = remove_specs[OF s]
  show ?case
  proof (intro conjI allI impI)
    show "but_specs r r'" using ih st but_specs_trans by blast
    show "specs_of r' j = specs_of r j" if "j \<notin> set (i # is)" for j using ih st that by simp
    show "\<not> c" "specs_of r' = specs_of r" if "\<not> c'" using ih st that by metis+
  qed
qed (simp add: but_specs_refl)

lemma replace_all_specs:
  assumes "fold (\<lambda>(i, servers, specs) (r, c).
      let (r, c') = replace_link_server_specs r i (networkd_specs servers specs) in (r, c \<or> c')) ms (r, c) = (r', c')"
    and "distinct (map fst ms)"
  shows "but_specs r r' \<and> (\<forall>i servers specs. (i, servers, specs) \<in> set ms \<longrightarrow>
      specs_of r' i = nonempty (networkd_specs servers specs)) \<and>
    (\<forall>i. i \<notin> fst ` set ms \<longrightarrow> specs_of r' i = specs_of r i) \<and> (\<not> c' \<longrightarrow> \<not> c \<and> specs_of r' = specs_of r)"
  using assms
proof (induction ms arbitrary: r c)
  case (Cons m ms)
  obtain i servers specs where m: "m = (i, servers, specs)" by (metis prod_cases3)
  obtain r1 c1 where s: "replace_link_server_specs r i (networkd_specs servers specs) = (r1, c1)" by fastforce
  have f: "fold (\<lambda>(i, servers, specs) (r, c).
      let (r, c') = replace_link_server_specs r i (networkd_specs servers specs) in (r, c \<or> c')) ms (r1, c \<or> c1) = (r', c')"
    using Cons.prems(1) by (simp add: m s)
  have d: "distinct (map fst ms)" "i \<notin> fst ` set ms" using Cons.prems(2) by (auto simp: m)
  note ih = Cons.IH[OF f d(1)] and st = replace_specs[OF s]
  show ?case
  proof (intro conjI allI impI)
    show "but_specs r r'" using ih st but_specs_trans by blast
    show "specs_of r' j = nonempty (networkd_specs sv sp)" if "(j, sv, sp) \<in> set (m # ms)" for j sv sp
    proof (cases "(j, sv, sp) \<in> set ms")
      case False
      then have "(j, sv, sp) = (i, servers, specs)" using that m by simp
      then show ?thesis using ih st d(2) by simp
    qed (use ih in blast)
    show "specs_of r' j = specs_of r j" if "j \<notin> fst ` set (m # ms)" for j using ih st that m by simp
    show "\<not> c" "specs_of r' = specs_of r" if "\<not> c'" using ih st that by metis+
  qed
qed (simp add: but_specs_refl)

lemma apply_identities_keeps:
  assumes "apply_identities removed managed r = (r', c)" "distinct (map fst managed)"
  shows "but_specs r r' \<and> (\<forall>i servers specs. (i, servers, specs) \<in> set managed \<longrightarrow>
      specs_of r' i = nonempty (networkd_specs servers specs)) \<and> (\<not> c \<longrightarrow> specs_of r' = specs_of r)"
proof -
  obtain r1 gone where rem: "fold (\<lambda>i (r, c). let (r, c') = remove_link_server_specs r i in (r, c \<or> c')) removed (r, False) = (r1, gone)"
    by fastforce
  note remk = remove_all_specs[OF rem]
    and repk = replace_all_specs[OF assms(1)[unfolded apply_identities_def rem] assms(2)]
  have "but_specs r r'" using repk remk but_specs_trans by blast
  moreover have "\<not> c \<longrightarrow> specs_of r' = specs_of r" using repk remk by simp
  ultimately show ?thesis using repk by blast
qed

section \<open>Changes invalidate\<close>

text \<open>The links and identities look the same, except that a link may have been created with default settings.\<close>

definition same_links :: "'f resolver \<Rightarrow> 'f resolver \<Rightarrow> bool" where
  "same_links r r' \<longleftrightarrow>
     (\<forall>i. rv_link r' i = rv_link r i \<or> rv_link r i = None \<and> rv_link r' i = Some (link_default i)) \<and>
     specs_of r' = specs_of r"

definition invalidated :: "'f resolver \<Rightarrow> 'f resolver \<Rightarrow> bool" where
  "invalidated r r' \<longleftrightarrow> rv_generation r' = rv_generation r + 1 \<and> rv_cache r' = cache_flush (rv_cache r)"

definition untouched :: "'f resolver \<Rightarrow> 'f resolver \<Rightarrow> bool" where
  "untouched r r' \<longleftrightarrow> rv_generation r' = rv_generation r \<and> rv_cache r' = rv_cache r"

definition coherent :: "'f resolver \<Rightarrow> 'f resolver \<Rightarrow> bool" where
  "coherent r r' \<longleftrightarrow> invalidated r r' \<or> untouched r r' \<and> same_links r r'"

lemma finish_coherent:
  assumes "\<not> changed \<Longrightarrow> same_links r r'" "untouched r r'"
  shows "coherent r (finish_routing_change changed r')"
proof (cases changed)
  case True
  then show ?thesis using assms(2)
    by (simp add: coherent_def invalidated_def untouched_def finish_routing_change_def)
next
  case False
  then show ?thesis using assms by (simp add: coherent_def finish_routing_change_def)
qed

lemma setting_unreported:
  assumes "rt_wf t" "apply_link_setting t i v = (t', Inr False)"
  shows "\<forall>j. rt_link t' j = rt_link t j \<or> rt_link t j = None \<and> rt_link t' j = Some (link_default j)"
proof
  fix j
  obtain l where l: "rt_link t i = Some l \<or> rt_link t i = None \<and> l = link_default i" "rt_link t' i = Some l"
    using apply_link_setting_stored[OF assms] by (auto simp: link_stored_def)
  have "j \<noteq> i \<Longrightarrow> rt_link t' j = rt_link t j"
    using apply_link_setting_frame[OF assms(1), of j i v] assms(2) by simp
  then show "rt_link t' j = rt_link t j \<or> rt_link t j = None \<and> rt_link t' j = Some (link_default j)"
    using l by (cases "j = i") auto
qed

lemma but_specsD:
  assumes "but_specs r r'"
  shows "rv_routing r' = rv_routing r" "rv_generation r' = rv_generation r" "rv_cache r' = rv_cache r"
    "rv_networkd_links r' = rv_networkd_links r"
  using assms by (auto simp: but_specs_def)

lemma same_linksI:
  assumes "\<forall>j. rt_link (rv_routing r') j = rt_link (rv_routing r) j \<or>
      rt_link (rv_routing r) j = None \<and> rt_link (rv_routing r') j = Some (link_default j)"
    and "specs_of r' = specs_of r"
  shows "same_links r r'"
  unfolding same_links_def rv_link_def using assms by blast

lemma change_link_coherent:
  assumes "rt_wf (rv_routing r)" "change_link (\<lambda>t. apply_link_setting t i v) i r = (r', Inr ())"
  shows "coherent r r'"
proof -
  obtain t b where s: "apply_link_setting (rv_routing r) i v = (t, Inr b)"
    and r': "r' = finish_routing_change b (r\<lparr>rv_routing := t\<rparr>)"
    using assms(2) by (auto simp: change_link_def Let_def split: sum.splits prod.splits)
  show ?thesis unfolding r'
  proof (rule finish_coherent)
    assume "\<not> b"
    then have "apply_link_setting (rv_routing r) i v = (t, Inr False)" using s by simp
    from setting_unreported[OF assms(1) this] show "same_links r (r\<lparr>rv_routing := t\<rparr>)"
      by (intro same_linksI) simp_all
  qed (simp add: untouched_def)
qed

lemma set_link_dns_specs_coherent:
  assumes "rt_wf (rv_routing r)" "set_link_dns_specs i specs r = (r', Inr ())"
  shows "coherent r r'"
proof -
  obtain t b where s: "set_dns (rv_routing r) i (map dss_address specs) = (t, Inr b)"
    using assms(2) by (auto simp: set_link_dns_specs_def Let_def split: sum.splits prod.splits)
  define addresses where "addresses = (case rt_link t i of None \<Rightarrow> [] | Some l \<Rightarrow> ls_dns_servers l)"
  obtain r1 c where rep: "replace_link_server_specs (r\<lparr>rv_routing := t\<rparr>) i (normalize_link_specs addresses specs) = (r1, c)"
    by fastforce
  have r': "r' = finish_routing_change (b \<or> c) r1"
    using assms(2) s rep
    by (simp add: set_link_dns_specs_def Let_def addresses_def[symmetric] split: sum.splits)
  note sp = replace_specs[OF rep]
  have a: "apply_link_setting (rv_routing r) i (SDns (map dss_address specs)) = (t, Inr b)" using s by simp
  show ?thesis unfolding r'
  proof (rule finish_coherent)
    assume n: "\<not> (b \<or> c)"
    then have "apply_link_setting (rv_routing r) i (SDns (map dss_address specs)) = (t, Inr False)" using a by simp
    note un = setting_unreported[OF assms(1) this]
    have "specs_of r1 = specs_of (r\<lparr>rv_routing := t\<rparr>)" "rv_routing r1 = t"
      using sp n but_specsD[of "r\<lparr>rv_routing := t\<rparr>" r1] by (blast, simp)
    then show "same_links r r1" using un by (intro same_linksI) simp_all
  qed (use sp but_specsD[of "r\<lparr>rv_routing := t\<rparr>" r1] in \<open>auto simp: untouched_def\<close>)
qed

lemma revert_link_coherent:
  assumes "revert_link i r = (r', Inr ())"
  shows "coherent r r'"
proof -
  obtain t b where s: "rt_revert (rv_routing r) i = (t, Inr b)"
    using assms by (auto simp: revert_link_def Let_def split: sum.splits prod.splits)
  obtain r1 c where rem: "remove_link_server_specs (r\<lparr>rv_routing := t\<rparr>) i = (r1, c)" by fastforce
  have r': "r' = finish_routing_change (b \<or> c) r1"
    using assms s rem by (simp add: revert_link_def split: sum.splits)
  note sp = remove_specs[OF rem]
  show ?thesis unfolding r'
  proof (rule finish_coherent)
    assume n: "\<not> (b \<or> c)"
    then have "t = rv_routing r" using s rt_revert_unchanged[of "rv_routing r" i t] by simp
    moreover have "specs_of r1 = specs_of (r\<lparr>rv_routing := t\<rparr>)" "rv_routing r1 = t"
      using sp n but_specsD[of "r\<lparr>rv_routing := t\<rparr>" r1] by (blast, simp)
    ultimately show "same_links r r1" by (intro same_linksI) simp_all
  qed (use sp but_specsD[of "r\<lparr>rv_routing := t\<rparr>" r1] in \<open>auto simp: untouched_def\<close>)
qed

lemma rv_sync_kernel_links_coherent:
  assumes "rt_wf (rv_routing r)" "rv_sync_kernel_links ks r = (r', Inr ())"
  shows "coherent r r'"
proof -
  obtain t b where s: "sync_kernel_links (rv_routing r) ks = (t, Inr b)"
    using assms(2) by (auto simp: rv_sync_kernel_links_def Let_def split: sum.splits prod.splits)
  define specs where "specs = filter (\<lambda>(i, _). i \<in> set (map ls_ifindex (rt_link_list t))) (rv_link_server_specs r)"
  let ?c = "length specs \<noteq> length (rv_link_server_specs r)"
  have r': "r' = finish_routing_change (b \<or> ?c) (r\<lparr>rv_routing := t, rv_link_server_specs := specs\<rparr>)"
    using assms(2) s by (simp add: rv_sync_kernel_links_def Let_def specs_def)
  show ?thesis unfolding r'
  proof (rule finish_coherent)
    assume n: "\<not> (b \<or> ?c)"
    then have "t = rv_routing r" using s sync_kernel_links_unchanged[OF assms(1), of ks t] by simp
    moreover have "specs = rv_link_server_specs r"
      using n unfolding specs_def by (metis filter_True length_filter_less nat_neq_iff)
    ultimately show "same_links r (r\<lparr>rv_routing := t, rv_link_server_specs := specs\<rparr>)"
      by (simp add: same_links_def rv_link_def)
  qed (simp add: untouched_def)
qed

lemma run_settings_norm:
  assumes "rt_wf t" "run_setters (link_settings i vs) t c = (t', Inr c')" "v \<in> set vs"
  shows "\<exists>l. holds_setting i v l"
  using assms
proof (induction vs arbitrary: t c)
  case (Cons u vs)
  obtain t1 b where f: "apply_link_setting t i u = (t1, Inr b)"
    and rest: "run_setters (link_settings i vs) t1 (c \<or> b) = (t', Inr c')"
    using Cons.prems(2) by (auto split: prod.splits sum.splits)
  have wf: "rt_wf t1" using apply_link_setting_wf[OF Cons.prems(1), of i u] f by simp
  show ?case
    using Cons.IH[OF wf rest] Cons.prems(3) apply_link_setting_stores[OF Cons.prems(1) f] by auto
qed simp

lemma manage_links_norm:
  assumes "rt_wf t" "distinct (map nl_ifindex ls)" "manage_links config ls t removed managed changed = (t', Inr x)"
    and "l \<in> set (managed_in t ls)"
  shows "\<exists>domains anchors. collect_normalized normalize_domain (nl_domains l) [] = Inr domains \<and>
    collect_normalized normalize_name (nl_negative_trust_anchors l) [] = Inr anchors"
  using assms
proof (induction ls arbitrary: t removed managed changed)
  case (Cons k ls)
  let ?i = "nl_ifindex k"
  show ?case
  proof (cases "nl_managed k \<and> rt_link t ?i \<noteq> None")
    case False
    then show ?thesis using Cons by (auto split: if_splits)
  next
    case True
    then obtain s where s: "rt_link t ?i = Some s" by blast
    obtain t1 c where run: "run_setters (networkd_setters config k) t changed = (t1, Inr c)"
      using Cons.prems(3) True by (auto split: prod.splits sum.splits)
    note run' = run[unfolded networkd_setters_eq]
    note k1 = run_settings[OF Cons.prems(1) s run']
    show ?thesis
    proof (cases "l = k")
      case True
      have "\<exists>d. holds_setting ?i (SDomains (nl_domains k)) d" "\<exists>d. holds_setting ?i (SAnchors (nl_negative_trust_anchors k)) d"
        by (rule run_settings_norm[OF Cons.prems(1) run']; simp add: reported_settings_def)+
      then show ?thesis using True by auto
    next
      case False
      then have l: "l \<in> set (managed_in t ls)" using Cons.prems(4) by (auto split: if_splits)
      then have "nl_ifindex l \<noteq> ?i" using Cons.prems(2) by (auto simp: image_iff)
      then have "l \<in> set (managed_in t1 ls)" using l k1 by auto
      moreover have "\<exists>m. manage_links config ls t1 removed m c = (t', Inr x)"
        using Cons.prems(3) True run by (auto split: prod.splits)
      moreover have "distinct (map nl_ifindex ls)" "rt_wf t1" using Cons.prems(2) k1 by simp_all
      ultimately show ?thesis using Cons.IH by blast
    qed
  qed
qed simp

text \<open>What a successful synchronisation with networkd does, step by step.\<close>

lemma networkd_incoming:
  assumes "\<forall>i l. (i, l) \<in> set m \<longrightarrow> nl_ifindex l = i" "distinct (map fst m)"
    and "m' = fold (\<lambda>l m. AList.update (nl_ifindex l) l m) links m"
  shows "(\<forall>i l. (i, l) \<in> set m' \<longrightarrow> nl_ifindex l = i) \<and> distinct (map fst m')"
  using assms
proof (induction links arbitrary: m)
  case (Cons l links)
  have "i = nl_ifindex l' " if "(i, l') \<in> set (AList.update (nl_ifindex l) l m)" for i l'
  proof -
    have d: "distinct (map fst (AList.update (nl_ifindex l) l m))" using Cons.prems(2) by (simp add: distinct_update)
    have "map_of (AList.update (nl_ifindex l) l m) i = Some l'" using that d by simp
    then show ?thesis using Cons.prems(1) by (auto simp: update_conv' split: if_splits dest!: map_of_SomeD)
  qed
  then show ?case
    by (intro Cons.IH[of "AList.update (nl_ifindex l) l m"]) (use Cons.prems in \<open>simp_all add: distinct_update\<close>)
qed simp

definition incoming_links :: "networkd_link list \<Rightarrow> (int \<times> networkd_link) list" where
  "incoming_links links = fold (\<lambda>l m. AList.update (nl_ifindex l) l m) links []"

lemma incoming_links_ok:
  "distinct (map fst (incoming_links links))" "(i, l) \<in> set (incoming_links links) \<Longrightarrow> nl_ifindex l = i"
  "map nl_ifindex (map snd (incoming_links links)) = map fst (incoming_links links)"
proof -
  have *: "(\<forall>i l. (i, l) \<in> set (incoming_links links) \<longrightarrow> nl_ifindex l = i) \<and> distinct (map fst (incoming_links links))"
    by (rule networkd_incoming[OF _ _ incoming_links_def]) simp_all
  show "distinct (map fst (incoming_links links))" using * by blast
  show "nl_ifindex l = i" if "(i, l) \<in> set (incoming_links links)" using * that by blast
  have "nl_ifindex (snd p) = fst p" if "p \<in> set (incoming_links links)" for p
    using * that by (cases p) simp
  then show "map nl_ifindex (map snd (incoming_links links)) = map fst (incoming_links links)"
    unfolding map_map o_def by (rule map_cong[OF refl])
qed

lemma finish_routing_change_simps [simp]:
  "rv_routing (finish_routing_change c r) = rv_routing r"
  "rv_link_server_specs (finish_routing_change c r) = rv_link_server_specs r"
  "rv_networkd_links (finish_routing_change c r) = rv_networkd_links r"
  by (simp_all add: finish_routing_change_def)

lemma sync_networkd_steps:
  assumes "rt_wf (rv_routing r)" "sync_networkd_links links r = (r', Inr ())"
  shows "\<exists>t0 t changed0 changed r2 identity. rt_wf t0 \<and>
    (\<forall>i l. map_of (incoming_links links) i = Some l \<and> nl_managed l \<longrightarrow> rt_link t0 i = rt_link (rv_routing r) i) \<and>
    (\<not> changed0 \<longrightarrow> t0 = rv_routing r) \<and>
    managed_result (rv_config r) (map snd (incoming_links links)) t0 t \<and> (\<not> changed \<longrightarrow> \<not> changed0 \<and> t = t0) \<and>
    but_specs (r\<lparr>rv_routing := t, rv_networkd_links := incoming_links links\<rparr>) r2 \<and>
    (\<forall>l \<in> set (managed_in t0 (map snd (incoming_links links))).
       specs_of r2 (nl_ifindex l) = nonempty (networkd_specs (reported_servers l) (nl_dns_server_specs l)) \<and>
       (\<exists>domains anchors. collect_normalized normalize_domain (nl_domains l) [] = Inr domains \<and>
          collect_normalized normalize_name (nl_negative_trust_anchors l) [] = Inr anchors)) \<and>
    (\<not> identity \<longrightarrow> specs_of r2 = specs_of r) \<and> r' = finish_routing_change (changed \<or> identity) r2"
proof -
  let ?in = "incoming_links links"
  obtain t0 removed0 changed0 where rel: "release_links ?in (rv_networkd_links r) (rv_routing r) [] False = (t0, Inr (removed0, changed0))"
    using assms(2) by (auto simp: sync_networkd_links_def incoming_links_def Let_def split: prod.splits sum.splits)
  obtain t removed managed changed where
    man: "manage_links (rv_config r) (map snd ?in) t0 removed0 [] changed0 = (t, Inr (removed, managed, changed))"
    using assms(2) rel by (auto simp: sync_networkd_links_def incoming_links_def Let_def split: prod.splits sum.splits)
  let ?r = "r\<lparr>rv_routing := t, rv_networkd_links := ?in\<rparr>"
  obtain r2 identity where ids: "apply_identities removed managed ?r = (r2, identity)" by fastforce
  have r': "r' = finish_routing_change (changed \<or> identity) r2"
    using assms(2) rel man ids by (simp add: sync_networkd_links_def incoming_links_def[symmetric])
  have d: "distinct (map nl_ifindex (map snd ?in))" unfolding incoming_links_ok(3) by (rule incoming_links_ok(1))
  note relk = release_links_keeps[OF assms(1) rel]
  have wf0: "rt_wf t0" using relk by blast
  note mank = manage_links_keeps[OF wf0 d man]
  have "distinct (map fst managed)" using mank d by (simp add: o_def distinct_map_filter)
  note idk = apply_identities_keeps[OF ids this]
  have specs: "\<forall>l \<in> set (managed_in t0 (map snd ?in)).
       specs_of r2 (nl_ifindex l) = nonempty (networkd_specs (reported_servers l) (nl_dns_server_specs l)) \<and>
       (\<exists>domains anchors. collect_normalized normalize_domain (nl_domains l) [] = Inr domains \<and>
          collect_normalized normalize_name (nl_negative_trust_anchors l) [] = Inr anchors)"
  proof
    fix l assume l: "l \<in> set (managed_in t0 (map snd ?in))"
    then have "(nl_ifindex l, reported_servers l, nl_dns_server_specs l) \<in> set managed" using mank by auto
    then show "specs_of r2 (nl_ifindex l) = nonempty (networkd_specs (reported_servers l) (nl_dns_server_specs l)) \<and>
       (\<exists>domains anchors. collect_normalized normalize_domain (nl_domains l) [] = Inr domains \<and>
          collect_normalized normalize_name (nl_negative_trust_anchors l) [] = Inr anchors)"
      using idk manage_links_norm[OF wf0 d man l] by blast
  qed
  have same: "\<not> identity \<longrightarrow> specs_of r2 = specs_of r" using idk by simp
  have but: "but_specs ?r r2" using idk by blast
  show ?thesis
    by (rule exI[of _ t0], rule exI[of _ t], rule exI[of _ changed0], rule exI[of _ changed],
        rule exI[of _ r2], rule exI[of _ identity])
      (use wf0 relk mank specs same but r' in blast)
qed

lemma sync_networkd_links_coherent:
  assumes "rt_wf (rv_routing r)" "sync_networkd_links links r = (r', Inr ())"
  shows "coherent r r'"
proof -
  obtain t0 t changed0 changed r2 identity where s1: "\<not> changed0 \<longrightarrow> t0 = rv_routing r"
    and s2: "\<not> changed \<longrightarrow> \<not> changed0 \<and> t = t0"
    and s3: "but_specs (r\<lparr>rv_routing := t, rv_networkd_links := incoming_links links\<rparr>) r2"
    and s4: "\<not> identity \<longrightarrow> specs_of r2 = specs_of r" and s5: "r' = finish_routing_change (changed \<or> identity) r2"
    using sync_networkd_steps[OF assms] by (elim exE conjE)
  show ?thesis unfolding s5
  proof (rule finish_coherent)
    assume n: "\<not> (changed \<or> identity)"
    have "rv_routing r2 = rv_routing r" using n s1 s2 but_specsD(1)[OF s3] by simp
    then show "same_links r r2" using n s4 by (intro same_linksI) simp_all
  qed (use but_specsD[OF s3] in \<open>simp add: untouched_def\<close>)
qed

section \<open>All operations on links\<close>

datatype link_op =
    LoDns int "dns_server_spec list" | LoDomains int "domain list" | LoDefaultRoute int "bool option"
  | LoLlmnr int support_mode | LoMulticastDns int support_mode | LoDnsOverTls int tls_mode
  | LoDnssec int validation_mode | LoAnchors int "string list" | LoRevert int
  | LoKernel "kernel_link list" | LoNetworkd "networkd_link list"

fun run_link_op :: "link_op \<Rightarrow> 'f resolver \<Rightarrow> 'f resolver \<times> (link_error + unit)" where
  "run_link_op (LoDns i v) = set_link_dns_specs i v"
| "run_link_op (LoDomains i v) = set_link_domains i v"
| "run_link_op (LoDefaultRoute i v) = set_link_default_route i v"
| "run_link_op (LoLlmnr i v) = set_link_llmnr i v"
| "run_link_op (LoMulticastDns i v) = set_link_multicast_dns i v"
| "run_link_op (LoDnsOverTls i v) = set_link_dns_over_tls i v"
| "run_link_op (LoDnssec i v) = set_link_dnssec i v"
| "run_link_op (LoAnchors i v) = set_link_dnssec_negative_trust_anchors i v"
| "run_link_op (LoRevert i) = revert_link i"
| "run_link_op (LoKernel v) = rv_sync_kernel_links v"
| "run_link_op (LoNetworkd v) = sync_networkd_links v"

fun op_link :: "link_op \<Rightarrow> int option" where
  "op_link (LoDns i _) = Some i" | "op_link (LoDomains i _) = Some i" | "op_link (LoDefaultRoute i _) = Some i"
| "op_link (LoLlmnr i _) = Some i" | "op_link (LoMulticastDns i _) = Some i" | "op_link (LoDnsOverTls i _) = Some i"
| "op_link (LoDnssec i _) = Some i" | "op_link (LoAnchors i _) = Some i" | "op_link (LoRevert i) = Some i"
| "op_link _ = None"

lemmas change_link_settings =
  set_link_domains_def set_link_default_route_def set_link_llmnr_def set_link_multicast_dns_def
  set_link_dns_over_tls_def set_link_dnssec_def set_link_dnssec_negative_trust_anchors_def

lemma setting_ops:
  "run_link_op (LoDomains i v1) = change_link (\<lambda>t. apply_link_setting t i (SDomains v1)) i"
  "run_link_op (LoDefaultRoute i v2) = change_link (\<lambda>t. apply_link_setting t i (SDefaultRoute v2)) i"
  "run_link_op (LoLlmnr i v3) = change_link (\<lambda>t. apply_link_setting t i (SLlmnr v3)) i"
  "run_link_op (LoMulticastDns i v4) = change_link (\<lambda>t. apply_link_setting t i (SMulticastDns v4)) i"
  "run_link_op (LoDnsOverTls i v5) = change_link (\<lambda>t. apply_link_setting t i (SDnsOverTls v5)) i"
  "run_link_op (LoDnssec i v6) = change_link (\<lambda>t. apply_link_setting t i (SDnssec v6)) i"
  "run_link_op (LoAnchors i v7) = change_link (\<lambda>t. apply_link_setting t i (SAnchors v7)) i"
  by (rule ext, simp add: change_link_settings)+

text \<open>The operations on single links refuse the links that networkd manages.\<close>

lemma managed_link_refused:
  "op_link op = Some i \<Longrightarrow> link_is_managed r i \<Longrightarrow> run_link_op op r = (r, Inl (ManagedLink i))"
  by (cases op) (simp_all add: setting_ops change_link_def set_link_dns_specs_def revert_link_def
      ensure_link_writable_def del: run_link_op.simps(2-8))

lemma change_link_reachable:
  "rt_reachable (rv_routing r) \<Longrightarrow> rt_reachable (rv_routing (fst (change_link (\<lambda>t. apply_link_setting t i v) i r)))"
  using reach_setting[of "rv_routing r" i v]
  by (auto simp: change_link_def Let_def split: sum.split prod.split)

lemma but_specs_routing: "replace_link_server_specs r i sp = (r', c) \<Longrightarrow> rv_routing r' = rv_routing r"
  "remove_link_server_specs r i = (r', c) \<Longrightarrow> rv_routing r' = rv_routing r"
  using replace_specs remove_specs but_specsD(1) by blast+

lemma set_link_dns_specs_reachable:
  assumes "rt_reachable (rv_routing r)"
  shows "rt_reachable (rv_routing (fst (set_link_dns_specs i specs r)))"
  using reach_setting[OF assms, of i "SDns (map dss_address specs)"] assms
  by (auto simp: set_link_dns_specs_def Let_def but_specs_routing split: sum.split prod.split)

lemma revert_link_reachable:
  assumes "rt_reachable (rv_routing r)"
  shows "rt_reachable (rv_routing (fst (revert_link i r)))"
  using reach_revert[OF assms, of i] assms
  by (auto simp: revert_link_def Let_def but_specs_routing split: sum.split prod.split)

lemma rv_sync_kernel_links_reachable:
  assumes "rt_reachable (rv_routing r)"
  shows "rt_reachable (rv_routing (fst (rv_sync_kernel_links ks r)))"
  using reach_sync[OF assms, of ks]
  by (auto simp: rv_sync_kernel_links_def Let_def split: sum.split prod.split)

lemma release_links_reachable:
  "rt_reachable t \<Longrightarrow> rt_reachable (fst (release_links incoming ls t removed changed))"
proof (induction ls arbitrary: t removed changed)
  case (Cons p ls)
  obtain i previous where p: "p = (i, previous)" by fastforce
  obtain t1 r where v: "rt_revert t i = (t1, r)" by fastforce
  have "rt_reachable t1" using reach_revert[OF Cons.prems, of i] by (simp add: v)
  then show ?case using Cons v p by (cases r) (simp_all add: Let_def)
qed simp

lemma run_settings_reachable: "rt_reachable t \<Longrightarrow> rt_reachable (fst (run_setters (link_settings i vs) t c))"
proof (induction vs arbitrary: t c)
  case (Cons v vs)
  obtain t1 r where f: "apply_link_setting t i v = (t1, r)" by fastforce
  have "rt_reachable t1" using reach_setting[OF Cons.prems, of i v] by (simp add: f)
  then show ?case using Cons.IH f by (cases r) simp_all
qed simp

lemma manage_links_reachable:
  "rt_reachable t \<Longrightarrow> rt_reachable (fst (manage_links config ls t removed managed changed))"
proof (induction ls arbitrary: t removed managed changed)
  case (Cons l ls)
  obtain t1 r where f: "run_setters (networkd_setters config l) t changed = (t1, r)" by fastforce
  have "rt_reachable t1"
    using run_settings_reachable[OF Cons.prems, of "nl_ifindex l" "reported_settings config l" changed]
    by (simp add: f networkd_setters_eq[symmetric])
  then show ?case using Cons f by (cases r) simp_all
qed simp

lemma sync_networkd_links_reachable:
  assumes "rt_reachable (rv_routing r)"
  shows "rt_reachable (rv_routing (fst (sync_networkd_links links r)))"
proof -
  let ?in = "incoming_links links"
  obtain t0 x where rel: "release_links ?in (rv_networkd_links r) (rv_routing r) [] False = (t0, x)" by fastforce
  have t0: "rt_reachable t0" using release_links_reachable[OF assms, of ?in "rv_networkd_links r" "[]" False] rel by simp
  show ?thesis
  proof (cases x)
    case (Inl e)
    then show ?thesis using rel t0 by (simp add: sync_networkd_links_def incoming_links_def[symmetric])
  next
    case (Inr p)
    then obtain removed changed where x: "x = Inr (removed, changed)" by (cases p) simp
    obtain t y where man: "manage_links (rv_config r) (map snd ?in) t0 removed [] changed = (t, y)" by fastforce
    have t: "rt_reachable t"
      using manage_links_reachable[OF t0, of "rv_config r" "map snd ?in" removed "[]" changed] man by simp
    have d: "distinct (map nl_ifindex (map snd ?in))" unfolding incoming_links_ok(3) by (rule incoming_links_ok(1))
    show ?thesis
    proof (cases y)
      case (Inl e)
      then show ?thesis using rel x man t by (simp add: sync_networkd_links_def incoming_links_def[symmetric])
    next
      case (Inr q)
      obtain removed' managed changed' where q: "q = (removed', managed, changed')" by (metis prod_cases3)
      have "distinct (map fst managed)"
        using manage_links_keeps[OF rt_reachable_wf[OF t0] d man[unfolded Inr q]] d
        by (simp add: o_def distinct_map_filter)
      obtain r2 c where ids: "apply_identities removed' managed (r\<lparr>rv_routing := t, rv_networkd_links := ?in\<rparr>) = (r2, c)"
        by fastforce
      have "rv_routing r2 = t" using apply_identities_keeps[OF ids \<open>distinct (map fst managed)\<close>] but_specsD(1) by fastforce
      then show ?thesis using rel x man Inr q ids t by (simp add: sync_networkd_links_def incoming_links_def[symmetric])
    qed
  qed
qed

lemma run_link_op_reachable:
  "rt_reachable (rv_routing r) \<Longrightarrow> rt_reachable (rv_routing (fst (run_link_op op r)))"
  by (cases op) (simp_all add: setting_ops change_link_reachable set_link_dns_specs_reachable revert_link_reachable
      rv_sync_kernel_links_reachable sync_networkd_links_reachable
      del: run_link_op.simps(2-8) apply_link_setting.simps)

text \<open>
  C14: no change of a link goes unnoticed. When a setting, a revert or a synchronisation with the
  kernel or with networkd succeeds, either the generation of the routes is advanced and the
  cache emptied, or the cache is kept and every link and every server identity is as it was, up
  to links created with default settings. In both cases the routing table stays one that the
  routing operations can produce.
\<close>

theorem link_changes_invalidate:
  assumes "rt_reachable (rv_routing r)" "run_link_op op r = (r', Inr ())"
  shows "rt_reachable (rv_routing r') \<and> (invalidated r r' \<or> untouched r r' \<and> same_links r r')"
proof
  note wf = rt_reachable_wf[OF assms(1)]
  show "rt_reachable (rv_routing r')" using run_link_op_reachable[OF assms(1), of op] assms(2) by simp
  have "coherent r r'"
    using assms(2)
    by (cases op) (simp_all add: setting_ops change_link_coherent[OF wf] set_link_dns_specs_coherent[OF wf] revert_link_coherent
        rv_sync_kernel_links_coherent[OF wf] sync_networkd_links_coherent[OF wf]
        del: run_link_op.simps(2-8) apply_link_setting.simps)
  then show "invalidated r r' \<or> untouched r r' \<and> same_links r r'" by (simp add: coherent_def)
qed

text \<open>A resolver with one link that the kernel has reported and networkd does not manage yet.\<close>

definition example_kernel_link :: "int \<Rightarrow> kernel_link" where
  "example_kernel_link i = \<lparr>kl_ifindex = i, kl_ifname = ''eth0'', kl_flags = 0x10041, kl_mtu = 1500, kl_operstate = 6,
     kl_ipv4_global = True, kl_ipv4_link_local = False, kl_ipv6_global = False, kl_ipv6_link_local = False\<rparr>"

definition example_resolver :: "nat resolver" where
  "example_resolver =
     (the (resolver_new 100 config_default FileMissing))
       \<lparr>rv_routing := fst (sync_kernel_links routing_default [example_kernel_link 2])\<rparr>"

lemma example_resolver_reachable: "rt_reachable (rv_routing example_resolver)"
  by (simp add: example_resolver_def reach_sync reach_init)

lemma example_resolver_parts:
  "rv_routing example_resolver = \<lparr>rt_links = [(2, (link_default 2)\<lparr>ls_kernel := Some (example_kernel_link 2)\<rparr>)],
     rt_kernel_synchronized = True\<rparr>"
  "rv_networkd_links example_resolver = []" "rv_link_server_specs example_resolver = []"
  "rv_config example_resolver = config_default" "rv_generation example_resolver = 1"
  by (simp_all add: example_resolver_def sync_kernel_links_def validate_ifindex_def routing_default_def Let_def
      example_kernel_link_def resolver_new_def cache_new_def gc_new_def)

lemma example_resolver_link:
  "rv_link example_resolver 2 = Some ((link_default 2)\<lparr>ls_kernel := Some (example_kernel_link 2)\<rparr>)"
  by (simp add: rv_link_def rt_link_def example_resolver_parts)

theorem link_changes_invalidate_witness:
  "\<exists>r'. run_link_op (LoDnssec 2 ValidationYes) example_resolver = (r', Inr ()) \<and>
     rv_generation r' = 2 \<and> rv_cache r' = cache_flush (rv_cache example_resolver)"
proof -
  obtain r' where r': "run_link_op (LoDnssec 2 ValidationYes) example_resolver = (r', Inr ())"
    and n: "rv_link r' 2 \<noteq> rv_link example_resolver 2"
    by (simp add: set_link_dnssec_def change_link_def ensure_link_writable_def link_is_managed_def example_resolver_parts
        set_dnssec_def with_link_def link_mut_def validate_ifindex_def link_default_def rv_link_def rt_link_def)
  have "\<not> same_links example_resolver r'" 
    using n unfolding same_links_def by (metis example_resolver_link option.distinct(1))
  then have "invalidated example_resolver r'"
    using link_changes_invalidate[OF example_resolver_reachable r'] by blast
  then show ?thesis using r' by (simp add: invalidated_def example_resolver_parts)
qed

section \<open>Links managed by networkd\<close>

lemma reported_link_eq:
  assumes "collect_normalized normalize_domain (nl_domains l) [] = Inr domains"
    "collect_normalized normalize_name (nl_negative_trust_anchors l) [] = Inr anchors"
  shows "reported_link config l s = s\<lparr>ls_dns_servers := reported_servers l, ls_domains := domains,
    ls_default_route := nl_default_route l, ls_llmnr := nl_llmnr l, ls_multicast_dns := nl_multicast_dns l,
    ls_dns_over_tls := option_or (cfg_dns_over_tls config) (nl_dns_over_tls l),
    ls_dnssec := option_or (cfg_dnssec config) (nl_dnssec l), ls_negative_trust_anchors := anchors\<rparr>"
  using assms by (simp add: reported_link_def reported_settings_def stored_by_def reported_servers_def)

lemma incoming_links_distinct:
  assumes "distinct (map nl_ifindex links)"
  shows "incoming_links links = map (\<lambda>l. (nl_ifindex l, l)) links"
proof -
  have new: "k \<notin> fst ` set m \<Longrightarrow> AList.update k v m = m @ [(k, v)]" for k v and m :: "(int \<times> networkd_link) list"
    by (induction m) auto
  have "distinct (map fst m @ map nl_ifindex links) \<Longrightarrow>
      fold (\<lambda>l m. AList.update (nl_ifindex l) l m) links m = m @ map (\<lambda>l. (nl_ifindex l, l)) links" for m
    by (induction links arbitrary: m) (auto simp: new)
  from this[of "[]"] show ?thesis using assms by (simp add: incoming_links_def)
qed

text \<open>
  C15: after a successful synchronisation every link that networkd manages and the kernel knows
  has exactly the settings of networkd's report, in normal form, with the configured modes where
  the report has none; its kernel record is kept, its server identities are the reported ones,
  and every later attempt to change it over the bus is refused and changes nothing.
\<close>

theorem networkd_sync_applies_report:
  assumes "rt_reachable (rv_routing r)" "sync_networkd_links links r = (r', Inr ())"
    and "distinct (map nl_ifindex links)" "l \<in> set links" "nl_managed l" "rv_link r (nl_ifindex l) = Some s"
  shows "(\<exists>domains anchors.
      collect_normalized normalize_domain (nl_domains l) [] = Inr domains \<and>
      collect_normalized normalize_name (nl_negative_trust_anchors l) [] = Inr anchors \<and>
      rv_link r' (nl_ifindex l) = Some (s\<lparr>
        ls_dns_servers := push_all_new [] (map (normalize_server (nl_ifindex l)) (nl_dns_servers l)),
        ls_domains := domains, ls_default_route := nl_default_route l, ls_llmnr := nl_llmnr l,
        ls_multicast_dns := nl_multicast_dns l,
        ls_dns_over_tls := option_or (cfg_dns_over_tls (rv_config r)) (nl_dns_over_tls l),
        ls_dnssec := option_or (cfg_dnssec (rv_config r)) (nl_dnssec l), ls_negative_trust_anchors := anchors\<rparr>)) \<and>
    map_of (rv_link_server_specs r') (nl_ifindex l) = nonempty (networkd_specs (reported_servers l) (nl_dns_server_specs l)) \<and>
    (\<forall>op. op_link op = Some (nl_ifindex l) \<longrightarrow> run_link_op op r' = (r', Inl (ManagedLink (nl_ifindex l))))"
proof -
  let ?i = "nl_ifindex l"
  note wf = rt_reachable_wf[OF assms(1)] and inc = incoming_links_distinct[OF assms(3)]
  have il: "map_of (incoming_links links) ?i = Some l"
    using assms(3,4) unfolding inc by (intro map_of_is_SomeI) (simp_all add: o_def)
  have snds: "map snd (incoming_links links) = links" unfolding inc by (simp add: o_def)
  obtain t0 t r2 changed0 changed identity where
    rel: "\<forall>i l. map_of (incoming_links links) i = Some l \<and> nl_managed l \<longrightarrow> rt_link t0 i = rt_link (rv_routing r) i"
    and m: "managed_result (rv_config r) (map snd (incoming_links links)) t0 t"
    and b: "but_specs (r\<lparr>rv_routing := t, rv_networkd_links := incoming_links links\<rparr>) r2"
    and sp: "\<forall>l \<in> set (managed_in t0 (map snd (incoming_links links))).
       specs_of r2 (nl_ifindex l) = nonempty (networkd_specs (reported_servers l) (nl_dns_server_specs l)) \<and>
       (\<exists>domains anchors. collect_normalized normalize_domain (nl_domains l) [] = Inr domains \<and>
          collect_normalized normalize_name (nl_negative_trust_anchors l) [] = Inr anchors)"
    and r': "r' = finish_routing_change (changed \<or> identity) r2"
    using sync_networkd_steps[OF wf assms(2)] by (elim exE conjE)
  have t0: "rt_link t0 ?i = Some s" using rel il assms(5,6) by (simp add: rv_link_def)
  have lm: "l \<in> set (managed_in t0 (map snd (incoming_links links)))" using assms(4,5) t0 snds by simp
  have link: "rv_link r' ?i = Some (reported_link (rv_config r) l s)"
    using m t0 assms(4,5) but_specsD(1)[OF b] unfolding managed_result_def r' rv_link_def snds by simp
  have specs: "specs_of r' ?i = nonempty (networkd_specs (reported_servers l) (nl_dns_server_specs l))"
    using sp lm unfolding r' by simp
  have "link_is_managed r' ?i"
    unfolding link_is_managed_def r' using but_specsD(4)[OF b] il assms(5) by simp
  then have refuse: "\<forall>op. op_link op = Some ?i \<longrightarrow> run_link_op op r' = (r', Inl (ManagedLink ?i))"
    using managed_link_refused by blast
  obtain domains anchors where norm: "collect_normalized normalize_domain (nl_domains l) [] = Inr domains"
    "collect_normalized normalize_name (nl_negative_trust_anchors l) [] = Inr anchors"
    using sp lm by blast
  show ?thesis
    using link[unfolded reported_link_eq[OF norm] reported_servers_def] norm specs refuse by blast
qed

text \<open>A report that names one server and one domain, as networkd writes it to its state file.\<close>

definition example_report :: "string \<Rightarrow> string" where
  "example_report name =
     ''ADMIN_STATE=configured'' @ [CHR 0x0A] @ ''DNS=10.0.0.1'' @ [CHR 0x0A] @ ''ROUTE_DOMAINS='' @ name @ [CHR 0x0A] @
     ''DNS_OVER_TLS=no'' @ [CHR 0x0A] @ ''DNSSEC=no'' @ [CHR 0x0A]"

definition example_managed_link :: "string \<Rightarrow> networkd_link" where
  "example_managed_link name = (unmanaged_link 2 OperMissing)\<lparr>nl_managed := True,
     nl_dns_servers := [SocketV4 (ipv4_new 10 0 0 1) 53],
     nl_dns_server_specs := [plain_spec (SocketV4 (ipv4_new 10 0 0 1) 53)],
     nl_domains := [\<lparr>dom_name = name, dom_route_only = True\<rparr>],
     nl_dns_over_tls := Some TlsNo, nl_dnssec := Some ValidationNo\<rparr>"

lemma example_report_parses:
  "parse_link_state 2 (example_report ''corp'') = Inr (example_managed_link ''corp'')"
  "parse_link_state 2 (example_report ''~~.foo'') = Inr (example_managed_link ''~.foo'')"
  by code_simp+

definition example_table :: routing_table where
  "example_table = \<lparr>rt_links = [(2, (link_default 2)\<lparr>ls_kernel := Some (example_kernel_link 2)\<rparr>)],
     rt_kernel_synchronized = True\<rparr>"

lemma example_manage:
  "fst (manage_links c [example_managed_link ''~.foo''] example_table [] [] False) =
     fst (set_dns example_table 2 [SocketV4 (ipv4_new 10 0 0 1) 53])"
  "snd (manage_links c [example_managed_link ''~.foo''] example_table [] [] False) = Inl (InvalidDomain ''.foo'')"
  "is_ok (snd (manage_links c [example_managed_link ''corp''] example_table [] [] False))"
  by code_simp+

lemma example_set_dns:
  "map_option ls_dns_servers (rt_link (fst (set_dns example_table 2 [SocketV4 (ipv4_new 10 0 0 1) 53])) 2) =
     Some [SocketV4 (ipv4_new 10 0 0 1) 53]"
  by code_simp

lemma example_sync_ok: "\<exists>r'. sync_networkd_links [example_managed_link ''corp''] example_resolver = (r', Inr ())"
proof -
  obtain t x where x: "manage_links config_default [example_managed_link ''corp''] example_table [] [] False = (t, x)"
    by fastforce
  have "is_ok x" using example_manage(3)[of config_default] unfolding x by simp
  then obtain removed managed changed where "x = Inr (removed, managed, changed)"
    by (cases x) (auto simp: is_ok_def)
  then show ?thesis using x
    by (auto simp: sync_networkd_links_def example_resolver_parts example_table_def[symmetric] Let_def
        simp del: manage_links.simps split: prod.split)
qed

lemma example_sync_fails:
  "\<exists>r'. sync_networkd_links [example_managed_link ''~.foo''] example_resolver = (r', Inl (InvalidDomain ''.foo'')) \<and>
     map_option ls_dns_servers (rv_link r' 2) = Some [SocketV4 (ipv4_new 10 0 0 1) 53]"
proof -
  obtain t x where x: "manage_links config_default [example_managed_link ''~.foo''] example_table [] [] False = (t, x)"
    by fastforce
  have "x = Inl (InvalidDomain ''.foo'')" "map_option ls_dns_servers (rt_link t 2) = Some [SocketV4 (ipv4_new 10 0 0 1) 53]"
    using example_manage(1,2)[of config_default] example_set_dns unfolding x by (simp_all only: prod.sel)
  then show ?thesis using x
    by (auto simp: sync_networkd_links_def example_resolver_parts example_table_def[symmetric] rv_link_def Let_def
        simp del: manage_links.simps)
qed

theorem networkd_sync_applies_report_witness:
  "parse_link_state 2 (example_report ''corp'') = Inr (example_managed_link ''corp'') \<and>
   (\<exists>r'. sync_networkd_links [example_managed_link ''corp''] example_resolver = (r', Inr ()) \<and>
      map_option ls_domains (rv_link r' 2) = Some [\<lparr>dom_name = ''corp'', dom_route_only = True\<rparr>] \<and>
      set_link_dnssec 2 ValidationNo r' = (r', Inl (ManagedLink 2)))"
proof -
  let ?l = "example_managed_link ''corp''"
  obtain r' where r': "sync_networkd_links [?l] example_resolver = (r', Inr ())"
    using example_sync_ok by blast
  have l: "nl_ifindex ?l = 2" "nl_managed ?l" "nl_domains ?l = [\<lparr>dom_name = ''corp'', dom_route_only = True\<rparr>]"
    by (simp_all add: example_managed_link_def unmanaged_link_def)
  note applied = networkd_sync_applies_report[OF example_resolver_reachable r' _ _ l(2), unfolded l(1,3), simplified,
      OF example_resolver_link]
  have n: "collect_normalized normalize_domain [\<lparr>dom_name = ''corp'', dom_route_only = True\<rparr>] [] =
      (Inr [\<lparr>dom_name = ''corp'', dom_route_only = True\<rparr>] :: link_error + domain list)"
    by code_simp
  have "map_option ls_domains (rv_link r' 2) = Some [\<lparr>dom_name = ''corp'', dom_route_only = True\<rparr>]"
    using applied n by auto
  moreover have "run_link_op (LoDnssec 2 ValidationNo) r' = (r', Inl (ManagedLink 2))"
    using applied by (metis op_link.simps)
  ultimately show ?thesis using r' example_report_parses(1) by simp
qed



end
