(* ===== verification/Spec2Isabelle.thy ===== *)
theory Spec2Isabelle
  imports Dnssec Edns Cache Routing_Props Config_Props Hosts Upstream_Props Resolver_Props Resolver_Links
begin

text \<open>
  A verification development for the DNS resolver daemon in \<open>src/\<close>.
\<close>

end
